(* ===== verification/Prelude.thy ===== *)
theory Prelude
  imports Main "HOL-Library.Word"
begin

text \<open>
  Shared vocabulary of the development: the machine types of the Go sources, Go results
  (a value or an error), Go slices, and the fixed-width integer codecs of
  \<open>encoding/binary\<close> with their round trips.

  A Go function that returns \<open>(T, error)\<close> becomes a function into \<open>'e + 'a\<close>: \<open>Inl\<close> is the
  error return, \<open>Inr\<close> the value. A run-time panic (an index out of range) is one more
  error value, so that nothing is hidden behind HOL's total \<open>nth\<close>.
\<close>

unbundle bit_operations_syntax

type_synonym u8 = "8 word"
type_synonym u16 = "16 word"
type_synonym u32 = "32 word"
type_synonym u64 = "64 word"
type_synonym bytes = "u8 list"

named_theorems codec "round trips and lengths of the byte codecs"
named_theorems slice_simps "lengths and elements of Go slices"

section \<open>Results\<close>

definition bindE :: "'e + 'a \<Rightarrow> ('a \<Rightarrow> 'e + 'b) \<Rightarrow> 'e + 'b" where
  "bindE m f = (case m of Inl e \<Rightarrow> Inl e | Inr x \<Rightarrow> f x)"

lemma bindE_simps [simp]:
  "bindE (Inl e) f = Inl e"
  "bindE (Inr x) f = f x"
  by (simp_all add: bindE_def)

lemma bindE_eq_Inr [simp]:
  "bindE m f = Inr y \<longleftrightarrow> (\<exists>x. m = Inr x \<and> f x = Inr y)"
  by (cases m) simp_all

lemma bindE_assoc: "bindE (bindE m f) g = bindE m (\<lambda>x. bindE (f x) g)"
  by (cases m) simp_all

lemma bindE_cong [fundef_cong]:
  "m = m' \<Longrightarrow> (\<And>x. m' = Inr x \<Longrightarrow> f x = g x) \<Longrightarrow> bindE m f = bindE m' g"
  by (cases m') simp_all

text \<open>A loop whose body may fail stops at the first failure.\<close>

fun foldE :: "('x \<Rightarrow> 's \<Rightarrow> 'e + 's) \<Rightarrow> 'x list \<Rightarrow> 's \<Rightarrow> 'e + 's" where
  "foldE f [] s = Inr s"
| "foldE f (x # xs) s = bindE (f x s) (foldE f xs)"

lemma foldE_append: "foldE f (xs @ ys) s = bindE (foldE f xs s) (foldE f ys)"
proof (induction xs arbitrary: s)
  case (Cons x xs)
  then show ?case by (cases "f x s") simp_all
qed simp

lemma foldE_invariant:
  assumes "foldE f xs s = Inr t" and "P s"
    and "\<And>x u v. x \<in> set xs \<Longrightarrow> P u \<Longrightarrow> f x u = Inr v \<Longrightarrow> P v"
  shows "P t"
  using assms
proof (induction xs arbitrary: s)
  case (Cons x xs)
  then obtain u where "f x s = Inr u" "foldE f xs u = Inr t" by auto
  with Cons show ?case by (metis list.set_intros(1) list.set_intros(2))
qed simp

section \<open>Indexed access\<close>

text \<open>Indexing outside a slice panics; \<open>p\<close> is the panic value of the component.\<close>

definition at :: "'e \<Rightarrow> 'a list \<Rightarrow> nat \<Rightarrow> 'e + 'a" where
  "at p xs i = (if i < length xs then Inr (xs ! i) else Inl p)"

definition put_at :: "'e \<Rightarrow> 'a list \<Rightarrow> nat \<Rightarrow> 'a \<Rightarrow> 'e + 'a list" where
  "put_at p xs i v = (if i < length xs then Inr (xs[i := v]) else Inl p)"

lemma at_Inr [simp]: "at p xs i = Inr x \<longleftrightarrow> i < length xs \<and> x = xs ! i"
  by (auto simp: at_def)

lemma at_lt: "i < length xs \<Longrightarrow> at p xs i = Inr (xs ! i)"
  by (simp add: at_def)

lemma put_at_Inr [simp]:
  "put_at p xs i v = Inr ys \<longleftrightarrow> i < length xs \<and> ys = xs[i := v]"
  by (auto simp: put_at_def)

lemma put_at_lt: "i < length xs \<Longrightarrow> put_at p xs i v = Inr (xs[i := v])"
  by (simp add: put_at_def)

lemma foldE_put_at:
  "n \<le> length xs \<Longrightarrow>
    foldE (\<lambda>i ys. put_at p ys i (f i)) [0..<n] xs = Inr (map f [0..<n] @ drop n xs)"
proof (induction n)
  case (Suc n)
  then have "(map f [0..<n] @ drop n xs)[n := f n] = map f [0..<n] @ f n # drop (Suc n) xs"
    by (simp add: list_update_append flip: Cons_nth_drop_Suc)
  with Suc show ?case by (simp add: foldE_append put_at_lt)
qed simp

text \<open>The slice expression \<open>xs[i:j]\<close> for \<open>i \<le> j \<le> len(xs)\<close>.\<close>

definition slice :: "'a list \<Rightarrow> nat \<Rightarrow> nat \<Rightarrow> 'a list" where
  "slice xs i j = take (j - i) (drop i xs)"

lemma length_slice [simp, slice_simps]:
  "i \<le> j \<Longrightarrow> j \<le> length xs \<Longrightarrow> length (slice xs i j) = j - i"
  by (simp add: slice_def)

lemma nth_slice [slice_simps]:
  "i \<le> j \<Longrightarrow> j \<le> length xs \<Longrightarrow> k < j - i \<Longrightarrow> slice xs i j ! k = xs ! (i + k)"
  by (simp add: slice_def)

lemma slice_append1 [simp]:
  "i \<le> j \<Longrightarrow> j \<le> length xs \<Longrightarrow> slice (xs @ ys) i j = slice xs i j"
  by (simp add: slice_def)

lemma slice_append2:
  "length xs \<le> i \<Longrightarrow> slice (xs @ ys) i j = slice ys (i - length xs) (j - length xs)"
  by (simp add: slice_def)

lemma slice_join:
  "i \<le> j \<Longrightarrow> j \<le> k \<Longrightarrow> slice xs i j @ slice xs j k = slice xs i k"
  using take_add [of "j - i" "k - j" "drop i xs"] by (simp add: slice_def)

lemma slice_full [simp]: "slice xs 0 (length xs) = xs"
  by (simp add: slice_def)

text \<open>Overwriting a window of a slice with zero values, Go's \<open>clear(xs[i:i+n])\<close>.\<close>

definition clear_range :: "'a \<Rightarrow> 'a list \<Rightarrow> nat \<Rightarrow> nat \<Rightarrow> 'a list" where
  "clear_range z xs i n = take i xs @ replicate n z @ drop (i + n) xs"

lemma length_clear_range [simp, slice_simps]:
  "i + n \<le> length xs \<Longrightarrow> length (clear_range z xs i n) = length xs"
  by (simp add: clear_range_def)

lemma nth_clear_range [slice_simps]:
  "i + n \<le> length xs \<Longrightarrow> k < length xs \<Longrightarrow>
    clear_range z xs i n ! k = (if i \<le> k \<and> k < i + n then z else xs ! k)"
  by (auto simp: clear_range_def nth_append min_def)

lemma drop_clear_range:
  "i + n \<le> k \<Longrightarrow> k \<le> length xs \<Longrightarrow> drop k (clear_range z xs i n) = drop k xs"
  by (auto simp: clear_range_def min_def)

section \<open>Readers\<close>

text \<open>
  A random source is the byte string it will yield. \<open>io.ReadFull\<close> takes exactly \<open>n\<close> bytes
  or fails with the error \<open>e\<close>; it returns the bytes and the rest of the source.
\<close>

definition readFull :: "'e \<Rightarrow> bytes \<Rightarrow> nat \<Rightarrow> 'e + bytes \<times> bytes" where
  "readFull e rng n = (if length rng < n then Inl e else Inr (take n rng, drop n rng))"

lemma readFull_Inr [simp]:
  "readFull e rng n = Inr (x, rest) \<longleftrightarrow> n \<le> length rng \<and> x = take n rng \<and> rest = drop n rng"
  by (auto simp: readFull_def)

section \<open>Fixed-width integers as bytes\<close>

text \<open>
  \<open>binary.LittleEndian\<close> and \<open>binary.BigEndian\<close> on \<open>n\<close>-byte integers. \<open>le_get\<close> reads all
  bytes of its argument; \<open>le_put n v\<close> writes the \<open>n\<close> low bytes of \<open>v\<close>.
\<close>

primrec le_get :: "bytes \<Rightarrow> 'a::len word" where
  "le_get [] = 0"
| "le_get (b # bs) = ucast b OR push_bit 8 (le_get bs)"

definition le_put :: "nat \<Rightarrow> 'a::len word \<Rightarrow> bytes" where
  "le_put n v = map (\<lambda>i. ucast (drop_bit (8 * i) v)) [0..<n]"

definition be_get :: "bytes \<Rightarrow> 'a::len word" where
  "be_get bs = le_get (rev bs)"

definition be_put :: "nat \<Rightarrow> 'a::len word \<Rightarrow> bytes" where
  "be_put n v = rev (le_put n v)"

lemma bit_le_get:
  "bit (le_get bs :: 'a::len word) i \<longleftrightarrow>
    i < LENGTH('a) \<and> i div 8 < length bs \<and> bit (bs ! (i div 8)) (i mod 8)"
proof (induction bs arbitrary: i)
  case (Cons b bs)
  show ?case
  proof (cases "i < 8")
    case True
    then show ?thesis by (auto simp: bit_simps)
  next
    case False
    then have "i div 8 = Suc ((i - 8) div 8)" "i mod 8 = (i - 8) mod 8"
      by (simp_all add: div_if mod_if)
    with False Cons.IH [of "i - 8"] show ?thesis
      by (auto simp: bit_simps dest: bit_imp_le_length)
  qed
qed simp

lemma length_le_put [simp, codec]: "length (le_put n v) = n"
  by (simp add: le_put_def)

lemma length_be_put [simp, codec]: "length (be_put n v) = n"
  by (simp add: be_put_def)

lemma nth_le_put: "i < n \<Longrightarrow> le_put n v ! i = ucast (drop_bit (8 * i) v)"
  by (simp add: le_put_def)

lemma le_get_le_put:
  assumes "LENGTH('a) \<le> 8 * n"
  shows "le_get (le_put n (v :: 'a::len word)) = v"
proof (rule bit_eqI)
  fix i assume "possible_bit TYPE('a word) i"
  then have i: "i < LENGTH('a)" by simp
  with assms have "i div 8 < n" by (simp add: less_mult_imp_div_less mult.commute)
  with i show "bit (le_get (le_put n v) :: 'a word) i = bit v i"
    by (auto simp: bit_le_get nth_le_put bit_simps)
qed

lemma le_put_le_get:
  assumes "length bs = n" and "8 * n \<le> LENGTH('a)"
  shows "le_put n (le_get bs :: 'a::len word) = bs"
proof (rule nth_equalityI)
  fix i assume "i < length (le_put n (le_get bs :: 'a word))"
  then have i: "i < n" by simp
  show "le_put n (le_get bs :: 'a word) ! i = bs ! i"
  proof (rule bit_eqI)
    fix k assume "possible_bit TYPE(8 word) k"
    then have k: "k < 8" by simp
    then have "(8 * i + k) div 8 = i" "(8 * i + k) mod 8 = k" by simp_all
    moreover have "8 * i + k < LENGTH('a)" using i k assms(2) by linarith
    ultimately show "bit (le_put n (le_get bs :: 'a word) ! i) k = bit (bs ! i) k"
      using i k assms(1) by (auto simp: nth_le_put bit_simps bit_le_get)
  qed
qed (simp add: assms)

lemma be_get_be_put:
  "LENGTH('a) \<le> 8 * n \<Longrightarrow> be_get (be_put n (v :: 'a::len word)) = v"
  by (simp add: be_get_def be_put_def le_get_le_put)

lemma be_put_be_get:
  "length bs = n \<Longrightarrow> 8 * n \<le> LENGTH('a) \<Longrightarrow> be_put n (be_get bs :: 'a::len word) = bs"
  by (simp add: be_get_def be_put_def le_put_le_get)

lemma be_get_64 [simp, codec]: "be_get (be_put 8 (v :: u64)) = v"
  by (rule be_get_be_put) simp

lemma be_get_32 [simp, codec]: "be_get (be_put 4 (v :: u32)) = v"
  by (rule be_get_be_put) simp

lemma be_get_16 [simp, codec]: "be_get (be_put 2 (v :: u16)) = v"
  by (rule be_get_be_put) simp

lemma be_put_64 [codec]: "length bs = 8 \<Longrightarrow> be_put 8 (be_get bs :: u64) = bs"
  by (rule be_put_be_get) simp_all

lemma be_put_32 [codec]: "length bs = 4 \<Longrightarrow> be_put 4 (be_get bs :: u32) = bs"
  by (rule be_put_be_get) simp_all

lemma be_put_16 [codec]: "length bs = 2 \<Longrightarrow> be_put 2 (be_get bs :: u16) = bs"
  by (rule be_put_be_get) simp_all

text \<open>Reading commutes with bytewise exclusive or.\<close>

abbreviation xor_bytes :: "bytes \<Rightarrow> bytes \<Rightarrow> bytes" where
  "xor_bytes xs ys \<equiv> map2 (XOR) xs ys"

lemma be_get_xor:
  assumes "length xs = length ys"
  shows "(be_get (xor_bytes xs ys) :: 'a::len word) = be_get xs XOR be_get ys"
proof -
  have "rev (xor_bytes xs ys) = xor_bytes (rev xs) (rev ys)"
    using assms by (simp add: rev_map zip_rev)
  moreover have "(le_get (xor_bytes us vs) :: 'a word) = le_get us XOR le_get vs"
    if "length us = length vs" for us vs
    by (rule bit_eqI) (use that in \<open>auto simp: bit_le_get bit_simps\<close>)
  ultimately show ?thesis using assms by (simp add: be_get_def)
qed

section \<open>ASCII tags\<close>

text \<open>The bytes of a string constant, as \<open>copy(out[:4], "KOB2")\<close> writes them.\<close>

definition ascii :: "string \<Rightarrow> bytes" where
  "ascii s = map of_char s"

lemma length_ascii [simp]: "length (ascii s) = length s"
  by (simp add: ascii_def)

section \<open>Exclusive-or groups\<close>

text \<open>
  Labels and field elements form commutative groups in which every element is its own
  inverse. The laws below are all that the garbling, oblivious-transfer and consistency
  check proofs use of them.
\<close>

locale xor_group =
  fixes xor :: "'a \<Rightarrow> 'a \<Rightarrow> 'a" and zero :: 'a
  assumes xor_assoc: "xor (xor a b) c = xor a (xor b c)"
    and xor_commute: "xor a b = xor b a"
    and xor_zero: "xor zero a = a"
    and xor_self: "xor a a = zero"
begin

lemma xor_left_commute: "xor a (xor b c) = xor b (xor a c)"
  by (metis xor_assoc xor_commute)

lemma xor_zero_right: "xor a zero = a"
  by (metis xor_commute xor_zero)

lemma xor_cancel: "xor a (xor a b) = b"
  by (metis xor_assoc xor_self xor_zero)

lemmas xor_ac = xor_assoc xor_commute xor_left_commute
lemmas xor_simps = xor_zero xor_zero_right xor_self xor_cancel

lemma xor_eq_self_iff: "xor a b = a \<longleftrightarrow> b = zero"
  by (metis xor_cancel xor_self xor_zero_right)

lemma xor_inj: "xor a b = xor a c \<longleftrightarrow> b = c"
  by (metis xor_cancel)

end

text \<open>
  A map that is additive in its first argument, as multiplication in GF(2^128) is, makes
  every weighted sum additive.
\<close>

locale xor_linear = xor_group +
  fixes mul :: "'a \<Rightarrow> 'a \<Rightarrow> 'a"
  assumes mul_xor: "mul (xor a b) c = xor (mul a c) (mul b c)"
begin

lemma mul_zero: "mul zero c = zero"
  by (metis mul_xor xor_self)

lemma weighted_sum_xor:
  "length us = length vs \<Longrightarrow> length us = length cs \<Longrightarrow>
    foldl (\<lambda>acc (u, c). xor acc (mul u c)) (xor a b) (zip (map2 xor us vs) cs) =
      xor (foldl (\<lambda>acc (u, c). xor acc (mul u c)) a (zip us cs))
          (foldl (\<lambda>acc (v, c). xor acc (mul v c)) b (zip vs cs))"
proof (induction us vs arbitrary: cs a b rule: list_induct2')
  case (4 u us v vs)
  then obtain c ds where cs: "cs = c # ds" by (cases cs) auto
  have "xor (xor a b) (mul (xor u v) c) = xor (xor a (mul u c)) (xor b (mul v c))"
    by (simp add: mul_xor xor_ac)
  with 4 cs show ?case by simp
qed auto

end

end
