(* ===== verification/Labels.thy ===== *)
theory Labels
  imports Prelude
begin

text \<open>
  The 128-bit wire labels of \<open>mpc/label.go\<close>, the error values of the package, and the
  checked index arithmetic of \<open>mpc/index.go\<close>. Labels form an exclusive-or group; the
  interpretation \<open>lx\<close> below carries the algebra of every later proof.
\<close>

section \<open>Errors of the package\<close>

text \<open>
  One constructor per error message, grouped by the file that produces it, and \<open>Panic\<close> for
  a run-time panic.
\<close>

datatype index_error = NegativeOTCount | OTIndexOverflow

datatype engine_error =
    CompileFailed | NilCircuit | UnexpectedCircuitShape | UnsupportedOperation nat
  | NilRandomness | ShortRandomness | WireCountMismatch | TableCountMismatch

datatype online_error =
    DataLengthOutsideRange | DataSliceTooShort | SenderOTCount | SenderOTIndex nat
  | ReceiverOTCount | ReceiverOTIndex nat | NilPayload | GarblerInputCount | NilSession
  | CorrectionCount | AlreadyCorrected | InvalidSessionState | MaskCount | AlreadyEvaluated
  | NotCorrected | AlreadyVerified | OutputLabelCount | InvalidOutputLabel nat

datatype pool_error =
    InvalidPoolFrontier | InvalidPoolState | InvalidOTCount | InsufficientOTs
  | BeforeRetainedIndex | OTAlreadyUsed u64 | ResumeOutsideRange
  | UnsupportedPrecomputeCount | PoolsDisagree | NilPool

datatype wire_error =
    InvalidLength | InvalidMagic | InvalidFrame | SessionMismatch | CountMismatch
  | EmptyNonce | InvalidEpoch | UnsupportedEpochVersion | NilMessage

datatype extension_error =
    InvalidExtensionCount | NilState | StateAlreadyUsed | ZeroDelta | EpochMismatch
  | TranscriptMismatch | IncompleteState | KOSCheckFailed | PaddedCountMismatch
  | MatrixLength | ChallengeLength | InvalidBaseCipher | BaseCipherSession

datatype base_error =
    SetupFailed | IdenticalSeeds nat | InvalidMessage | MessageSession | InvalidPoint
  | CipherFailed

datatype mpc_error =
    Panic
  | Index index_error
  | Engine engine_error
  | Online online_error
  | Pool pool_error
  | Wire wire_error
  | Extension extension_error
  | Base base_error

section \<open>Labels\<close>

record Label =
  D0 :: u64
  D1 :: u64

record wire =
  l0 :: Label
  l1 :: Label

definition label_zero :: Label where
  "label_zero = \<lparr>D0 = 0, D1 = 0\<rparr>"

definition wire_zero :: wire where
  "wire_zero = \<lparr>l0 = label_zero, l1 = label_zero\<rparr>"

definition label_xor :: "Label \<Rightarrow> Label \<Rightarrow> Label" where
  "label_xor l r = \<lparr>D0 = D0 l XOR D0 r, D1 = D1 l XOR D1 r\<rparr>"

definition label_equal :: "Label \<Rightarrow> Label \<Rightarrow> bool" where
  "label_equal l r \<longleftrightarrow> D0 l = D0 r \<and> D1 l = D1 r"

definition permutationBit :: "Label \<Rightarrow> bool" where
  "permutationBit l \<longleftrightarrow> drop_bit 63 (D0 l) \<noteq> 0"

definition withPermutationBit :: "Label \<Rightarrow> bool \<Rightarrow> Label" where
  "withPermutationBit l b =
     (if b then l\<lparr>D0 := D0 l OR push_bit 63 1\<rparr>
      else l\<lparr>D0 := D0 l AND NOT (push_bit 63 1)\<rparr>)"

definition label_put :: "Label \<Rightarrow> bytes" where
  "label_put l = be_put 8 (D0 l) @ be_put 8 (D1 l)"

definition labelFromBytes :: "bytes \<Rightarrow> Label" where
  "labelFromBytes src = \<lparr>D0 = be_get (slice src 0 8), D1 = be_get (slice src 8 16)\<rparr>"

lemma label_eqI: "D0 a = D0 b \<Longrightarrow> D1 a = D1 b \<Longrightarrow> a = (b :: Label)"
  by simp

lemma label_equal_iff [simp]: "label_equal a b \<longleftrightarrow> a = b"
  by (auto simp: label_equal_def intro: label_eqI)

lemma D0_xor [simp]: "D0 (label_xor a b) = D0 a XOR D0 b"
  and D1_xor [simp]: "D1 (label_xor a b) = D1 a XOR D1 b"
  by (simp_all add: label_xor_def)

interpretation lx: xor_group label_xor label_zero
  by unfold_locales (simp_all add: label_xor_def label_zero_def ac_simps)

lemmas label_algebra = lx.xor_ac lx.xor_simps

lemma permutationBit_bit: "permutationBit l \<longleftrightarrow> bit (D0 l) 63"
proof -
  have "drop_bit 63 (D0 l) = of_bool (bit (D0 l) 63)"
  proof (rule bit_eqI)
    fix n show "bit (drop_bit 63 (D0 l)) n = bit (of_bool (bit (D0 l) 63) :: u64) n"
      by (cases n) (auto simp: bit_simps dest: bit_imp_le_length)
  qed
  then show ?thesis by (simp add: permutationBit_def)
qed

lemma permutationBit_xor [simp]:
  "permutationBit (label_xor a b) \<longleftrightarrow> permutationBit a \<noteq> permutationBit b"
  by (simp add: permutationBit_bit bit_simps)

lemma permutationBit_zero [simp]: "\<not> permutationBit label_zero"
  by (simp add: permutationBit_bit label_zero_def)

lemma permutationBit_with [simp]: "permutationBit (withPermutationBit l b) \<longleftrightarrow> b"
  by (simp add: permutationBit_bit withPermutationBit_def bit_simps)

lemma withPermutationBit_nonzero: "withPermutationBit l True \<noteq> label_zero"
  by (metis permutationBit_with permutationBit_zero)

text \<open>Bit \<open>n\<close> of a label, counted from the low bit of its first word.\<close>

definition lbit :: "Label \<Rightarrow> nat \<Rightarrow> bool" where
  "lbit l n \<longleftrightarrow> (if n < 64 then bit (D0 l) n else bit (D1 l) (n - 64))"

lemma label_bit_eqI: "(\<And>n. n < 128 \<Longrightarrow> lbit a n = lbit b n) \<Longrightarrow> a = b"
proof (rule label_eqI)
  assume e: "\<And>n. n < 128 \<Longrightarrow> lbit a n = lbit b n"
  show "D0 a = D0 b"
  proof (rule bit_eqI)
    fix n assume "possible_bit TYPE(u64) n"
    then show "bit (D0 a) n = bit (D0 b) n" using e [of n] by (simp add: lbit_def)
  qed
  show "D1 a = D1 b"
  proof (rule bit_eqI)
    fix n assume "possible_bit TYPE(u64) n"
    then show "bit (D1 a) n = bit (D1 b) n" using e [of "64 + n"] by (simp add: lbit_def)
  qed
qed

lemma lbit_xor [simp]: "lbit (label_xor a b) n \<longleftrightarrow> lbit a n \<noteq> lbit b n"
  by (simp add: lbit_def bit_simps)

lemma lbit_zero [simp]: "\<not> lbit label_zero n"
  by (simp add: lbit_def label_zero_def)

lemma length_label_put [simp, codec]: "length (label_put l) = 16"
  by (simp add: label_put_def)

lemma slice_label_put:
  "slice (label_put l) 0 8 = be_put 8 (D0 l)"
  "slice (label_put l) 8 16 = be_put 8 (D1 l)"
  by (simp_all add: label_put_def slice_def)

lemma labelFromBytes_put [simp, codec]: "labelFromBytes (label_put l) = l"
  by (simp add: labelFromBytes_def slice_label_put)

lemma label_put_fromBytes [codec]:
  assumes "length bs = 16"
  shows "label_put (labelFromBytes bs) = bs"
proof -
  have "be_put 8 (be_get (slice bs 0 8) :: u64) = slice bs 0 8"
    and "be_put 8 (be_get (slice bs 8 16) :: u64) = slice bs 8 16"
    using assms by (simp_all add: be_put_64)
  moreover have "slice bs 0 8 @ slice bs 8 16 = bs"
  proof -
    have "slice bs 8 16 = drop 8 bs" using assms by (simp add: slice_def)
    then show ?thesis by (simp add: slice_def)
  qed
  ultimately show ?thesis by (simp add: label_put_def labelFromBytes_def)
qed

lemma labelFromBytes_xor:
  assumes "length xs = 16" and "length ys = 16"
  shows "labelFromBytes (xor_bytes xs ys) = label_xor (labelFromBytes xs) (labelFromBytes ys)"
proof -
  have "slice (xor_bytes xs ys) i j = xor_bytes (slice xs i j) (slice ys i j)" for i j
    by (simp add: slice_def take_map drop_map take_zip drop_zip)
  then show ?thesis
    using assms by (simp add: labelFromBytes_def label_xor_def be_get_xor)
qed

section \<open>Checked indices\<close>

text \<open>
  Per-batch counts are Go \<open>int\<close>s and stay integers here; cumulative indices are 64-bit
  words. \<open>uint64(count)\<close> of a non-negative \<open>int\<close> is \<open>of_int\<close>, exact because a Go \<open>int\<close>
  is below 2^63.
\<close>

definition checkedIndexEnd :: "u64 \<Rightarrow> int \<Rightarrow> mpc_error + u64" where
  "checkedIndexEnd start count =
     (if count < 0 then Inl (Index NegativeOTCount)
      else let distance = of_int count in
        if distance > (- 1) - start then Inl (Index OTIndexOverflow)
        else Inr (start + distance))"

definition is_go_int :: "int \<Rightarrow> bool" where
  "is_go_int n \<longleftrightarrow> - (2 ^ 63) \<le> n \<and> n < 2 ^ 63"

lemma unat_u64_less: "unat (w :: u64) < 2 ^ 64"
  using unsigned_less [of w] by simp

lemma unat_of_go_int:
  assumes "0 \<le> n" and "is_go_int n"
  shows "unat (of_int n :: u64) = nat n"
proof -
  have "uint (of_int n :: u64) = n mod 2 ^ 64" by (simp add: uint_word_of_int_eq take_bit_eq_mod)
  also have "\<dots> = n" using assms by (simp add: is_go_int_def)
  finally show ?thesis by (simp add: unat_eq_nat_uint)
qed

lemma checkedIndexEnd_Inr:
  assumes "is_go_int count"
  shows "checkedIndexEnd start count = Inr e \<longleftrightarrow>
    0 \<le> count \<and> unat start + nat count < 2 ^ 64 \<and> unat e = unat start + nat count"
proof (cases "count < 0")
  case False
  then have d: "unat (of_int count :: u64) = nat count"
    using assms by (simp add: unat_of_go_int)
  have gt: "(of_int count > (- 1) - start) \<longleftrightarrow> 2 ^ 64 \<le> unat start + nat count"
  proof -
    have "unat ((- 1) - start) = 2 ^ 64 - 1 - unat start"
      by (subst unat_sub) (simp_all add: unsigned_minus_1_eq_mask mask_eq_exp_minus_1)
    then show ?thesis
      using d unat_u64_less [of start] by (auto simp: word_less_nat_alt)
  qed
  have "unat (start + of_int count) = unat start + nat count"
    if "unat start + nat count < 2 ^ 64"
    using that d by (simp add: unat_plus_if')
  then show ?thesis
    using False gt by (auto simp: checkedIndexEnd_def Let_def word_unat_eq_iff)
qed (simp add: checkedIndexEnd_def)

lemma checkedIndexEnd_sum:
  assumes "0 \<le> count" "is_go_int count" "unat start + nat count < 2 ^ 64"
  shows "checkedIndexEnd start count = Inr (start + of_int count)"
  using assms
  by (subst checkedIndexEnd_Inr) (simp_all add: unat_of_go_int unat_plus_if')

lemma checkedIndexEnd_ok:
  assumes "is_go_int count"
  shows "(\<exists>e. checkedIndexEnd start count = Inr e) \<longleftrightarrow> 0 \<le> count \<and> unat start + nat count < 2 ^ 64"
proof
  assume "\<exists>e. checkedIndexEnd start count = Inr e"
  then show "0 \<le> count \<and> unat start + nat count < 2 ^ 64" by (auto simp: checkedIndexEnd_Inr assms)
next
  assume "0 \<le> count \<and> unat start + nat count < 2 ^ 64"
  then show "\<exists>e. checkedIndexEnd start count = Inr e" using checkedIndexEnd_sum assms by blast
qed

lemma is_go_int_small: "n \<le> 2 ^ 62 \<Longrightarrow> is_go_int (int n)"
proof -
  assume "n \<le> 2 ^ 62"
  then have "int n \<le> 2 ^ 62" by (metis of_nat_le_iff of_nat_numeral of_nat_power)
  then show ?thesis by (simp add: is_go_int_def)
qed

end
