(* ===== verification/Crypto_Std.thy ===== *)
theory Crypto_Std
  imports Prelude
begin

text \<open>
  The two primitives of Go's standard library that the sources call: the AES-128 block
  function behind \<open>aes.NewCipher(key).Encrypt\<close> (FIPS 197) and \<open>sha256.Sum256\<close>
  (FIPS 180-4). They are executable definitions of the published algorithms; no proof of
  the development depends on more than the lengths of their outputs.
\<close>

section \<open>AES-128\<close>

definition aes_sbox :: "u8 list" where
  "aes_sbox = [
     0x63, 0x7c, 0x77, 0x7b, 0xf2, 0x6b, 0x6f, 0xc5, 0x30, 0x01, 0x67, 0x2b,
     0xfe, 0xd7, 0xab, 0x76, 0xca, 0x82, 0xc9, 0x7d, 0xfa, 0x59, 0x47, 0xf0,
     0xad, 0xd4, 0xa2, 0xaf, 0x9c, 0xa4, 0x72, 0xc0, 0xb7, 0xfd, 0x93, 0x26,
     0x36, 0x3f, 0xf7, 0xcc, 0x34, 0xa5, 0xe5, 0xf1, 0x71, 0xd8, 0x31, 0x15,
     0x04, 0xc7, 0x23, 0xc3, 0x18, 0x96, 0x05, 0x9a, 0x07, 0x12, 0x80, 0xe2,
     0xeb, 0x27, 0xb2, 0x75, 0x09, 0x83, 0x2c, 0x1a, 0x1b, 0x6e, 0x5a, 0xa0,
     0x52, 0x3b, 0xd6, 0xb3, 0x29, 0xe3, 0x2f, 0x84, 0x53, 0xd1, 0x00, 0xed,
     0x20, 0xfc, 0xb1, 0x5b, 0x6a, 0xcb, 0xbe, 0x39, 0x4a, 0x4c, 0x58, 0xcf,
     0xd0, 0xef, 0xaa, 0xfb, 0x43, 0x4d, 0x33, 0x85, 0x45, 0xf9, 0x02, 0x7f,
     0x50, 0x3c, 0x9f, 0xa8, 0x51, 0xa3, 0x40, 0x8f, 0x92, 0x9d, 0x38, 0xf5,
     0xbc, 0xb6, 0xda, 0x21, 0x10, 0xff, 0xf3, 0xd2, 0xcd, 0x0c, 0x13, 0xec,
     0x5f, 0x97, 0x44, 0x17, 0xc4, 0xa7, 0x7e, 0x3d, 0x64, 0x5d, 0x19, 0x73,
     0x60, 0x81, 0x4f, 0xdc, 0x22, 0x2a, 0x90, 0x88, 0x46, 0xee, 0xb8, 0x14,
     0xde, 0x5e, 0x0b, 0xdb, 0xe0, 0x32, 0x3a, 0x0a, 0x49, 0x06, 0x24, 0x5c,
     0xc2, 0xd3, 0xac, 0x62, 0x91, 0x95, 0xe4, 0x79, 0xe7, 0xc8, 0x37, 0x6d,
     0x8d, 0xd5, 0x4e, 0xa9, 0x6c, 0x56, 0xf4, 0xea, 0x65, 0x7a, 0xae, 0x08,
     0xba, 0x78, 0x25, 0x2e, 0x1c, 0xa6, 0xb4, 0xc6, 0xe8, 0xdd, 0x74, 0x1f,
     0x4b, 0xbd, 0x8b, 0x8a, 0x70, 0x3e, 0xb5, 0x66, 0x48, 0x03, 0xf6, 0x0e,
     0x61, 0x35, 0x57, 0xb9, 0x86, 0xc1, 0x1d, 0x9e, 0xe1, 0xf8, 0x98, 0x11,
     0x69, 0xd9, 0x8e, 0x94, 0x9b, 0x1e, 0x87, 0xe9, 0xce, 0x55, 0x28, 0xdf,
     0x8c, 0xa1, 0x89, 0x0d, 0xbf, 0xe6, 0x42, 0x68, 0x41, 0x99, 0x2d, 0x0f,
     0xb0, 0x54, 0xbb, 0x16]"

definition aes_sub :: "u8 \<Rightarrow> u8" where
  "aes_sub b = aes_sbox ! unat b"

definition aes_xtime :: "u8 \<Rightarrow> u8" where
  "aes_xtime b = push_bit 1 b XOR (if bit b 7 then 0x1b else 0)"

definition aes_add_round_key :: "bytes \<Rightarrow> bytes \<Rightarrow> bytes" where
  "aes_add_round_key st k = map (\<lambda>i. st ! i XOR k ! i) [0..<16]"

definition aes_shift_rows :: "bytes \<Rightarrow> bytes" where
  "aes_shift_rows st = map (\<lambda>i. st ! ((i + 4 * (i mod 4)) mod 16)) [0..<16]"

definition aes_mix_columns :: "bytes \<Rightarrow> bytes" where
  "aes_mix_columns st = map (\<lambda>i.
     let a = (\<lambda>k. st ! (4 * (i div 4) + (i + k) mod 4))
     in aes_xtime (a 0) XOR (aes_xtime (a 1) XOR a 1) XOR a 2 XOR a 3) [0..<16]"

definition aes_next_round_key :: "u8 \<Rightarrow> bytes \<Rightarrow> bytes" where
  "aes_next_round_key rcon k =
     (let t = [aes_sub (k ! 13) XOR rcon, aes_sub (k ! 14), aes_sub (k ! 15), aes_sub (k ! 12)];
          w0 = xor_bytes (slice k 0 4) t;
          w1 = xor_bytes (slice k 4 8) w0;
          w2 = xor_bytes (slice k 8 12) w1;
          w3 = xor_bytes (slice k 12 16) w2
      in w0 @ w1 @ w2 @ w3)"

fun aes_rounds :: "u8 list \<Rightarrow> bytes \<Rightarrow> bytes \<Rightarrow> bytes" where
  "aes_rounds [] k st = st"
| "aes_rounds [rcon] k st =
     aes_add_round_key (aes_shift_rows (map aes_sub st)) (aes_next_round_key rcon k)"
| "aes_rounds (rcon # rcons) k st =
     (let k' = aes_next_round_key rcon k
      in aes_rounds rcons k'
           (aes_add_round_key (aes_mix_columns (aes_shift_rows (map aes_sub st))) k'))"

definition aes_rcons :: "u8 list" where
  "aes_rcons = [0x01, 0x02, 0x04, 0x08, 0x10, 0x20, 0x40, 0x80, 0x1b, 0x36]"

definition aesEncrypt :: "bytes \<Rightarrow> bytes \<Rightarrow> bytes" where
  "aesEncrypt key block = aes_rounds aes_rcons key (aes_add_round_key block key)"

lemma length_aes_rounds: "rcons \<noteq> [] \<Longrightarrow> length (aes_rounds rcons k st) = 16"
  by (induction rcons k st rule: aes_rounds.induct) (simp_all add: Let_def aes_add_round_key_def)

lemma length_aesEncrypt [simp, codec]: "length (aesEncrypt key block) = 16"
  unfolding aesEncrypt_def by (rule length_aes_rounds) (simp add: aes_rcons_def)

declare aes_rounds.simps [simp del]

section \<open>SHA-256\<close>

definition sha_k :: "u32 list" where
  "sha_k = concat [
     [0x428a2f98, 0x71374491, 0xb5c0fbcf, 0xe9b5dba5],
     [0x3956c25b, 0x59f111f1, 0x923f82a4, 0xab1c5ed5],
     [0xd807aa98, 0x12835b01, 0x243185be, 0x550c7dc3],
     [0x72be5d74, 0x80deb1fe, 0x9bdc06a7, 0xc19bf174],
     [0xe49b69c1, 0xefbe4786, 0x0fc19dc6, 0x240ca1cc],
     [0x2de92c6f, 0x4a7484aa, 0x5cb0a9dc, 0x76f988da],
     [0x983e5152, 0xa831c66d, 0xb00327c8, 0xbf597fc7],
     [0xc6e00bf3, 0xd5a79147, 0x06ca6351, 0x14292967],
     [0x27b70a85, 0x2e1b2138, 0x4d2c6dfc, 0x53380d13],
     [0x650a7354, 0x766a0abb, 0x81c2c92e, 0x92722c85],
     [0xa2bfe8a1, 0xa81a664b, 0xc24b8b70, 0xc76c51a3],
     [0xd192e819, 0xd6990624, 0xf40e3585, 0x106aa070],
     [0x19a4c116, 0x1e376c08, 0x2748774c, 0x34b0bcb5],
     [0x391c0cb3, 0x4ed8aa4a, 0x5b9cca4f, 0x682e6ff3],
     [0x748f82ee, 0x78a5636f, 0x84c87814, 0x8cc70208],
     [0x90befffa, 0xa4506ceb, 0xbef9a3f7, 0xc67178f2]]"

definition sha_init :: "u32 list" where
  "sha_init = [
     0x6a09e667, 0xbb67ae85, 0x3c6ef372, 0xa54ff53a,
     0x510e527f, 0x9b05688c, 0x1f83d9ab, 0x5be0cd19]"

definition sha_schedule :: "bytes \<Rightarrow> u32 list" where
  "sha_schedule block =
     foldl (\<lambda>w t.
        let w15 = w ! (t - 15); w2 = w ! (t - 2);
            s0 = word_rotr 7 w15 XOR word_rotr 18 w15 XOR drop_bit 3 w15;
            s1 = word_rotr 17 w2 XOR word_rotr 19 w2 XOR drop_bit 10 w2
        in w @ [w ! (t - 16) + s0 + w ! (t - 7) + s1])
       (map (\<lambda>i. be_get (slice block (4 * i) (4 * i + 4))) [0..<16]) [16..<64]"

definition sha_round :: "u32 list \<Rightarrow> u32 \<times> u32 \<Rightarrow> u32 list" where
  "sha_round s kw =
     (let a = s ! 0; b = s ! 1; c = s ! 2; d = s ! 3; e = s ! 4; f = s ! 5; g = s ! 6; h = s ! 7;
          s1 = word_rotr 6 e XOR word_rotr 11 e XOR word_rotr 25 e;
          ch = (e AND f) XOR (NOT e AND g);
          t1 = h + s1 + ch + fst kw + snd kw;
          s0 = word_rotr 2 a XOR word_rotr 13 a XOR word_rotr 22 a;
          maj = (a AND b) XOR (a AND c) XOR (b AND c)
      in [t1 + s0 + maj, a, b, c, d + t1, e, f, g])"

definition sha_block :: "u32 list \<Rightarrow> bytes \<Rightarrow> u32 list" where
  "sha_block s block =
     (let t = foldl sha_round s (zip sha_k (sha_schedule block))
      in map (\<lambda>i. s ! i + t ! i) [0..<8])"

definition sha_pad :: "bytes \<Rightarrow> bytes" where
  "sha_pad m =
     m @ [0x80] @ replicate ((119 - length m mod 64) mod 64) 0
       @ be_put 8 (of_nat (8 * length m) :: u64)"

definition sha_state :: "bytes \<Rightarrow> u32 list" where
  "sha_state m =
     foldl (\<lambda>s i. sha_block s (slice m (64 * i) (64 * i + 64))) sha_init [0..<length m div 64]"

definition sha256 :: "bytes \<Rightarrow> bytes" where
  "sha256 m = (let s = sha_state (sha_pad m) in concat (map (\<lambda>i. be_put 4 (s ! i)) [0..<8]))"

lemma length_sha256 [simp, codec]: "length (sha256 m) = 32"
  by (simp add: sha256_def Let_def length_concat comp_def sum_list_triv)

end
