(* ===== verification/Circuit_Engine.thy ===== *)
theory Circuit_Engine
  imports Labels Crypto_Std
begin

text \<open>
  The execution plan of the fixed AES-CMAC circuit, \<open>newEngine\<close> of \<open>mpc/circuit.go\<close>, the
  fixed-key cipher of \<open>mpc/fixed_aes.go\<close> in its portable build, and the garbling hash.

  The compiled circuit comes from a third-party compiler. It is an argument of
  \<open>newEngine\<close>, a record of exactly the fields the source reads; \<open>wf_compiled\<close> names what
  the code relies on (gates in evaluation order, every output driven by a gate).
\<close>

section \<open>Constants\<close>

definition InputBits :: nat where
  "InputBits = 80 * 8"

definition OutputBits :: nat where
  "OutputBits = 16 * 8"

lemma InputBits_val [simp]: "InputBits = 640"
  and OutputBits_val [simp]: "OutputBits = 128"
  by (simp_all add: InputBits_def OutputBits_def)

section \<open>Gates and the engine\<close>

datatype operation = opXOR | opXNOR | opAND | opINV

record gate =
  in0 :: u32
  in1 :: u32
  out :: u32
  gtable :: u32
  gop :: operation

record engine =
  gates :: "gate list"
  numWires :: nat
  tableCount :: nat

text \<open>The compiler's circuit: operations outside the four supported ones are \<open>MOther\<close>.\<close>

datatype mark_op = MXOR | MXNOR | MAND | MINV | MOther nat

record mark_gate =
  Input0 :: u32
  Input1 :: u32
  Output :: u32
  Op :: mark_op

record mark_circuit =
  cGates :: "mark_gate list"
  cNumWires :: nat
  cNumParties :: nat
  cInputsSize :: nat
  cOutputsSize :: nat

definition newGate :: "nat \<Rightarrow> mark_gate \<Rightarrow> nat \<Rightarrow> mpc_error + gate \<times> nat" where
  "newGate i src tc =
     (let dst = \<lparr>in0 = Input0 src, in1 = Input1 src, out = Output src, gtable = 0, gop = opXOR\<rparr>
      in case Op src of
           MXOR \<Rightarrow> Inr (dst\<lparr>gop := opXOR\<rparr>, tc)
         | MXNOR \<Rightarrow> Inr (dst\<lparr>gop := opXNOR\<rparr>, tc)
         | MAND \<Rightarrow> Inr (dst\<lparr>gop := opAND, gtable := of_nat tc\<rparr>, tc + 2)
         | MINV \<Rightarrow> Inr (dst\<lparr>gop := opINV, gtable := of_nat tc\<rparr>, tc + 1)
         | MOther _ \<Rightarrow> Inl (Engine (UnsupportedOperation i)))"

fun newGates :: "nat \<Rightarrow> mark_gate list \<Rightarrow> nat \<Rightarrow> mpc_error + gate list \<times> nat" where
  "newGates i [] tc = Inr ([], tc)"
| "newGates i (src # srcs) tc =
     bindE (newGate i src tc) (\<lambda>(g, tc').
       bindE (newGates (Suc i) srcs tc') (\<lambda>(gs, tc''). Inr (g # gs, tc'')))"

definition newEngine :: "mark_circuit option \<Rightarrow> mpc_error + engine" where
  "newEngine compiled =
     (case compiled of
        None \<Rightarrow> Inl (Engine NilCircuit)
      | Some c \<Rightarrow>
          if cNumParties c \<noteq> 2 \<or> cInputsSize c \<noteq> 2 * InputBits \<or> cOutputsSize c \<noteq> OutputBits
          then Inl (Engine UnexpectedCircuitShape)
          else bindE (newGates 0 (cGates c) 0) (\<lambda>(gs, tc).
            Inr \<lparr>gates = gs, numWires = cNumWires c, tableCount = tc\<rparr>))"

text \<open>
  The process-wide engine: compilation by the third-party compiler (its result is the
  argument, \<open>Inl\<close> for a compile error), then \<open>newEngine\<close>. It runs once; later calls return
  the stored result.
\<close>

definition defaultEngine :: "unit + mark_circuit option \<Rightarrow> mpc_error + engine" where
  "defaultEngine compiled =
     (case compiled of Inl _ \<Rightarrow> Inl (Engine CompileFailed) | Inr c \<Rightarrow> newEngine c)"

definition Initialize :: "unit + mark_circuit option \<Rightarrow> mpc_error + unit" where
  "Initialize compiled = bindE (defaultEngine compiled) (\<lambda>_. Inr ())"

section \<open>What an engine computes\<close>

text \<open>The plain Boolean meaning of a gate list, the reference the garbled run is compared to.\<close>

fun gate_bit :: "operation \<Rightarrow> bool \<Rightarrow> bool \<Rightarrow> bool" where
  "gate_bit opXOR x y = (x \<noteq> y)"
| "gate_bit opXNOR x y = (x = y)"
| "gate_bit opAND x y = (x \<and> y)"
| "gate_bit opINV x y = (\<not> x)"

definition plain_gate :: "gate \<Rightarrow> bool list \<Rightarrow> bool list" where
  "plain_gate g v = v[unat (out g) := gate_bit (gop g) (v ! unat (in0 g)) (v ! unat (in1 g))]"

definition plain_eval :: "engine \<Rightarrow> bool list \<Rightarrow> bool list" where
  "plain_eval e inputs =
     fold plain_gate (gates e) (inputs @ replicate (numWires e - length inputs) False)"

text \<open>The circuit's output: the last \<open>OutputBits\<close> wires.\<close>

definition circuit_output :: "engine \<Rightarrow> bool list \<Rightarrow> bool list" where
  "circuit_output e inputs = drop (numWires e - OutputBits) (plain_eval e inputs)"

section \<open>Well-formed engines\<close>

text \<open>
  \<open>topo n D gs\<close>: every gate reads wires in \<open>D\<close> or written by an earlier gate, and writes a
  wire below \<open>n\<close> that is no input. \<open>driven D gs\<close> are the wires defined at the end.
\<close>

fun topo :: "nat \<Rightarrow> nat set \<Rightarrow> gate list \<Rightarrow> bool" where
  "topo n D [] = True"
| "topo n D (g # gs) =
     (unat (in0 g) \<in> D \<and> (gop g = opINV \<or> unat (in1 g) \<in> D) \<and>
      2 * InputBits \<le> unat (out g) \<and> unat (out g) < n \<and>
      topo n (insert (unat (out g)) D) gs)"

definition driven :: "nat set \<Rightarrow> gate list \<Rightarrow> nat set" where
  "driven D gs = D \<union> (\<lambda>g. unat (out g)) ` set gs"

text \<open>
  \<open>layout c gs n\<close>: the table slots of the gates are laid out one after the other from \<open>c\<close>
  to \<open>n\<close>, two for an AND gate and one for an inverter.
\<close>

fun layout :: "nat \<Rightarrow> gate list \<Rightarrow> nat \<Rightarrow> bool" where
  "layout c [] n = (c = n)"
| "layout c (g # gs) n =
     (case gop g of
        opAND \<Rightarrow> unat (gtable g) = c \<and> unat (gtable g + 1) = c + 1 \<and> layout (c + 2) gs n
      | opINV \<Rightarrow> unat (gtable g) = c \<and> layout (c + 1) gs n
      | _ \<Rightarrow> layout c gs n)"

definition wf_engine :: "engine \<Rightarrow> bool" where
  "wf_engine e \<longleftrightarrow>
     2 * InputBits + OutputBits \<le> numWires e \<and>
     topo (numWires e) {..<2 * InputBits} (gates e) \<and>
     {numWires e - OutputBits..<numWires e} \<subseteq> driven {} (gates e) \<and>
     layout 0 (gates e) (tableCount e)"

text \<open>What the compiler promises of its output: the same, on its own gate records.\<close>

definition mark_inputs :: "mark_gate \<Rightarrow> nat set" where
  "mark_inputs g =
     (if Op g = MINV then {unat (Input0 g)} else {unat (Input0 g), unat (Input1 g)})"

fun mark_topo :: "nat \<Rightarrow> nat set \<Rightarrow> mark_gate list \<Rightarrow> bool" where
  "mark_topo n D [] = True"
| "mark_topo n D (g # gs) =
     (mark_inputs g \<subseteq> D \<and> 2 * InputBits \<le> unat (Output g) \<and> unat (Output g) < n \<and>
      mark_topo n (insert (unat (Output g)) D) gs)"

definition wf_compiled :: "mark_circuit \<Rightarrow> bool" where
  "wf_compiled c \<longleftrightarrow>
     2 * InputBits + OutputBits \<le> cNumWires c \<and>
     mark_topo (cNumWires c) {..<2 * InputBits} (cGates c) \<and>
     {cNumWires c - OutputBits..<cNumWires c} \<subseteq> (\<lambda>g. unat (Output g)) ` set (cGates c) \<and>
     2 * length (cGates c) < 2 ^ 32"

section \<open>The fixed-key cipher\<close>

text \<open>
  The portable build: \<open>configureFixedAES\<close> leaves \<open>accelerated\<close> false, and the stubs
  \<open>aes128Encrypt2\<close> and \<open>aes128Encrypt4\<close> do nothing.
\<close>

record fixedAES =
  fallback :: "bytes \<Rightarrow> bytes"
  roundKeys :: bytes
  accelerated :: bool

definition configureFixedAES :: "fixedAES \<Rightarrow> bytes \<Rightarrow> fixedAES" where
  "configureFixedAES a key = a"

definition aes128EncryptStub :: "bytes \<Rightarrow> bytes \<Rightarrow> bytes" where
  "aes128EncryptStub rk blocks = blocks"

definition newFixedAES :: "bytes \<Rightarrow> fixedAES" where
  "newFixedAES key =
     configureFixedAES
       \<lparr>fallback = aesEncrypt key, roundKeys = replicate (11 * 16) 0, accelerated = False\<rparr> key"

definition encrypt_loop :: "fixedAES \<Rightarrow> nat \<Rightarrow> bytes \<Rightarrow> bytes" where
  "encrypt_loop a n blocks =
     concat (map (\<lambda>k. fallback a (slice blocks (16 * k) (16 * k + 16))) [0..<n])"

definition encrypt2 :: "fixedAES \<Rightarrow> bytes \<Rightarrow> bytes" where
  "encrypt2 a blocks =
     (if accelerated a then aes128EncryptStub (roundKeys a) blocks else encrypt_loop a 2 blocks)"

definition encrypt4 :: "fixedAES \<Rightarrow> bytes \<Rightarrow> bytes" where
  "encrypt4 a blocks =
     (if accelerated a then aes128EncryptStub (roundKeys a) blocks else encrypt_loop a 4 blocks)"

section \<open>The garbling hash\<close>

definition halfHashInput :: "Label \<Rightarrow> u32 \<Rightarrow> Label" where
  "halfHashInput x tweak =
     (let carry = drop_bit 63 (D0 x)
      in \<lparr>D0 = push_bit 1 (D0 x) OR drop_bit 63 (D1 x),
          D1 = push_bit 1 (D1 x) XOR (0x87 AND (0 - carry)) XOR ucast tweak\<rparr>)"

definition halfHash4 ::
  "fixedAES \<Rightarrow> Label \<Rightarrow> Label \<Rightarrow> Label \<Rightarrow> Label \<Rightarrow> u32 \<Rightarrow> u32 \<Rightarrow> Label \<times> Label \<times> Label \<times> Label" where
  "halfHash4 blk x0 x1 x2 x3 tweak01 tweak23 =
     (let k0 = halfHashInput x0 tweak01; k1 = halfHashInput x1 tweak01;
          k2 = halfHashInput x2 tweak23; k3 = halfHashInput x3 tweak23;
          buf = encrypt4 blk (label_put k0 @ label_put k1 @ label_put k2 @ label_put k3)
      in (label_xor (labelFromBytes (slice buf 0 16)) k0,
          label_xor (labelFromBytes (slice buf 16 32)) k1,
          label_xor (labelFromBytes (slice buf 32 48)) k2,
          label_xor (labelFromBytes (slice buf 48 64)) k3))"

definition halfHash2 :: "fixedAES \<Rightarrow> Label \<Rightarrow> Label \<Rightarrow> u32 \<Rightarrow> u32 \<Rightarrow> Label \<times> Label" where
  "halfHash2 blk x0 x1 tweak0 tweak1 =
     (let k0 = halfHashInput x0 tweak0; k1 = halfHashInput x1 tweak1;
          buf = encrypt2 blk (label_put k0 @ label_put k1)
      in (label_xor (labelFromBytes (slice buf 0 16)) k0,
          label_xor (labelFromBytes (slice buf 16 32)) k1))"

definition unaryHash :: "fixedAES \<Rightarrow> Label \<Rightarrow> u32 \<Rightarrow> Label" where
  "unaryHash blk a tweak =
     (let k = halfHashInput a tweak
      in label_xor (labelFromBytes (fallback blk (label_put k))) k)"

section \<open>Bits and bytes\<close>

text \<open>Bit \<open>k\<close> of byte \<open>j\<close> is bit \<open>8 j + k\<close> of the vector, in both directions.\<close>

definition bytesToBits :: "bytes \<Rightarrow> bool list" where
  "bytesToBits data = concat (map (\<lambda>b. map (bit b) [0..<8]) data)"

definition set_output_bit :: "bytes \<Rightarrow> nat \<times> bool \<Rightarrow> bytes" where
  "set_output_bit dst ib =
     (case ib of (i, b) \<Rightarrow>
        if b then dst[i div 8 := dst ! (i div 8) OR push_bit (i mod 8) 1] else dst)"

definition bitsToBytes :: "bool list \<Rightarrow> nat \<Rightarrow> bytes" where
  "bitsToBytes bits n = foldl set_output_bit (replicate n 0) (enumerate 0 bits)"

lemma length_bytesToBits [simp, codec]: "length (bytesToBits data) = 8 * length data"
  by (simp add: bytesToBits_def length_concat comp_def sum_list_triv)

lemma nth_bytesToBits:
  "i < 8 * length data \<Longrightarrow> bytesToBits data ! i = bit (data ! (i div 8)) (i mod 8)"
proof (induction data arbitrary: i)
  case (Cons b bs)
  show ?case
  proof (cases "i < 8")
    case False
    then have "i div 8 = Suc ((i - 8) div 8)" "i mod 8 = (i - 8) mod 8"
      by (simp_all add: div_if mod_if)
    with False Cons show ?thesis by (simp add: bytesToBits_def nth_append)
  qed (simp add: bytesToBits_def nth_append)
qed simp

lemma length_bitsToBytes [simp, codec]: "length (bitsToBytes bits n) = n"
proof -
  have "length (foldl set_output_bit dst ibs) = length dst" for dst ibs
    by (induction ibs arbitrary: dst) (auto simp: set_output_bit_def)
  then show ?thesis by (simp add: bitsToBytes_def)
qed

lemma bit_bitsToBytes:
  assumes "length bits \<le> 8 * n" "j < n" "k < 8"
  shows "bit (bitsToBytes bits n ! j) k \<longleftrightarrow> 8 * j + k < length bits \<and> bits ! (8 * j + k)"
  using assms(1)
proof (induction bits rule: rev_induct)
  case Nil
  then show ?case using assms by (simp add: bitsToBytes_def)
next
  case (snoc b bits)
  let ?i = "length bits"
  have len: "?i div 8 < n" using snoc.prems by (simp add: less_mult_imp_div_less mult.commute)
  have eq: "8 * j + k = ?i \<longleftrightarrow> j = ?i div 8 \<and> k = ?i mod 8"
    using assms(3) by (metis div_mult_mod_eq mod_less div_mult_self4 div_less add_0_right
        mod_mult_self4 mult.commute zero_neq_numeral add.commute)
  have step: "bitsToBytes (bits @ [b]) n = set_output_bit (bitsToBytes bits n) (?i, b)"
    by (simp add: bitsToBytes_def enumerate_append_eq)
  show ?case
  proof (cases "b \<and> j = ?i div 8")
    case True
    then have "bit (bitsToBytes (bits @ [b]) n ! j) k \<longleftrightarrow>
        bit (bitsToBytes bits n ! j) k \<or> k = ?i mod 8"
      unfolding step using len assms(3) by (auto simp: set_output_bit_def bit_simps)
    with True snoc eq show ?thesis by (auto simp: nth_append)
  next
    case False
    then have "bitsToBytes (bits @ [b]) n ! j = bitsToBytes bits n ! j"
      by (auto simp: step set_output_bit_def)
    with False snoc eq show ?thesis by (auto simp: nth_append)
  qed
qed

lemma bytesToBits_bitsToBytes [codec]:
  assumes "length bits = 8 * n"
  shows "bytesToBits (bitsToBytes bits n) = bits"
proof (rule nth_equalityI)
  fix i assume "i < length (bytesToBits (bitsToBytes bits n))"
  then have i: "i < 8 * n" by simp
  then have "i div 8 < n" by (simp add: less_mult_imp_div_less mult.commute)
  with i assms show "bytesToBits (bitsToBytes bits n) ! i = bits ! i"
    by (simp add: nth_bytesToBits bit_bitsToBytes)
qed (use assms in simp)

lemma bitsToBytes_bytesToBits [codec]: "bitsToBytes (bytesToBits data) (length data) = data"
proof (rule nth_equalityI)
  fix j assume "j < length (bitsToBytes (bytesToBits data) (length data))"
  then show "bitsToBytes (bytesToBits data) (length data) ! j = data ! j"
    by (intro bit_eqI) (auto simp: bit_bitsToBytes nth_bytesToBits)
qed simp

section \<open>The hash is one function\<close>

text \<open>
  Four-way, two-way and unary calls compute the same function of label and tweak, so the
  garbler's batched calls and the evaluator's agree.
\<close>

definition portable :: "fixedAES \<Rightarrow> bool" where
  "portable blk \<longleftrightarrow> \<not> accelerated blk \<and> (\<forall>b. length (fallback blk b) = 16)"

lemma portable_newFixedAES [simp]: "portable (newFixedAES key)"
  by (simp add: portable_def newFixedAES_def configureFixedAES_def)

lemma halfHash4_unary:
  assumes "portable blk"
  shows "halfHash4 blk x0 x1 x2 x3 t s =
    (unaryHash blk x0 t, unaryHash blk x1 t, unaryHash blk x2 s, unaryHash blk x3 s)"
proof -
  have "length (fallback blk b) = 16" for b using assms by (simp add: portable_def)
  then show ?thesis
    using assms
    by (simp add: halfHash4_def unaryHash_def encrypt4_def encrypt_loop_def portable_def
        Let_def upt_rec slice_def)
qed

lemma halfHash2_unary:
  assumes "portable blk"
  shows "halfHash2 blk x0 x1 t s = (unaryHash blk x0 t, unaryHash blk x1 s)"
proof -
  have "length (fallback blk b) = 16" for b using assms by (simp add: portable_def)
  then show ?thesis
    using assms
    by (simp add: halfHash2_def unaryHash_def encrypt2_def encrypt_loop_def portable_def
        Let_def upt_rec slice_def)
qed

section \<open>The engine of a well-formed circuit\<close>

lemma newGate_op:
  assumes "newGate i src tc = Inr (g, tc')"
  shows "in0 g = Input0 src" "in1 g = Input1 src" "out g = Output src"
    "gop g = opINV \<longleftrightarrow> Op src = MINV"
  using assms by (auto simp: newGate_def Let_def split: mark_op.splits)

lemma newGates_topo:
  "newGates i srcs tc = Inr (gs, tc') \<Longrightarrow> mark_topo n D srcs \<Longrightarrow> topo n D gs"
proof (induction i srcs tc arbitrary: gs tc' D rule: newGates.induct)
  case (2 i src srcs tc)
  then obtain g c gs' where g: "newGate i src tc = Inr (g, c)"
    and gs: "newGates (Suc i) srcs c = Inr (gs', tc')" "gs = g # gs'"
    by auto
  with 2 have "topo n (insert (unat (out g)) D) gs'" by (simp add: newGate_op [OF g])
  with 2(3) gs(2) show ?case
    by (auto simp: newGate_op [OF g] mark_inputs_def split: if_splits)
qed simp

lemma newGates_out:
  "newGates i srcs tc = Inr (gs, tc') \<Longrightarrow> map out gs = map Output srcs"
  by (induction i srcs tc arbitrary: gs tc' rule: newGates.induct)
    (auto simp: newGate_op(3))

lemma newGates_layout:
  "newGates i srcs tc = Inr (gs, tc') \<Longrightarrow> tc + 2 * length srcs < 2 ^ 32 \<Longrightarrow> layout tc gs tc'"
proof (induction i srcs tc arbitrary: gs tc' rule: newGates.induct)
  case (2 i src srcs tc)
  then obtain g c gs' where g: "newGate i src tc = Inr (g, c)"
    and gs: "newGates (Suc i) srcs c = Inr (gs', tc')" "gs = g # gs'"
    by auto
  have "c \<le> tc + 2" using g by (auto simp: newGate_def Let_def split: mark_op.splits)
  with 2 g gs have rest: "layout c gs' tc'" by simp
  have slot: "unat (of_nat tc :: u32) = tc" using 2(3) by (simp add: unat_of_nat)
  then have "unat (of_nat tc + 1 :: u32) = tc + 1" using 2(3) by (simp add: unat_plus_if')
  with slot g gs(2) rest show ?case
    by (auto simp: newGate_def Let_def split: mark_op.splits)
qed simp

lemma newEngine_wf:
  assumes "newEngine (Some c) = Inr e" and "wf_compiled c"
  shows "wf_engine e"
proof -
  from assms(1) obtain gs tc where gs: "newGates 0 (cGates c) 0 = Inr (gs, tc)"
    and e: "e = \<lparr>gates = gs, numWires = cNumWires c, tableCount = tc\<rparr>"
    by (auto simp: newEngine_def split: if_splits)
  have "(\<lambda>g. unat (out g)) ` set gs = (\<lambda>g. unat (Output g)) ` set (cGates c)"
    using arg_cong [OF newGates_out [OF gs], of "\<lambda>xs. unat ` set xs"] by (simp add: image_image)
  then show ?thesis
    using assms(2) newGates_topo [OF gs] newGates_layout [OF gs]
    by (simp add: wf_engine_def wf_compiled_def e driven_def)
qed

end
