(* ===== verification/Garbling.thy ===== *)
theory Garbling
  imports Circuit_Engine
begin

text \<open>
  Half-gates garbling and evaluation, \<open>engine.garble\<close> and \<open>engine.evaluate\<close> of
  \<open>mpc/circuit.go\<close>. The main lemma is the simulation of the plain circuit by the garbled
  one: evaluation on the labels of an assignment yields, on every driven wire, the label
  of the bit that the plain circuit computes there.

  Scratch buffers come from a \<open>sync.Pool\<close> and are cleared before they return to it, so a
  garbling starts from zeroed buffers.
\<close>

section \<open>Garbling\<close>

record garble_state =
  wires :: "wire list"
  tables :: "Label list"
  tweak :: u32

definition garble_xor :: "Label \<Rightarrow> operation \<Rightarrow> wire \<Rightarrow> wire \<Rightarrow> wire" where
  "garble_xor r oper a b =
     (let x0 = label_xor (l0 a) (l0 b); x1 = label_xor x0 r
      in if oper = opXNOR then \<lparr>l0 = x1, l1 = x0\<rparr> else \<lparr>l0 = x0, l1 = x1\<rparr>)"

definition garble_and :: "fixedAES \<Rightarrow> Label \<Rightarrow> u32 \<Rightarrow> wire \<Rightarrow> wire \<Rightarrow> wire \<times> Label \<times> Label" where
  "garble_and blk r tw a b =
     (let pa = permutationBit (l0 a); pb = permutationBit (l0 b);
          (ha0, ha1, hb0, hb1) = halfHash4 blk (l0 a) (l1 a) (l0 b) (l1 b) tw (tw + 1);
          tg = label_xor ha0 ha1;
          tg = (if pb then label_xor tg r else tg);
          wg0 = ha0;
          wg0 = (if pa then label_xor wg0 tg else wg0);
          te = label_xor (label_xor hb0 hb1) (l0 a);
          we0 = hb0;
          we0 = (if pb then label_xor (label_xor we0 te) (l0 a) else we0);
          x0 = label_xor wg0 we0
      in (\<lparr>l0 = x0, l1 = label_xor x0 r\<rparr>, tg, te))"

definition garble_inv :: "fixedAES \<Rightarrow> Label \<Rightarrow> u32 \<Rightarrow> wire \<Rightarrow> wire \<times> Label" where
  "garble_inv blk r tw a =
     (let p0 = permutationBit (l0 a);
          h0 = unaryHash blk (l0 a) tw;
          h1 = unaryHash blk (l1 a) tw;
          (table0, table1) = (if p0 then (h1, h0) else (h0, h1));
          (x0, x1) = (if p0 then (table0, label_xor table0 r) else (label_xor table0 r, table0));
          table1 = (if p0 then label_xor table1 x1 else label_xor table1 x0)
      in (\<lparr>l0 = x0, l1 = x1\<rparr>, table1))"

definition garble_gate :: "fixedAES \<Rightarrow> Label \<Rightarrow> gate \<Rightarrow> garble_state \<Rightarrow> mpc_error + garble_state" where
  "garble_gate blk r g s =
     bindE (at Panic (wires s) (unat (in0 g))) (\<lambda>a.
       case gop g of
         opAND \<Rightarrow>
           bindE (at Panic (wires s) (unat (in1 g))) (\<lambda>b.
             case garble_and blk r (tweak s) a b of (w, tg, te) \<Rightarrow>
               bindE (put_at Panic (wires s) (unat (out g)) w) (\<lambda>ws.
               bindE (put_at Panic (tables s) (unat (gtable g)) tg) (\<lambda>ts.
               bindE (put_at Panic ts (unat (gtable g + 1)) te) (\<lambda>ts'.
                 Inr (s\<lparr>wires := ws, tables := ts', tweak := tweak s + 2\<rparr>)))))
       | opINV \<Rightarrow>
           (case garble_inv blk r (tweak s) a of (w, row) \<Rightarrow>
              bindE (put_at Panic (wires s) (unat (out g)) w) (\<lambda>ws.
              bindE (put_at Panic (tables s) (unat (gtable g)) row) (\<lambda>ts.
                Inr (s\<lparr>wires := ws, tables := ts, tweak := tweak s + 1\<rparr>))))
       | oper \<Rightarrow>
           bindE (at Panic (wires s) (unat (in1 g))) (\<lambda>b.
             bindE (put_at Panic (wires s) (unat (out g)) (garble_xor r oper a b)) (\<lambda>ws.
               Inr (s\<lparr>wires := ws\<rparr>))))"

definition input_wire :: "Label \<Rightarrow> bytes \<Rightarrow> nat \<Rightarrow> wire" where
  "input_wire r random i =
     (let x0 = labelFromBytes (slice random (16 + 16 * i) (16 + 16 * i + 16))
      in \<lparr>l0 = x0, l1 = label_xor x0 r\<rparr>)"

record garbled =
  gwires :: "wire list"
  gtables :: "Label list"

definition garble :: "engine \<Rightarrow> bytes option \<Rightarrow> bytes \<Rightarrow> mpc_error + garbled \<times> bytes" where
  "garble e rng key =
     (case rng of
        None \<Rightarrow> Inl (Engine NilRandomness)
      | Some source \<Rightarrow>
          let blk = newFixedAES key in
          bindE (readFull (Engine ShortRandomness) source (16 + 2 * InputBits * 16)) (\<lambda>(random, rest).
            let r = withPermutationBit (labelFromBytes (slice random 0 16)) True in
            bindE (foldE (\<lambda>i ws. put_at Panic ws i (input_wire r random i)) [0..<2 * InputBits]
                     (replicate (numWires e) wire_zero)) (\<lambda>ws.
            bindE (foldE (garble_gate blk r) (gates e)
                     \<lparr>wires = ws, tables = replicate (tableCount e) label_zero, tweak = 0\<rparr>) (\<lambda>s.
              Inr (\<lparr>gwires = wires s, gtables = tables s\<rparr>, rest)))))"

section \<open>Evaluation\<close>

record eval_state =
  labels :: "Label list"
  etweak :: u32

definition evaluate_gate ::
  "fixedAES \<Rightarrow> Label list \<Rightarrow> gate \<Rightarrow> eval_state \<Rightarrow> mpc_error + eval_state" where
  "evaluate_gate blk ts g s =
     bindE (at Panic (labels s) (unat (in0 g))) (\<lambda>a.
       case gop g of
         opAND \<Rightarrow>
           bindE (at Panic (labels s) (unat (in1 g))) (\<lambda>b.
             case halfHash2 blk a b (etweak s) (etweak s + 1) of (wg, we) \<Rightarrow>
               bindE (if permutationBit a
                      then bindE (at Panic ts (unat (gtable g))) (\<lambda>tg. Inr (label_xor wg tg))
                      else Inr wg) (\<lambda>wg.
               bindE (if permutationBit b
                      then bindE (at Panic ts (unat (gtable g + 1)))
                             (\<lambda>te. Inr (label_xor (label_xor we te) a))
                      else Inr we) (\<lambda>we.
               bindE (put_at Panic (labels s) (unat (out g)) (label_xor wg we)) (\<lambda>ls.
                 Inr (s\<lparr>labels := ls, etweak := etweak s + 2\<rparr>)))))
       | opINV \<Rightarrow>
           bindE (if permutationBit a then at Panic ts (unat (gtable g)) else Inr label_zero)
             (\<lambda>row.
               bindE (put_at Panic (labels s) (unat (out g))
                        (label_xor (unaryHash blk a (etweak s)) row)) (\<lambda>ls.
                 Inr (s\<lparr>labels := ls, etweak := etweak s + 1\<rparr>)))
       | _ \<Rightarrow>
           bindE (at Panic (labels s) (unat (in1 g))) (\<lambda>b.
             bindE (put_at Panic (labels s) (unat (out g)) (label_xor a b)) (\<lambda>ls.
               Inr (s\<lparr>labels := ls\<rparr>))))"

definition evaluate :: "engine \<Rightarrow> bytes \<Rightarrow> Label list \<Rightarrow> Label list \<Rightarrow> mpc_error + Label list" where
  "evaluate e key ls ts =
     (if length ls \<noteq> numWires e then Inl (Engine WireCountMismatch)
      else if length ts \<noteq> tableCount e then Inl (Engine TableCountMismatch)
      else let blk = newFixedAES key in
        bindE (foldE (evaluate_gate blk ts) (gates e) \<lparr>labels = ls, etweak = 0\<rparr>) (\<lambda>s.
          Inr (labels s)))"

section \<open>One gate\<close>

text \<open>The label of a bit on a wire, and the free-XOR offset between the two labels.\<close>

definition wire_label :: "wire \<Rightarrow> bool \<Rightarrow> Label" where
  "wire_label w b = (if b then l1 w else l0 w)"

definition free_xor :: "Label \<Rightarrow> wire \<Rightarrow> bool" where
  "free_xor r w \<longleftrightarrow> l1 w = label_xor (l0 w) r"

lemma wire_label_free_xor:
  "free_xor r w \<Longrightarrow> wire_label w b = (if b then label_xor (l0 w) r else l0 w)"
  by (simp add: wire_label_def free_xor_def)

lemma garble_xor_correct:
  assumes "free_xor r a" "free_xor r b" "oper = opXOR \<or> oper = opXNOR"
  shows "free_xor r (garble_xor r oper a b)"
    and "label_xor (wire_label a x) (wire_label b y) =
      wire_label (garble_xor r oper a b) (gate_bit oper x y)"
  using assms by (auto simp: garble_xor_def free_xor_def wire_label_def Let_def label_algebra)

text \<open>
  The evaluator's two half gates, recombined, give the output label of the conjunction,
  whatever the permutation bits of the inputs are. The algebra is a fact of any
  exclusive-or group, with the four hashes as arbitrary elements.
\<close>

context xor_group
begin

lemma half_gates:
  assumes tg: "tg = (if pb then xor (xor ha0 ha1) r else xor ha0 ha1)"
    and te: "te = xor (xor hb0 hb1) a"
    and wg0: "wg0 = (if pa then xor ha0 tg else ha0)"
    and we0: "we0 = (if pb then xor (xor hb0 te) a else hb0)"
    and wg: "wg = (if pa \<noteq> x then xor (if x then ha1 else ha0) tg else if x then ha1 else ha0)"
    and we: "we = (if pb \<noteq> y then xor (xor (if y then hb1 else hb0) te) (if x then xor a r else a)
        else if y then hb1 else hb0)"
  shows "xor wg we = (if x \<and> y then xor (xor wg0 we0) r else xor wg0 we0)"
  unfolding wg we wg0 we0 te tg
  by (cases x; cases y; cases pa; cases pb) (simp_all add: xor_ac xor_simps)

lemma inverter_row:
  assumes "t0 = (if p then h1 else h0)" "t1 = (if p then h0 else h1)"
    and "x0 = (if p then t0 else xor t0 r)" "x1 = (if p then xor t0 r else t0)"
    and "row = (if p then xor t1 x1 else xor t1 x0)"
  shows "xor (if x then h1 else h0) (if p \<noteq> x then row else zero) = (if x then x0 else x1)"
    and "x1 = xor x0 r"
  using assms by (cases x; cases p; simp add: xor_ac xor_simps)+

end

lemma permutationBit_wire_label:
  "free_xor r w \<Longrightarrow> permutationBit r \<Longrightarrow>
    permutationBit (wire_label w b) \<longleftrightarrow> permutationBit (l0 w) \<noteq> b"
  by (simp add: wire_label_free_xor)

lemma unaryHash_wire_label:
  "unaryHash blk (wire_label w b) t = (if b then unaryHash blk (l1 w) t else unaryHash blk (l0 w) t)"
  by (simp add: wire_label_def)

lemma garble_and_correct:
  fixes x y :: bool
  assumes blk: "portable blk" and free: "free_xor r a" "free_xor r b"
    and r: "permutationBit r" and g: "garble_and blk r tw a b = (w, tg, te)"
  defines "la \<equiv> wire_label a x" and "lb \<equiv> wire_label b y"
  defines "wg \<equiv> (if permutationBit la then label_xor (unaryHash blk la tw) tg
      else unaryHash blk la tw)"
    and "we \<equiv> (if permutationBit lb
      then label_xor (label_xor (unaryHash blk lb (tw + 1)) te) la
      else unaryHash blk lb (tw + 1))"
  shows "free_xor r w" and "label_xor wg we = wire_label w (x \<and> y)"
proof -
  define ha0 ha1 hb0 hb1 where h: "ha0 = unaryHash blk (l0 a) tw" "ha1 = unaryHash blk (l1 a) tw"
    "hb0 = unaryHash blk (l0 b) (tw + 1)" "hb1 = unaryHash blk (l1 b) (tw + 1)"
  define pa pb where p: "pa = permutationBit (l0 a)" "pb = permutationBit (l0 b)"
  define wg0 where wg0: "wg0 = (if pa then label_xor ha0 tg else ha0)"
  define we0 where we0: "we0 = (if pb then label_xor (label_xor hb0 te) (l0 a) else hb0)"
  have tg: "tg = (if pb then label_xor (label_xor ha0 ha1) r else label_xor ha0 ha1)"
    and te: "te = label_xor (label_xor hb0 hb1) (l0 a)"
    and w: "w = \<lparr>l0 = label_xor wg0 we0, l1 = label_xor (label_xor wg0 we0) r\<rparr>"
    using g by (auto simp: garble_and_def halfHash4_unary [OF blk] Let_def h p wg0 we0)
  show "free_xor r w" by (simp add: w free_xor_def)
  have wg': "wg = (if pa \<noteq> x then label_xor (if x then ha1 else ha0) tg else if x then ha1 else ha0)"
    unfolding wg_def la_def permutationBit_wire_label [OF free(1) r] unaryHash_wire_label
    by (simp add: h p)
  have we': "we = (if pb \<noteq> y
      then label_xor (label_xor (if y then hb1 else hb0) te) (if x then label_xor (l0 a) r else l0 a)
      else if y then hb1 else hb0)"
    unfolding we_def lb_def la_def permutationBit_wire_label [OF free(2) r] unaryHash_wire_label
      wire_label_free_xor [OF free(1)]
    by (simp add: h p)
  show "label_xor wg we = wire_label w (x \<and> y)"
    using lx.half_gates [OF tg te wg0 we0 wg' we'] by (simp add: w wire_label_def)
qed

lemma garble_inv_correct:
  assumes free: "free_xor r a" and r: "permutationBit r"
    and g: "garble_inv blk r tw a = (w, row)"
  shows "free_xor r w"
    and "label_xor (unaryHash blk (wire_label a x) tw)
        (if permutationBit (wire_label a x) then row else label_zero) = wire_label w (\<not> x)"
proof -
  define h0 h1 where h: "h0 = unaryHash blk (l0 a) tw" "h1 = unaryHash blk (l1 a) tw"
  define p where p: "p = permutationBit (l0 a)"
  define t0 where t0: "t0 = (if p then h1 else h0)"
  define t1 where t1: "t1 = (if p then h0 else h1)"
  have x0: "l0 w = (if p then t0 else label_xor t0 r)"
    and x1: "l1 w = (if p then label_xor t0 r else t0)"
    and row: "row = (if p then label_xor t1 (l1 w) else label_xor t1 (l0 w))"
    using g by (auto simp: garble_inv_def Let_def t0 t1 p h split: if_splits)
  note inverter = lx.inverter_row [OF t0 t1 x0 x1 row]
  show "free_xor r w" unfolding free_xor_def by (rule inverter(2))
  show "label_xor (unaryHash blk (wire_label a x) tw)
        (if permutationBit (wire_label a x) then row else label_zero) = wire_label w (\<not> x)"
    unfolding permutationBit_wire_label [OF free r] unaryHash_wire_label
    using inverter(1) [of x] by (cases x) (simp_all add: h p wire_label_def)
qed

section \<open>A garbled run simulates the plain circuit\<close>

text \<open>
  \<open>sim r D ws ls v\<close>: on every wire of \<open>D\<close> the two labels differ by \<open>r\<close>, and the
  evaluator holds the label of the plain bit.
\<close>

definition sim :: "Label \<Rightarrow> nat set \<Rightarrow> wire list \<Rightarrow> Label list \<Rightarrow> bool list \<Rightarrow> bool" where
  "sim r D ws ls v \<longleftrightarrow>
     length ls = length ws \<and> length v = length ws \<and>
     (\<forall>i\<in>D. i < length ws \<and> free_xor r (ws ! i) \<and> ls ! i = wire_label (ws ! i) (v ! i))"

lemma simD:
  assumes "sim r D ws ls v" and "i \<in> D"
  shows "i < length ws" "i < length ls" "i < length v"
    "free_xor r (ws ! i)" "ls ! i = wire_label (ws ! i) (v ! i)"
  using assms by (auto simp: sim_def)

lemma sim_update:
  assumes "sim r D ws ls v" "k < length ws" "free_xor r w" "lab = wire_label w b"
  shows "sim r (insert k D) (ws[k := w]) (ls[k := lab]) (v[k := b])"
  using assms by (auto simp: sim_def nth_list_update)

text \<open>The number of table slots a gate takes, and the slots below \<open>c\<close> that stay put.\<close>

definition slots :: "gate \<Rightarrow> nat" where
  "slots g = (case gop g of opAND \<Rightarrow> 2 | opINV \<Rightarrow> 1 | _ \<Rightarrow> 0)"

lemma layout_Cons:
  "layout c (g # gs) n \<longleftrightarrow>
    (gop g = opAND \<longrightarrow> unat (gtable g) = c \<and> unat (gtable g + 1) = c + 1) \<and>
    (gop g = opINV \<longrightarrow> unat (gtable g) = c) \<and> layout (c + slots g) gs n"
  by (auto simp: slots_def split: operation.splits)

lemma layout_bound: "layout c gs n \<Longrightarrow> c \<le> n"
  by (induction c gs n rule: layout.induct) (auto split: operation.splits)

text \<open>
  \<open>gate_sim\<close>: garbling one gate succeeds, keeps the earlier table slots and the input
  wires, and every table that agrees with the new one up to the gate's slots lets the
  evaluator follow.
\<close>

definition gate_sim ::
  "fixedAES \<Rightarrow> Label \<Rightarrow> nat set \<Rightarrow> nat \<Rightarrow> gate \<Rightarrow> garble_state \<Rightarrow> eval_state \<Rightarrow> bool list \<Rightarrow> bool" where
  "gate_sim blk r D c g s es v \<longleftrightarrow>
     (\<exists>s'. garble_gate blk r g s = Inr s' \<and>
        length (wires s') = length (wires s) \<and> length (tables s') = length (tables s) \<and>
        take c (tables s') = take c (tables s) \<and>
        (\<forall>i < 2 * InputBits. wires s' ! i = wires s ! i) \<and>
        (\<forall>T. length T = length (tables s) \<and> take (c + slots g) T = take (c + slots g) (tables s') \<longrightarrow>
          (\<exists>es'. evaluate_gate blk T g es = Inr es' \<and> etweak es' = tweak s' \<and>
            sim r (insert (unat (out g)) D) (wires s') (labels es') (plain_gate g v))))"

lemma gate_simI:
  assumes sim: "sim r D (wires s) (labels es) v" and o: "unat (out g) < length (wires s)"
    and outside: "2 * InputBits \<le> unat (out g)" and free: "free_xor r w"
    and g: "garble_gate blk r g s =
      Inr (s\<lparr>wires := (wires s)[unat (out g) := w], tables := ts, tweak := t\<rparr>)"
    and ts: "length ts = length (tables s)" "take c ts = take c (tables s)"
    and ev: "\<And>T. length T = length (tables s) \<Longrightarrow> take (c + slots g) T = take (c + slots g) ts \<Longrightarrow>
      evaluate_gate blk T g es = Inr (es\<lparr>labels := (labels es)[unat (out g) :=
        wire_label w (gate_bit (gop g) (v ! unat (in0 g)) (v ! unat (in1 g)))], etweak := t\<rparr>)"
  shows "gate_sim blk r D c g s es v"
  unfolding gate_sim_def
proof (intro exI conjI allI impI)
  show "garble_gate blk r g s =
      Inr (s\<lparr>wires := (wires s)[unat (out g) := w], tables := ts, tweak := t\<rparr>)" by (rule g)
  fix T assume "length T = length (tables s) \<and> take (c + slots g) T = take (c + slots g)
      (tables (s\<lparr>wires := (wires s)[unat (out g) := w], tables := ts, tweak := t\<rparr>))"
  then show "evaluate_gate blk T g es = Inr (es\<lparr>labels := (labels es)[unat (out g) :=
        wire_label w (gate_bit (gop g) (v ! unat (in0 g)) (v ! unat (in1 g)))], etweak := t\<rparr>)"
    using ev by simp
qed (use ts outside sim_update [OF sim o free refl] in \<open>auto simp: plain_gate_def\<close>)

lemmas gate_access = at_lt put_at_lt

lemma and_sim:
  assumes blk: "portable blk" and r: "permutationBit r"
    and sim: "sim r D (wires s) (labels es) v" and tw: "etweak es = tweak s"
    and top: "topo (length (wires s)) D (g # gs)" and g: "gop g = opAND"
    and slot: "unat (gtable g) = c" "unat (gtable g + 1) = c + 1" "c + 1 < length (tables s)"
  shows "gate_sim blk r D c g s es v"
proof -
  have d: "unat (in0 g) \<in> D" "unat (in1 g) \<in> D"
    and o: "unat (out g) < length (wires s)" "2 * InputBits \<le> unat (out g)"
    using top g by simp_all
  note a = simD [OF sim d(1)] and b = simD [OF sim d(2)]
  obtain w tg te where gb: "garble_and blk r (tweak s) (wires s ! unat (in0 g))
      (wires s ! unat (in1 g)) = (w, tg, te)"
    by (metis prod_cases3)
  note ok = garble_and_correct [OF blk a(4) b(4) r gb]
  have o': "unat (out g) < length (labels es)" using o sim by (simp add: sim_def)
  show ?thesis
  proof (rule gate_simI [OF sim o ok(1)])
    show "garble_gate blk r g s = Inr (s\<lparr>wires := (wires s)[unat (out g) := w],
        tables := (tables s)[c := tg, c + 1 := te], tweak := tweak s + 2\<rparr>)"
      using g a(1) b(1) o slot gb by (simp add: garble_gate_def gate_access)
  next
    fix T assume T: "length T = length (tables s)"
      "take (c + slots g) T = take (c + slots g) ((tables s)[c := tg, c + 1 := te])"
    have "T ! c = tg" "T ! (c + 1) = te"
      using arg_cong [OF T(2), of "\<lambda>xs. xs ! c"] arg_cong [OF T(2), of "\<lambda>xs. xs ! (c + 1)"] g slot
      by (simp_all add: slots_def)
    then show "evaluate_gate blk T g es = Inr (es\<lparr>labels := (labels es)[unat (out g) :=
        wire_label w (gate_bit (gop g) (v ! unat (in0 g)) (v ! unat (in1 g)))],
        etweak := tweak s + 2\<rparr>)"
      using g a b o' slot T(1) ok(2) [where x = "v ! unat (in0 g)" and y = "v ! unat (in1 g)"]
      by (auto simp: evaluate_gate_def halfHash2_unary [OF blk] gate_access tw split: if_splits)
  qed (use slot in simp_all)
qed

lemma inv_sim:
  assumes r: "permutationBit r"
    and sim: "sim r D (wires s) (labels es) v" and tw: "etweak es = tweak s"
    and top: "topo (length (wires s)) D (g # gs)" and g: "gop g = opINV"
    and slot: "unat (gtable g) = c" "c < length (tables s)"
  shows "gate_sim blk r D c g s es v"
proof -
  have d: "unat (in0 g) \<in> D"
    and o: "unat (out g) < length (wires s)" "2 * InputBits \<le> unat (out g)"
    using top by simp_all
  note a = simD [OF sim d]
  obtain w row where gb: "garble_inv blk r (tweak s) (wires s ! unat (in0 g)) = (w, row)"
    by fastforce
  note ok = garble_inv_correct [OF a(4) r gb]
  have o': "unat (out g) < length (labels es)" using o sim by (simp add: sim_def)
  show ?thesis
  proof (rule gate_simI [OF sim o ok(1)])
    show "garble_gate blk r g s = Inr (s\<lparr>wires := (wires s)[unat (out g) := w],
        tables := (tables s)[c := row], tweak := tweak s + 1\<rparr>)"
      using g a(1) o slot gb by (simp add: garble_gate_def gate_access)
  next
    fix T assume T: "length T = length (tables s)"
      "take (c + slots g) T = take (c + slots g) ((tables s)[c := row])"
    have "T ! c = row"
      using arg_cong [OF T(2), of "\<lambda>xs. xs ! c"] g slot by (simp add: slots_def)
    then show "evaluate_gate blk T g es = Inr (es\<lparr>labels := (labels es)[unat (out g) :=
        wire_label w (gate_bit (gop g) (v ! unat (in0 g)) (v ! unat (in1 g)))],
        etweak := tweak s + 1\<rparr>)"
      using g a o' slot T(1) ok(2) [where x = "v ! unat (in0 g)"]
      by (auto simp: evaluate_gate_def gate_access tw split: if_splits)
  qed (use slot in simp_all)
qed

lemma lin_sim:
  assumes sim: "sim r D (wires s) (labels es) v" and tw: "etweak es = tweak s"
    and top: "topo (length (wires s)) D (g # gs)" and g: "gop g = opXOR \<or> gop g = opXNOR"
  shows "gate_sim blk r D c g s es v"
proof -
  have d: "unat (in0 g) \<in> D" "unat (in1 g) \<in> D"
    and o: "unat (out g) < length (wires s)" "2 * InputBits \<le> unat (out g)"
    using top g by auto
  note a = simD [OF sim d(1)] and b = simD [OF sim d(2)]
  note ok = garble_xor_correct [OF a(4) b(4) g]
  have o': "unat (out g) < length (labels es)" using o sim by (simp add: sim_def)
  show ?thesis
  proof (rule gate_simI [OF sim o ok(1)])
    show "garble_gate blk r g s = Inr (s\<lparr>wires := (wires s)[unat (out g) :=
        garble_xor r (gop g) (wires s ! unat (in0 g)) (wires s ! unat (in1 g))],
        tables := tables s, tweak := tweak s\<rparr>)"
      using g a(1) b(1) o by (auto simp: garble_gate_def gate_access)
    show "evaluate_gate blk T g es = Inr (es\<lparr>labels := (labels es)[unat (out g) :=
        wire_label (garble_xor r (gop g) (wires s ! unat (in0 g)) (wires s ! unat (in1 g)))
          (gate_bit (gop g) (v ! unat (in0 g)) (v ! unat (in1 g)))], etweak := tweak s\<rparr>)" for T
      using g a b o' ok(2) [symmetric] by (auto simp: evaluate_gate_def gate_access simp flip: tw)
  qed simp_all
qed

lemma gate_simulation:
  assumes "portable blk" "permutationBit r" "sim r D (wires s) (labels es) v"
    and "etweak es = tweak s" "topo (length (wires s)) D (g # gs)"
    and lay: "layout c (g # gs) (length (tables s))"
  shows "gate_sim blk r D c g s es v"
proof -
  have bound: "c + slots g \<le> length (tables s)" using lay layout_bound layout_Cons by blast
  show ?thesis
  proof (cases "gop g")
    case opAND
    with lay bound show ?thesis by (intro and_sim [OF assms(1-5)]) (simp_all add: slots_def)
  next
    case opINV
    with lay bound show ?thesis by (intro inv_sim [OF assms(2-5)]) (simp_all add: slots_def)
  qed (simp_all add: lin_sim [OF assms(3-5)])
qed

text \<open>The whole gate list: the evaluator runs on the tables of the finished garbling.\<close>

lemma gates_simulation:
  assumes "portable blk" "permutationBit r" "sim r D (wires s) (labels es) v"
    and "etweak es = tweak s" "topo (length (wires s)) D gs" "layout c gs (length (tables s))"
  shows "\<exists>t. foldE (garble_gate blk r) gs s = Inr t \<and>
    length (wires t) = length (wires s) \<and> length (tables t) = length (tables s) \<and>
    take c (tables t) = take c (tables s) \<and>
    (\<forall>i < 2 * InputBits. wires t ! i = wires s ! i) \<and>
    (\<exists>et. foldE (evaluate_gate blk (tables t)) gs es = Inr et \<and>
      sim r (driven D gs) (wires t) (labels et) (fold plain_gate gs v))"
  using assms(3-)
proof (induction gs arbitrary: s es v D c)
  case Nil
  then show ?case by (auto simp: driven_def)
next
  case (Cons g gs)
  from gate_simulation [OF assms(1,2) Cons.prems] obtain s' where
    s': "garble_gate blk r g s = Inr s'" "length (wires s') = length (wires s)"
      "length (tables s') = length (tables s)" "take c (tables s') = take c (tables s)"
      "\<forall>i < 2 * InputBits. wires s' ! i = wires s ! i"
    and follow: "\<And>T. length T = length (tables s) \<Longrightarrow>
      take (c + slots g) T = take (c + slots g) (tables s') \<Longrightarrow>
      \<exists>es'. evaluate_gate blk T g es = Inr es' \<and> etweak es' = tweak s' \<and>
        sim r (insert (unat (out g)) D) (wires s') (labels es') (plain_gate g v)"
    unfolding gate_sim_def by blast
  obtain es0 :: eval_state where es0: "etweak es0 = tweak s'"
    "sim r (insert (unat (out g)) D) (wires s') (labels es0) (plain_gate g v)"
    using follow [OF s'(3) refl] by blast
  have lay: "layout (c + slots g) gs (length (tables s'))"
    using Cons.prems(4) s'(3) layout_Cons by simp
  have top: "topo (length (wires s')) (insert (unat (out g)) D) gs"
    using Cons.prems(3) s'(2) by simp
  obtain t where t: "foldE (garble_gate blk r) gs s' = Inr t" "length (wires t) = length (wires s')"
    "length (tables t) = length (tables s')"
    "take (c + slots g) (tables t) = take (c + slots g) (tables s')"
    "\<forall>i < 2 * InputBits. wires t ! i = wires s' ! i"
    using Cons.IH [OF es0(2,1) top lay] by blast
  obtain es' :: eval_state where es': "evaluate_gate blk (tables t) g es = Inr es'" "etweak es' = tweak s'"
    "sim r (insert (unat (out g)) D) (wires s') (labels es') (plain_gate g v)"
    using follow [OF _ t(4)] t(3) s'(3) by (metis (no_types))
  obtain et where et: "foldE (evaluate_gate blk (tables t)) gs es' = Inr et"
    "sim r (driven (insert (unat (out g)) D) gs) (wires t) (labels et) (fold plain_gate gs (plain_gate g v))"
    using Cons.IH [OF es'(3,2) top lay] t(1) by auto
  have "driven (insert (unat (out g)) D) gs = driven D (g # gs)" by (auto simp: driven_def)
  moreover have "take c (tables t) = take c (tables s)"
    using arg_cong [OF t(4), of "take c"] s'(4) by (simp add: min_def)
  ultimately show ?case using s' t es'(1) et by simp
qed

section \<open>Garble, then evaluate\<close>

text \<open>The labels the evaluator starts from: one per input wire, zero elsewhere.\<close>

definition input_labels :: "engine \<Rightarrow> garbled \<Rightarrow> bool list \<Rightarrow> Label list" where
  "input_labels e gb inputs =
     map (\<lambda>i. wire_label (gwires gb ! i) (inputs ! i)) [0..<2 * InputBits]
       @ replicate (numWires e - 2 * InputBits) label_zero"

lemma free_xor_input_wire: "free_xor r (input_wire r random i)"
  by (simp add: input_wire_def free_xor_def Let_def)

lemma garble_evaluate:
  assumes wf: "wf_engine e" and len: "length inputs = 2 * InputBits"
    and rng: "16 + 2 * InputBits * 16 \<le> length rng"
  obtains gb r ls where
    "garble e (Some rng) key = Inr (gb, drop (16 + 2 * InputBits * 16) rng)"
    "length (gwires gb) = numWires e" "length (gtables gb) = tableCount e"
    "permutationBit r"
    "evaluate e key (input_labels e gb inputs) (gtables gb) = Inr ls"
    "sim r ({..<2 * InputBits} \<union> {numWires e - OutputBits..<numWires e}) (gwires gb) ls
      (plain_eval e inputs)"
proof -
  define random where "random = take (16 + 2 * InputBits * 16) rng"
  define r where "r = withPermutationBit (labelFromBytes (slice random 0 16)) True"
  define ws where "ws = map (input_wire r random) [0..<2 * InputBits]
      @ replicate (numWires e - 2 * InputBits) wire_zero"
  define s where "s = \<lparr>wires = ws, tables = replicate (tableCount e) label_zero, tweak = 0\<rparr>"
  have r: "permutationBit r" by (simp add: r_def)
  have n: "2 * InputBits \<le> numWires e" using wf by (simp add: wf_engine_def)
  have ins: "foldE (\<lambda>i ws. put_at Panic ws i (input_wire r random i)) [0..<2 * InputBits]
      (replicate (numWires e) wire_zero) = Inr ws"
    using n by (subst foldE_put_at) (simp_all add: ws_def)
  define ls0 where "ls0 = map (\<lambda>i. wire_label (ws ! i) (inputs ! i)) [0..<2 * InputBits]
      @ replicate (numWires e - 2 * InputBits) label_zero"
  have "sim r {..<2 * InputBits} ws ls0 (inputs @ replicate (numWires e - 2 * InputBits) False)"
    using n len free_xor_input_wire by (auto simp: sim_def ws_def ls0_def nth_append)
  then have "sim r {..<2 * InputBits} (wires s) (labels \<lparr>labels = ls0, etweak = 0\<rparr>)
      (inputs @ replicate (numWires e - 2 * InputBits) False)"
    by (simp add: s_def)
  note start = this
  have s: "length (wires s) = numWires e" "length (tables s) = tableCount e" "wires s = ws"
    using n by (simp_all add: s_def ws_def)
  have "etweak \<lparr>labels = ls0, etweak = 0\<rparr> = tweak s" by (simp add: s_def)
  moreover have "topo (length (wires s)) {..<2 * InputBits} (gates e)"
    "layout 0 (gates e) (length (tables s))"
    using wf unfolding s(1,2) wf_engine_def by blast+
  ultimately obtain t et where t: "foldE (garble_gate (newFixedAES key) r) (gates e) s = Inr t"
    "length (wires t) = numWires e" "length (tables t) = tableCount e"
    "\<forall>i < 2 * InputBits. wires t ! i = ws ! i"
    and et: "foldE (evaluate_gate (newFixedAES key) (tables t)) (gates e)
      \<lparr>labels = ls0, etweak = 0\<rparr> = Inr et"
    "sim r (driven {..<2 * InputBits} (gates e)) (wires t) (labels et) (plain_eval e inputs)"
    using gates_simulation [OF portable_newFixedAES [of key] r start]
    unfolding s(1,2) unfolding s(3) plain_eval_def len by blast
  let ?gb = "\<lparr>gwires = wires t, gtables = tables t\<rparr>"
  have "garble e (Some rng) key = Inr (?gb, drop (16 + 2 * InputBits * 16) rng)"
  proof -
    have "take 20496 rng = random" by (simp add: random_def)
    with rng ins t(1) show ?thesis
      by (simp add: garble_def readFull_def Let_def s_def flip: r_def)
  qed
  moreover have "input_labels e ?gb inputs = ls0"
    using t(4) by (simp add: input_labels_def ls0_def)
  then have "evaluate e key (input_labels e ?gb inputs) (gtables ?gb) = Inr (labels et)"
    using et(1) t(3) n by (simp add: evaluate_def ls0_def Let_def)
  moreover have "sim r ({..<2 * InputBits} \<union> {numWires e - OutputBits..<numWires e}) (wires t)
      (labels et) (plain_eval e inputs)"
    using et(2) wf by (fastforce simp: sim_def wf_engine_def driven_def)
  ultimately show ?thesis using that [of ?gb r "labels et"] t(2,3) r by simp
qed

end
