(* ===== verification/Oprf_Online.thy ===== *)
theory Oprf_Online
  imports Garbling
begin

text \<open>
  The online phase of the two-party AES-CMAC evaluation, \<open>mpc/oprf.go\<close>: the garbler's
  payload, the evaluator's choice corrections, the masks that turn random oblivious
  transfers into chosen ones, evaluation, and verification of the output labels.

  Sessions are single-use objects. An operation takes the session and returns it updated,
  with its result; a Go pointer that may be nil is an option. The engine is the result of
  \<open>defaultEngine\<close>. A payload's pointer to the garbling scratch is a memory-reuse device and
  is not part of the record; \<open>payload_release\<close> clears the fields the scratch backs.
\<close>

section \<open>Data\<close>

record SenderOT =
  R0 :: Label
  R1 :: Label
  sIndex :: u64

record ReceiverOT =
  R :: Label
  rIndex :: u64
  Choice :: bool

record OTMask =
  M0 :: Label
  M1 :: Label

record OnlinePayload =
  pSessionID :: u64
  Key :: bytes
  Tables :: "Label list"
  GarblerInputs :: "Label list"
  OutputTranslations :: bytes
  OTStartIndex :: u64

record GarblerSession =
  gSessionID :: u64
  evaluatorWires :: "wire list"
  otPads :: "SenderOT list"
  outputWires :: "wire list"
  corrected :: bool
  verified :: bool

record EvaluatorSession =
  eSessionID :: u64
  payload :: "OnlinePayload option"
  inputBits :: "bool list"
  ots :: "ReceiverOT list"
  evaluated :: bool

record OnlineResult =
  CMACOutput :: bytes
  OutputLabels :: "Label list"

section \<open>Operations\<close>

definition payload_release :: "OnlinePayload \<Rightarrow> OnlinePayload" where
  "payload_release p =
     p\<lparr>Key := replicate 16 0, Tables := [], GarblerInputs := [],
       OutputTranslations := replicate (OutputBits div 8) 0\<rparr>"

definition garbler_destroy :: "GarblerSession \<Rightarrow> GarblerSession" where
  "garbler_destroy s =
     s\<lparr>evaluatorWires := [], otPads := [], outputWires := [], corrected := True, verified := True\<rparr>"

definition evaluator_destroy :: "EvaluatorSession \<Rightarrow> EvaluatorSession" where
  "evaluator_destroy s =
     s\<lparr>payload := None, inputBits := replicate InputBits False, ots := [], evaluated := True\<rparr>"

definition PadZeros64 :: "bytes \<Rightarrow> int \<Rightarrow> mpc_error + bytes" where
  "PadZeros64 data dataLen =
     (if dataLen < 0 \<or> dataLen > 64 then Inl (Online DataLengthOutsideRange)
      else if int (length data) < dataLen then Inl (Online DataSliceTooShort)
      else Inr (take (nat dataLen) data @ replicate (64 - nat dataLen) 0))"

fun check_indices :: "(nat \<Rightarrow> mpc_error) \<Rightarrow> u64 \<Rightarrow> nat \<Rightarrow> u64 list \<Rightarrow> mpc_error + unit" where
  "check_indices err start i [] = Inr ()"
| "check_indices err start i (x # xs) =
     (if x \<noteq> start + of_nat i then Inl (err i) else check_indices err start (Suc i) xs)"

definition validateSenderOTIndices :: "SenderOT list \<Rightarrow> u64 \<Rightarrow> mpc_error + unit" where
  "validateSenderOTIndices os start =
     bindE (checkedIndexEnd start (int (length os))) (\<lambda>_.
       check_indices (Online \<circ> SenderOTIndex) start 0 (map sIndex os))"

definition validateReceiverOTIndices :: "ReceiverOT list \<Rightarrow> u64 \<Rightarrow> mpc_error + unit" where
  "validateReceiverOTIndices os start =
     bindE (checkedIndexEnd start (int (length os))) (\<lambda>_.
       check_indices (Online \<circ> ReceiverOTIndex) start 0 (map rIndex os))"

definition GarblerOnline ::
  "mpc_error + engine \<Rightarrow> bytes option \<Rightarrow> bytes \<Rightarrow> SenderOT list \<Rightarrow> u64 \<Rightarrow>
    mpc_error + OnlinePayload \<times> GarblerSession \<times> bytes" where
  "GarblerOnline eng rng garblerInput os otStartIndex =
     (case rng of
        None \<Rightarrow> Inl (Engine NilRandomness)
      | Some source \<Rightarrow>
          if length os \<noteq> InputBits then Inl (Online SenderOTCount)
          else bindE (validateSenderOTIndices os otStartIndex) (\<lambda>_.
            bindE eng (\<lambda>e.
            bindE (readFull (Engine ShortRandomness) source (8 + 16)) (\<lambda>(header, source').
            let sessionID = be_get (slice header 0 8); key = slice header 8 24 in
            bindE (garble e (Some source') key) (\<lambda>(g, rest).
            let bits = bytesToBits garblerInput;
                garblerInputs = map (\<lambda>i. if bits ! i then l1 (gwires g ! i) else l0 (gwires g ! i))
                                  [0..<InputBits];
                eWires = slice (gwires g) InputBits (2 * InputBits);
                outputStart = numWires e - OutputBits;
                oWires = drop outputStart (gwires g);
                translations = bitsToBytes (map (\<lambda>w. permutationBit (l0 w)) oWires) (OutputBits div 8)
            in Inr (\<lparr>pSessionID = sessionID, Key = key, Tables = gtables g,
                     GarblerInputs = garblerInputs, OutputTranslations = translations,
                     OTStartIndex = otStartIndex\<rparr>,
                    \<lparr>gSessionID = sessionID, evaluatorWires = eWires, otPads = os,
                     outputWires = oWires, corrected = False, verified = False\<rparr>,
                    rest))))))"

definition EvaluatorPrepare ::
  "OnlinePayload option \<Rightarrow> bytes \<Rightarrow> ReceiverOT list \<Rightarrow> mpc_error + EvaluatorSession \<times> bool list" where
  "EvaluatorPrepare pl evaluatorInput os =
     (case pl of
        None \<Rightarrow> Inl (Online NilPayload)
      | Some p \<Rightarrow>
          if length os \<noteq> InputBits then Inl (Online ReceiverOTCount)
          else if length (GarblerInputs p) \<noteq> InputBits then Inl (Online GarblerInputCount)
          else bindE (validateReceiverOTIndices os (OTStartIndex p)) (\<lambda>_.
            let bits = bytesToBits evaluatorInput;
                corrections = map (\<lambda>i. Choice (os ! i) \<noteq> bits ! i) [0..<InputBits]
            in Inr (\<lparr>eSessionID = pSessionID p, payload = Some p, inputBits = bits,
                     ots = os, evaluated = False\<rparr>, corrections)))"

definition correction_mask :: "SenderOT \<Rightarrow> bool \<Rightarrow> wire \<Rightarrow> OTMask" where
  "correction_mask pads c w =
     (let (r0, r1) = (if c then (R1 pads, R0 pads) else (R0 pads, R1 pads))
      in \<lparr>M0 = label_xor (l0 w) r0, M1 = label_xor (l1 w) r1\<rparr>)"

definition ApplyCorrections ::
  "GarblerSession option \<Rightarrow> bool list \<Rightarrow> GarblerSession option \<times> (mpc_error + OTMask list)" where
  "ApplyCorrections session corrections =
     (case session of
        None \<Rightarrow> (None, Inl (Online NilSession))
      | Some s \<Rightarrow>
          if length corrections \<noteq> InputBits then (Some s, Inl (Online CorrectionCount))
          else if corrected s then (Some s, Inl (Online AlreadyCorrected))
          else if length (evaluatorWires s) \<noteq> InputBits \<or> length (otPads s) \<noteq> InputBits
          then (Some s, Inl (Online InvalidSessionState))
          else (Some (s\<lparr>corrected := True, evaluatorWires := [], otPads := []\<rparr>),
                Inr (map (\<lambda>i. correction_mask (otPads s ! i) (corrections ! i) (evaluatorWires s ! i))
                       [0..<InputBits])))"

definition EvaluatorOnline ::
  "mpc_error + engine \<Rightarrow> EvaluatorSession option \<Rightarrow> OTMask list \<Rightarrow>
    EvaluatorSession option \<times> (mpc_error + OnlineResult)" where
  "EvaluatorOnline eng session masks =
     (case session of
        None \<Rightarrow> (None, Inl (Online NilSession))
      | Some s \<Rightarrow>
          if length masks \<noteq> InputBits then (Some s, Inl (Online MaskCount))
          else if evaluated s then (Some s, Inl (Online AlreadyEvaluated))
          else (Some (s\<lparr>evaluated := True, inputBits := replicate InputBits False, ots := [],
                        payload := None\<rparr>),
            case payload s of
              None \<Rightarrow> Inl (Online InvalidSessionState)
            | Some p \<Rightarrow>
                if length (ots s) \<noteq> InputBits then Inl (Online InvalidSessionState)
                else bindE eng (\<lambda>e.
                  let given = take InputBits (GarblerInputs p)
                                @ drop (length (GarblerInputs p)) (replicate InputBits label_zero);
                      chosen = map (\<lambda>i. label_xor (R (ots s ! i))
                                 (if inputBits s ! i then M1 (masks ! i) else M0 (masks ! i)))
                                 [0..<InputBits]
                  in if numWires e < 2 * InputBits then Inl Panic
                  else bindE (evaluate e (Key p)
                         (given @ chosen @ replicate (numWires e - 2 * InputBits) label_zero)
                         (Tables p)) (\<lambda>ls.
                    let outputLabels = drop (numWires e - OutputBits) ls;
                        outputBits = map (\<lambda>i. permutationBit (outputLabels ! i)
                                        \<noteq> bytesToBits (OutputTranslations p) ! i) [0..<OutputBits]
                    in Inr \<lparr>CMACOutput = bitsToBytes outputBits 16,
                            OutputLabels = outputLabels\<rparr>))))"

fun decode_outputs :: "nat \<Rightarrow> wire list \<Rightarrow> Label list \<Rightarrow> mpc_error + bool list" where
  "decode_outputs i (w # ws) (l # ls) =
     (if label_equal l (l0 w) then bindE (decode_outputs (Suc i) ws ls) (\<lambda>bs. Inr (False # bs))
      else if label_equal l (l1 w) then bindE (decode_outputs (Suc i) ws ls) (\<lambda>bs. Inr (True # bs))
      else Inl (Online (InvalidOutputLabel i)))"
| "decode_outputs i ws ls = Inr []"

definition VerifyOutput ::
  "GarblerSession option \<Rightarrow> Label list \<Rightarrow> GarblerSession option \<times> (mpc_error + bytes)" where
  "VerifyOutput session ls =
     (case session of
        None \<Rightarrow> (None, Inl (Online NilSession))
      | Some s \<Rightarrow>
          if \<not> corrected s then (Some s, Inl (Online NotCorrected))
          else if verified s then (Some s, Inl (Online AlreadyVerified))
          else (Some (s\<lparr>verified := True, outputWires := []\<rparr>),
            if length ls \<noteq> OutputBits \<or> length (outputWires s) \<noteq> OutputBits
            then Inl (Online OutputLabelCount)
            else bindE (decode_outputs 0 (outputWires s) ls) (\<lambda>bits. Inr (bitsToBytes bits 16))))"

section \<open>Index validation\<close>

lemma check_indices_Inr:
  "check_indices err start i xs = Inr u \<longleftrightarrow> (\<forall>k < length xs. xs ! k = start + of_nat (i + k))"
proof (induction err start i xs rule: check_indices.induct)
  case (2 err start i x xs)
  have "(\<forall>k < length (x # xs). (x # xs) ! k = start + of_nat (i + k)) \<longleftrightarrow>
      x = start + of_nat i \<and> (\<forall>k < length xs. xs ! k = start + of_nat (Suc i + k))"
    by (auto simp: All_less_Suc2)
  with 2 show ?case by auto
qed simp

text \<open>A batch at \<open>start\<close> with consecutive indices that do not wrap.\<close>

definition consecutive :: "u64 \<Rightarrow> u64 list \<Rightarrow> bool" where
  "consecutive start xs \<longleftrightarrow>
     unat start + length xs < 2 ^ 64 \<and> (\<forall>k < length xs. xs ! k = start + of_nat k)"

lemma validateSenderOTIndices_Inr:
  assumes "length os \<le> 2 ^ 62"
  shows "validateSenderOTIndices os start = Inr u \<longleftrightarrow> consecutive start (map sIndex os)"
proof -
  have "(\<exists>x. checkedIndexEnd start (int (length os)) = Inr x) \<longleftrightarrow> unat start + length os < 2 ^ 64"
    using is_go_int_small [OF assms] by (simp add: checkedIndexEnd_ok)
  then show ?thesis
    by (simp add: validateSenderOTIndices_def consecutive_def check_indices_Inr)
qed

lemma validateReceiverOTIndices_Inr:
  assumes "length os \<le> 2 ^ 62"
  shows "validateReceiverOTIndices os start = Inr u \<longleftrightarrow> consecutive start (map rIndex os)"
proof -
  have "(\<exists>x. checkedIndexEnd start (int (length os)) = Inr x) \<longleftrightarrow> unat start + length os < 2 ^ 64"
    using is_go_int_small [OF assms] by (simp add: checkedIndexEnd_ok)
  then show ?thesis
    by (simp add: validateReceiverOTIndices_def consecutive_def check_indices_Inr)
qed

section \<open>Single use\<close>

text \<open>
  A garbler session moves through its operations in any order the peers drive it. Its
  observable events are the successful corrections and verifications.
\<close>

datatype garbler_op = Correct "bool list" | Verify "Label list" | Destroy

datatype garbler_event = Corrected "OTMask list" | Verified bytes

definition garbler_step :: "GarblerSession \<Rightarrow> garbler_op \<Rightarrow> GarblerSession \<times> garbler_event list" where
  "garbler_step s oper =
     (case oper of
        Correct cs \<Rightarrow>
          (case ApplyCorrections (Some s) cs of
             (s', Inr ms) \<Rightarrow> (the s', [Corrected ms]) | (s', Inl _) \<Rightarrow> (the s', []))
      | Verify ls \<Rightarrow>
          (case VerifyOutput (Some s) ls of
             (s', Inr cmac) \<Rightarrow> (the s', [Verified cmac]) | (s', Inl _) \<Rightarrow> (the s', []))
      | Destroy \<Rightarrow> (garbler_destroy s, []))"

fun garbler_run :: "GarblerSession \<Rightarrow> garbler_op list \<Rightarrow> garbler_event list" where
  "garbler_run s [] = []"
| "garbler_run s (p # ps) = (case garbler_step s p of (s', ev) \<Rightarrow> ev @ garbler_run s' ps)"

lemmas garbler_ops = garbler_step_def ApplyCorrections_def VerifyOutput_def garbler_destroy_def

lemma garbler_step_done:
  assumes "corrected s" "verified s" "garbler_step s p = (s', ev)"
  shows "corrected s' \<and> verified s' \<and> ev = []"
  using assms by (auto simp: garbler_ops split: garbler_op.splits sum.splits if_splits)

lemma garbler_step_awaiting:
  assumes "corrected s" "garbler_step s p = (s', ev)"
  shows "corrected s' \<and> (ev = [] \<or> verified s' \<and> (\<exists>cmac. ev = [Verified cmac]))"
  using assms by (auto simp: garbler_ops split: garbler_op.splits sum.splits if_splits)

lemma garbler_step_fresh:
  assumes "\<not> corrected s" "\<not> verified s" "garbler_step s p = (s', ev)"
  shows "ev = [] \<and> (corrected s' \<longleftrightarrow> verified s') \<or>
    corrected s' \<and> (\<exists>ms. ev = [Corrected ms])"
  using assms by (auto simp: garbler_ops split: garbler_op.splits sum.splits if_splits)

lemma garbler_run_done: "corrected s \<Longrightarrow> verified s \<Longrightarrow> garbler_run s ps = []"
proof (induction ps arbitrary: s)
  case (Cons p ps)
  obtain s' ev where "garbler_step s p = (s', ev)" by fastforce
  with Cons garbler_step_done [OF Cons.prems this] show ?case by simp
qed simp

lemma garbler_run_awaiting:
  "corrected s \<Longrightarrow> garbler_run s ps = [] \<or> (\<exists>cmac. garbler_run s ps = [Verified cmac])"
proof (induction ps arbitrary: s)
  case (Cons p ps)
  obtain s' ev where st: "garbler_step s p = (s', ev)" by fastforce
  with Cons.IH [of s'] garbler_step_awaiting [OF Cons.prems st] garbler_run_done [of s' ps] show ?case
    by auto
qed simp

lemma garbler_run_fresh:
  "\<not> corrected s \<Longrightarrow> \<not> verified s \<Longrightarrow>
    garbler_run s ps = [] \<or> (\<exists>ms. garbler_run s ps = [Corrected ms]) \<or>
    (\<exists>ms cmac. garbler_run s ps = [Corrected ms, Verified cmac])"
proof (induction ps arbitrary: s)
  case (Cons p ps)
  obtain s' ev where st: "garbler_step s p = (s', ev)" by fastforce
  with Cons.IH [of s'] garbler_step_fresh [OF Cons.prems st] garbler_run_done [of s' ps]
    garbler_run_awaiting [of s' ps]
  show ?case by (cases "corrected s'") auto
qed simp

section \<open>Corrections deliver the chosen label\<close>

text \<open>
  A receiver entry matches a sender entry when it holds the pad of its own choice bit, the
  promise of the oblivious-transfer extension.
\<close>

definition ot_match :: "SenderOT \<Rightarrow> ReceiverOT \<Rightarrow> bool" where
  "ot_match so ro \<longleftrightarrow> R ro = (if Choice ro then R1 so else R0 so)"

lemma correction_mask_label:
  assumes "ot_match so ro"
  shows "label_xor (R ro) (if b then M1 (correction_mask so (Choice ro \<noteq> b) w)
      else M0 (correction_mask so (Choice ro \<noteq> b) w)) = wire_label w b"
  using assms
  by (cases b; cases "Choice ro") (simp_all add: ot_match_def correction_mask_def wire_label_def label_algebra)

section \<open>Output verification\<close>

lemma decode_outputs_Inr:
  assumes "length ws = length ls"
  shows "decode_outputs i ws ls = Inr bs \<longleftrightarrow>
    length bs = length ls \<and>
    (\<forall>k < length ls. ls ! k = wire_label (ws ! k) (bs ! k) \<and> (bs ! k \<longrightarrow> ls ! k \<noteq> l0 (ws ! k)))"
  using assms
proof (induction ws ls arbitrary: i bs rule: list_induct2)
  case (Cons w ws l ls)
  show ?case
  proof (cases bs)
    case (Cons b bs')
    with Cons.IH show ?thesis
      by (cases b) (auto simp: All_less_Suc2 wire_label_def)
  qed auto
qed auto

lemma VerifyOutput_Inr:
  assumes "VerifyOutput (Some s) ls = (s', Inr cmac)"
  shows "corrected s" "\<not> verified s" "length ls = OutputBits" "length cmac = 16"
    and "\<forall>k < OutputBits. ls ! k = wire_label (outputWires s ! k) (bytesToBits cmac ! k)"
proof -
  from assms obtain bits where
    *: "corrected s" "\<not> verified s" "length ls = OutputBits" "length (outputWires s) = OutputBits"
      "decode_outputs 0 (outputWires s) ls = Inr bits" "cmac = bitsToBytes bits 16"
    by (auto simp: VerifyOutput_def split: if_splits)
  from *(3,4,5) have bits: "length bits = 8 * 16"
    "\<forall>k < OutputBits. ls ! k = wire_label (outputWires s ! k) (bits ! k)"
    by (simp_all add: decode_outputs_Inr)
  then have "bytesToBits cmac = bits" using *(6) by (simp add: bytesToBits_bitsToBytes)
  with * bits show "corrected s" "\<not> verified s" "length ls = OutputBits" "length cmac = 16"
    "\<forall>k < OutputBits. ls ! k = wire_label (outputWires s ! k) (bytesToBits cmac ! k)"
    by simp_all
qed

section \<open>An honest run\<close>

text \<open>
  The four messages in protocol order, with both parties following the code. The result
  pairs the evaluator's output with the one the garbler verified.
\<close>

definition honest_run ::
  "mpc_error + engine \<Rightarrow> bytes \<Rightarrow> bytes \<Rightarrow> bytes \<Rightarrow> SenderOT list \<Rightarrow> ReceiverOT list \<Rightarrow> u64 \<Rightarrow>
    mpc_error + bytes \<times> bytes" where
  "honest_run eng rng gin ein sots rots start =
     bindE (GarblerOnline eng (Some rng) gin sots start) (\<lambda>(p, gs, rest).
     bindE (EvaluatorPrepare (Some p) ein rots) (\<lambda>(es, corrections).
       case ApplyCorrections (Some gs) corrections of (gs', r_masks) \<Rightarrow>
       bindE r_masks (\<lambda>masks.
       bindE (snd (EvaluatorOnline eng (Some es) masks)) (\<lambda>res.
       bindE (snd (VerifyOutput gs' (OutputLabels res))) (\<lambda>cmac.
         Inr (CMACOutput res, cmac))))))"

definition ots_agree :: "u64 \<Rightarrow> SenderOT list \<Rightarrow> ReceiverOT list \<Rightarrow> bool" where
  "ots_agree start sots rots \<longleftrightarrow>
     length sots = InputBits \<and> length rots = InputBits \<and>
     consecutive start (map sIndex sots) \<and> consecutive start (map rIndex rots) \<and>
     list_all2 ot_match sots rots"

text \<open>The labels of the output wires decode to the plain bits, for either party.\<close>

lemma output_bits_decode:
  assumes sim: "sim r D ws ls v" and r: "permutationBit r"
    and D: "{length ws - n..<length ws} \<subseteq> D" and n: "n \<le> length ws"
  shows "decode_outputs 0 (drop (length ws - n) ws) (drop (length ws - n) ls) =
      Inr (drop (length ws - n) v)"
    and "k < n \<Longrightarrow> permutationBit (drop (length ws - n) ls ! k) \<noteq>
      permutationBit (l0 (drop (length ws - n) ws ! k)) \<longleftrightarrow> drop (length ws - n) v ! k"
proof -
  define m where "m = length ws - n"
  have len: "length ls = length ws" "length v = length ws" using sim by (simp_all add: sim_def)
  have at: "free_xor r (ws ! (m + k))" "ls ! (m + k) = wire_label (ws ! (m + k)) (v ! (m + k))"
    if "k < n" for k
  proof -
    have "m + k \<in> {length ws - n..<length ws}" using that n unfolding m_def atLeastLessThan_iff by linarith
    with D have "m + k \<in> D" by blast
    then show "free_xor r (ws ! (m + k))" "ls ! (m + k) = wire_label (ws ! (m + k)) (v ! (m + k))"
      by (rule simD [OF sim])+
  qed
  have "r \<noteq> label_zero" using r by auto
  then have "l1 (ws ! (m + k)) \<noteq> l0 (ws ! (m + k))" if "k < n" for k
    using at(1) [OF that] by (simp add: free_xor_def lx.xor_eq_self_iff)
  with at len n show "decode_outputs 0 (drop (length ws - n) ws) (drop (length ws - n) ls) =
      Inr (drop (length ws - n) v)"
    by (subst decode_outputs_Inr) (auto simp: m_def wire_label_def)
  show "permutationBit (drop (length ws - n) ls ! k) \<noteq>
      permutationBit (l0 (drop (length ws - n) ws ! k)) \<longleftrightarrow> drop (length ws - n) v ! k" if "k < n"
    using at [OF that] len n r that permutationBit_wire_label [OF at(1) [OF that] r]
    by (auto simp: m_def)
qed

text \<open>
  The garbler's payload and session for a garbling \<open>g\<close>, and the evaluator's session and
  corrections, written out as functions of the garbling.
\<close>

definition payload_of :: "bytes \<Rightarrow> u64 \<Rightarrow> engine \<Rightarrow> garbled \<Rightarrow> bool list \<Rightarrow> OnlinePayload" where
  "payload_of header start e g inputs =
     \<lparr>pSessionID = be_get (slice header 0 8), Key = slice header 8 24, Tables = gtables g,
      GarblerInputs = map (\<lambda>i. wire_label (gwires g ! i) (inputs ! i)) [0..<InputBits],
      OutputTranslations = bitsToBytes (map (\<lambda>w. permutationBit (l0 w))
        (drop (numWires e - OutputBits) (gwires g))) (OutputBits div 8),
      OTStartIndex = start\<rparr>"

definition session_of :: "bytes \<Rightarrow> engine \<Rightarrow> garbled \<Rightarrow> SenderOT list \<Rightarrow> GarblerSession" where
  "session_of header e g sots =
     \<lparr>gSessionID = be_get (slice header 0 8),
      evaluatorWires = slice (gwires g) InputBits (2 * InputBits), otPads = sots,
      outputWires = drop (numWires e - OutputBits) (gwires g), corrected = False, verified = False\<rparr>"

definition evaluator_of :: "OnlinePayload \<Rightarrow> bytes \<Rightarrow> ReceiverOT list \<Rightarrow> EvaluatorSession" where
  "evaluator_of p ein rots =
     \<lparr>eSessionID = pSessionID p, payload = Some p, inputBits = bytesToBits ein, ots = rots,
      evaluated = False\<rparr>"

definition corrections_of :: "bytes \<Rightarrow> ReceiverOT list \<Rightarrow> bool list" where
  "corrections_of ein rots = map (\<lambda>i. Choice (rots ! i) \<noteq> bytesToBits ein ! i) [0..<InputBits]"

definition masks_of :: "garbled \<Rightarrow> SenderOT list \<Rightarrow> bool list \<Rightarrow> OTMask list" where
  "masks_of g sots corr =
     map (\<lambda>i. correction_mask (sots ! i) (corr ! i) (gwires g ! (InputBits + i))) [0..<InputBits]"

lemma garbler_honest:
  assumes "length sots = InputBits" "validateSenderOTIndices sots start = Inr ()"
    and "24 \<le> length rng" "length gin = 80"
    and "garble e (Some (drop 24 rng)) (slice (take 24 rng) 8 24) = Inr (g, rest)"
  shows "GarblerOnline (Inr e) (Some rng) gin sots start =
    Inr (payload_of (take 24 rng) start e g (bytesToBits gin @ bytesToBits ein),
      session_of (take 24 rng) e g sots, rest)"
proof -
  have "map (\<lambda>i. if bytesToBits gin ! i then l1 (gwires g ! i) else l0 (gwires g ! i)) [0..<InputBits] =
      map (\<lambda>i. wire_label (gwires g ! i) ((bytesToBits gin @ bytesToBits ein) ! i)) [0..<InputBits]"
    using assms(4) by (simp add: nth_append wire_label_def)
  then show ?thesis
    using assms by (simp add: GarblerOnline_def readFull_def payload_of_def session_of_def Let_def)
qed

lemma evaluator_prepare_honest:
  assumes "length rots = InputBits" "validateReceiverOTIndices rots start = Inr ()"
  shows "EvaluatorPrepare (Some (payload_of header start e g inputs)) ein rots =
    Inr (evaluator_of (payload_of header start e g inputs) ein rots, corrections_of ein rots)"
  using assms
  by (simp add: EvaluatorPrepare_def evaluator_of_def corrections_of_def payload_of_def Let_def)

lemma corrections_honest:
  assumes "length sots = InputBits" "2 * InputBits \<le> length (gwires g)"
  shows "ApplyCorrections (Some (session_of header e g sots)) (corrections_of ein rots) =
    (Some ((session_of header e g sots)\<lparr>corrected := True, evaluatorWires := [], otPads := []\<rparr>),
     Inr (masks_of g sots (corrections_of ein rots)))"
  using assms by (simp add: ApplyCorrections_def session_of_def corrections_of_def masks_of_def nth_slice)

lemma chosen_label:
  fixes g :: garbled
  assumes "list_all2 ot_match sots rots" "length rots = InputBits" "i < InputBits"
    and "length gin = 80" "length ein = 80"
  defines "masks \<equiv> masks_of g sots (corrections_of ein rots)"
  shows "label_xor (R (rots ! i)) (if bytesToBits ein ! i then M1 (masks ! i) else M0 (masks ! i)) =
    wire_label (gwires g ! (InputBits + i)) ((bytesToBits gin @ bytesToBits ein) ! (InputBits + i))"
proof -
  have "ot_match (sots ! i) (rots ! i)" using assms(1-3) by (simp add: list_all2_conv_all_nth)
  from correction_mask_label [OF this, of "bytesToBits ein ! i" "gwires g ! (InputBits + i)"]
  show ?thesis
    using assms(2-)
    by (cases "bytesToBits ein ! i") (simp_all add: masks_of_def corrections_of_def nth_append)
qed

lemma starting_labels:
  fixes g :: garbled
  assumes "list_all2 ot_match sots rots" "length rots = InputBits"
    and "length gin = 80" "length ein = 80"
  defines "inputs \<equiv> bytesToBits gin @ bytesToBits ein"
    and "masks \<equiv> masks_of g sots (corrections_of ein rots)"
  shows "GarblerInputs (payload_of header start e g inputs) @ map (\<lambda>i. label_xor (R (rots ! i))
      (if bytesToBits ein ! i then M1 (masks ! i) else M0 (masks ! i))) [0..<InputBits]
    @ replicate (numWires e - 2 * InputBits) label_zero = input_labels e g inputs"
proof -
  have "[0..<2 * k] = [0..<k] @ map (\<lambda>i. i + k) [0..<k]" for k :: nat
    using upt_add_eq_append [of 0 k k] map_add_upt [of k k] by (simp add: mult_2)
  then show ?thesis
    unfolding input_labels_def payload_of_def inputs_def masks_def
    using chosen_label [OF assms(1,2) _ assms(3,4)]
    by (simp add: add.commute [of _ InputBits] del: InputBits_val)
qed

lemma evaluator_honest:
  fixes start :: u64
  assumes "evaluate e (slice header 8 24) (input_labels e g inputs) (gtables g) = Inr ls"
    and "list_all2 ot_match sots rots" "length rots = InputBits" "length gin = 80" "length ein = 80"
    and "2 * InputBits \<le> numWires e" and inputs: "inputs = bytesToBits gin @ bytesToBits ein"
  defines "p \<equiv> payload_of header start e g inputs"
  shows "snd (EvaluatorOnline (Inr e) (Some (evaluator_of p ein rots))
      (masks_of g sots (corrections_of ein rots))) =
    Inr \<lparr>CMACOutput = bitsToBytes (map (\<lambda>i. permutationBit (drop (numWires e - OutputBits) ls ! i)
        \<noteq> bytesToBits (OutputTranslations p) ! i) [0..<OutputBits]) 16,
      OutputLabels = drop (numWires e - OutputBits) ls\<rparr>"
proof -
  have "length (masks_of g sots (corrections_of ein rots)) = InputBits"
    "length (GarblerInputs p) = InputBits" "Key p = slice header 8 24" "Tables p = gtables g"
    by (simp_all add: masks_of_def p_def payload_of_def)
  moreover note starting_labels [OF assms(2-5), of header start e g, folded inputs, folded p_def]
  ultimately show ?thesis
    using assms(1,3,6) by (simp add: EvaluatorOnline_def evaluator_of_def Let_def)
qed

lemma translated_bits:
  assumes sim: "sim r D (gwires g) ls v" and r: "permutationBit r"
    and D: "{numWires e - OutputBits..<numWires e} \<subseteq> D"
    and len: "length (gwires g) = numWires e" "OutputBits \<le> numWires e"
  shows "map (\<lambda>i. permutationBit (drop (numWires e - OutputBits) ls ! i)
      \<noteq> bytesToBits (OutputTranslations (payload_of header start e g inputs)) ! i) [0..<OutputBits] =
    drop (numWires e - OutputBits) v"
proof (rule nth_equalityI)
  fix k assume "k < length (map (\<lambda>i. permutationBit (drop (numWires e - OutputBits) ls ! i)
      \<noteq> bytesToBits (OutputTranslations (payload_of header start e g inputs)) ! i) [0..<OutputBits])"
  then have k: "k < OutputBits" by simp
  note decoded = output_bits_decode(2) [OF sim r, unfolded len(1), OF D len(2) k]
  have "length (map (\<lambda>w. permutationBit (l0 w)) (drop (numWires e - OutputBits) (gwires g))) =
      8 * (OutputBits div 8)"
    using len by simp
  then have "bytesToBits (OutputTranslations (payload_of header start e g inputs)) ! k =
      permutationBit (l0 (drop (numWires e - OutputBits) (gwires g) ! k))"
    using k len by (simp add: payload_of_def bytesToBits_bitsToBytes)
  with decoded k show "map (\<lambda>i. permutationBit (drop (numWires e - OutputBits) ls ! i)
      \<noteq> bytesToBits (OutputTranslations (payload_of header start e g inputs)) ! i) [0..<OutputBits] ! k =
    drop (numWires e - OutputBits) v ! k"
    by simp
qed (use sim len in \<open>simp add: sim_def\<close>)

lemma honest_run_correct:
  assumes wf: "wf_engine e" and ots: "ots_agree start sots rots"
    and len: "length gin = 80" "length ein = 80" and rng: "24 + (16 + 2 * InputBits * 16) \<le> length rng"
  defines "cmac \<equiv> bitsToBytes (circuit_output e (bytesToBits gin @ bytesToBits ein)) 16"
  shows "honest_run (Inr e) rng gin ein sots rots start = Inr (cmac, cmac)"
proof -
  define inputs where "inputs = bytesToBits gin @ bytesToBits ein"
  define header where "header = take 24 rng"
  have il: "length inputs = 2 * InputBits" using len by (simp add: inputs_def)
  have "16 + 2 * InputBits * 16 \<le> length (drop 24 rng)" using rng by simp
  from garble_evaluate [OF wf il this] obtain g r ls
    where g: "garble e (Some (drop 24 rng)) (slice header 8 24) =
        Inr (g, drop (16 + 2 * InputBits * 16) (drop 24 rng))"
      "length (gwires g) = numWires e" and r: "permutationBit r"
      and ev: "evaluate e (slice header 8 24) (input_labels e g inputs) (gtables g) = Inr ls"
      and sim: "sim r ({..<2 * InputBits} \<union> {numWires e - OutputBits..<numWires e}) (gwires g) ls
        (plain_eval e inputs)"
    by blast
  have n: "2 * InputBits \<le> numWires e" "OutputBits \<le> numWires e" using wf by (simp_all add: wf_engine_def)
  have so: "length sots = InputBits" "length rots = InputBits" "list_all2 ot_match sots rots"
    "validateSenderOTIndices sots start = Inr ()" "validateReceiverOTIndices rots start = Inr ()"
    using ots by (simp_all add: ots_agree_def validateSenderOTIndices_Inr validateReceiverOTIndices_Inr)
  have garbler: "GarblerOnline (Inr e) (Some rng) gin sots start =
      Inr (payload_of header start e g inputs, session_of header e g sots,
        drop (16 + 2 * InputBits * 16) (drop 24 rng))"
    using garbler_honest [OF so(1,4) _ len(1)] g(1) rng by (simp add: header_def inputs_def)
  have "2 * InputBits \<le> length (gwires g)" using g(2) n by simp
  note corr = corrections_honest [OF so(1) this]
  note online = evaluator_honest [OF ev so(3,2) len n(1) inputs_def,
      unfolded translated_bits [OF sim r Un_upper2 g(2) n(2)]]
  have "snd (VerifyOutput (Some ((session_of header e g sots)\<lparr>corrected := True, evaluatorWires := [],
      otPads := []\<rparr>)) (drop (numWires e - OutputBits) ls)) = Inr cmac"
    using output_bits_decode(1) [OF sim r, unfolded g(2), OF Un_upper2 n(2)] n sim g(2)
    by (simp add: VerifyOutput_def session_of_def sim_def cmac_def inputs_def circuit_output_def)
  moreover have "cmac = bitsToBytes (drop (numWires e - OutputBits) (plain_eval e inputs)) 16"
    by (simp add: cmac_def inputs_def circuit_output_def)
  ultimately show ?thesis
    by (simp add: honest_run_def garbler evaluator_prepare_honest [OF so(2,5)] corr online)
qed

end
