(* ===== verification/Ot_Pools.thy ===== *)
theory Ot_Pools
  imports Oprf_Online
begin

text \<open>
  The append-only pools of precomputed oblivious transfers, \<open>mpc/pool.go\<close>: the garbler's
  \<open>SenderPool\<close>, which hands out consecutive ranges, and the evaluator's \<open>ReceiverPool\<close>,
  which accepts disjoint ranges in any order and rejects replays.

  Each exported method holds the pool's mutex for its whole body, so a concurrent history
  is a sequence of these operations. Slice capacities are not part of the pool records;
  \<open>appendWithWipedGrowth\<close> is modelled on explicit backing arrays on its own.
\<close>

section \<open>Sender pool\<close>

definition OTPoolInitialSize :: nat where "OTPoolInitialSize = 100000"
definition OTPoolWatermark :: nat where "OTPoolWatermark = 50000"
definition MaxPrecomputeOTs :: nat where "MaxPrecomputeOTs = OTPoolInitialSize"

definition ValidatePrecomputeCount :: "int \<Rightarrow> mpc_error + unit" where
  "ValidatePrecomputeCount count =
     (if count \<le> 0 \<or> count > int MaxPrecomputeOTs then Inl (Pool UnsupportedPrecomputeCount)
      else Inr ())"

text \<open>
  An extension claim is compared by pointer identity; a fresh allocation is a number never
  used before, drawn from \<open>claimSupply\<close>.
\<close>

record SenderPool =
  sEntries :: "SenderOT list"
  sBase :: u64
  sNext :: u64
  extendClaim :: "nat option"
  claimSupply :: nat

definition sender_ot_zero :: SenderOT where
  "sender_ot_zero = \<lparr>R0 = label_zero, R1 = label_zero, sIndex = 0\<rparr>"

definition NewSenderPool :: SenderPool where
  "NewSenderPool = \<lparr>sEntries = [], sBase = 0, sNext = 0, extendClaim = None, claimSupply = 0\<rparr>"

definition sender_total :: "SenderPool \<Rightarrow> mpc_error + u64" where
  "sender_total p =
     (case checkedIndexEnd (sBase p) (int (length (sEntries p))) of
        Inl _ \<Rightarrow> Inl (Pool InvalidPoolFrontier)
      | Inr tot \<Rightarrow>
          if sNext p < sBase p \<or> sNext p > tot then Inl (Pool InvalidPoolFrontier) else Inr tot)"

definition sender_validate_add :: "SenderPool \<Rightarrow> SenderOT list \<Rightarrow> mpc_error + unit" where
  "sender_validate_add p es =
     bindE (sender_total p) (\<lambda>start.
     bindE (checkedIndexEnd start (int (length es))) (\<lambda>_.
       validateSenderOTIndices es start))"

definition sender_add :: "SenderPool \<Rightarrow> SenderOT list \<Rightarrow> SenderPool \<times> (mpc_error + unit)" where
  "sender_add p es =
     (case sender_validate_add p es of
        Inl e \<Rightarrow> (p, Inl e)
      | Inr _ \<Rightarrow> (p\<lparr>sEntries := sEntries p @ es\<rparr>, Inr ()))"

definition sender_compact :: "SenderPool \<Rightarrow> SenderPool" where
  "sender_compact p =
     (let consumed = sNext p - sBase p in
      if consumed < of_nat OTPoolWatermark \<and> consumed < of_nat (length (sEntries p) div 2) then p
      else p\<lparr>sEntries := drop (unat consumed) (sEntries p), sBase := sNext p\<rparr>)"

definition sender_reserve ::
  "SenderPool \<Rightarrow> int \<Rightarrow> SenderPool \<times> (mpc_error + u64 \<times> SenderOT list)" where
  "sender_reserve p count =
     (if count \<le> 0 then (p, Inl (Pool InvalidOTCount))
      else if sNext p < sBase p then (p, Inl (Pool InvalidPoolState))
      else case sender_total p of
        Inl e \<Rightarrow> (p, Inl e)
      | Inr tot \<Rightarrow>
          (case checkedIndexEnd (sNext p) count of
             Inl e \<Rightarrow> (p, Inl e)
           | Inr e \<Rightarrow>
               if e > tot then (p, Inl (Pool InsufficientOTs))
               else let start = sNext p; offset = unat (start - sBase p);
                        result = slice (sEntries p) offset (offset + nat count);
                        p' = p\<lparr>sEntries := clear_range sender_ot_zero (sEntries p) offset (nat count),
                               sNext := e\<rparr>
                    in (sender_compact p', Inr (start, result))))"

definition sender_clear_locked :: "SenderPool \<Rightarrow> SenderPool" where
  "sender_clear_locked p = p\<lparr>sEntries := [], sBase := 0, sNext := 0\<rparr>"

definition sender_clear :: "SenderPool \<Rightarrow> SenderPool" where
  "sender_clear p = (sender_clear_locked p)\<lparr>extendClaim := None\<rparr>"

definition sender_clear_for_extend_failure :: "SenderPool \<Rightarrow> nat option \<Rightarrow> SenderPool \<times> bool" where
  "sender_clear_for_extend_failure p claim =
     (if claim = None \<or> extendClaim p \<noteq> claim then (p, False) else (sender_clear_locked p, True))"

definition sender_available :: "SenderPool \<Rightarrow> nat" where
  "sender_available p =
     (case sender_total p of Inl _ \<Rightarrow> 0 | Inr tot \<Rightarrow> unat (tot - sNext p))"

definition sender_total_count :: "SenderPool \<Rightarrow> u64" where
  "sender_total_count p = (case sender_total p of Inl _ \<Rightarrow> 0 | Inr tot \<Rightarrow> tot)"

definition sender_needs_extend :: "SenderPool \<Rightarrow> bool" where
  "sender_needs_extend p =
     (case sender_total p of
        Inl _ \<Rightarrow> False
      | Inr tot \<Rightarrow> unat (tot - sNext p) < OTPoolWatermark \<and> extendClaim p = None)"

definition sender_claim_extend :: "SenderPool \<Rightarrow> SenderPool \<times> nat option" where
  "sender_claim_extend p =
     (case sender_total p of
        Inl _ \<Rightarrow> (p, None)
      | Inr tot \<Rightarrow>
          let available = unat (tot - sNext p) in
          if available \<ge> OTPoolWatermark \<or> extendClaim p \<noteq> None then (p, None)
          else (p\<lparr>extendClaim := Some (claimSupply p), claimSupply := Suc (claimSupply p)\<rparr>,
                Some (claimSupply p)))"

definition sender_is_extend_pending :: "SenderPool \<Rightarrow> bool" where
  "sender_is_extend_pending p \<longleftrightarrow> extendClaim p \<noteq> None"

definition sender_owns_claim :: "SenderPool \<Rightarrow> nat option \<Rightarrow> bool" where
  "sender_owns_claim p claim \<longleftrightarrow> claim \<noteq> None \<and> extendClaim p = claim"

definition sender_release_claim :: "SenderPool \<Rightarrow> nat option \<Rightarrow> SenderPool \<times> bool" where
  "sender_release_claim p claim =
     (if claim = None \<or> extendClaim p \<noteq> claim then (p, False)
      else (p\<lparr>extendClaim := None\<rparr>, True))"

definition sender_invalidate_claim :: "SenderPool \<Rightarrow> SenderPool" where
  "sender_invalidate_claim p = p\<lparr>extendClaim := None\<rparr>"

section \<open>Receiver pool\<close>

record ReceiverPool =
  rEntries :: "ReceiverOT list"
  used :: "bool list"
  rBase :: u64
  highWater :: u64
  availableCount :: int

definition receiver_ot_zero :: ReceiverOT where
  "receiver_ot_zero = \<lparr>R = label_zero, rIndex = 0, Choice = False\<rparr>"

definition NewReceiverPool :: ReceiverPool where
  "NewReceiverPool = \<lparr>rEntries = [], used = [], rBase = 0, highWater = 0, availableCount = 0\<rparr>"

definition receiver_total :: "ReceiverPool \<Rightarrow> mpc_error + u64" where
  "receiver_total p =
     (case checkedIndexEnd (rBase p) (int (length (rEntries p))) of
        Inl _ \<Rightarrow> Inl (Pool InvalidPoolFrontier)
      | Inr tot \<Rightarrow>
          if length (used p) \<noteq> length (rEntries p) \<or> availableCount p < 0 \<or>
             availableCount p > int (length (rEntries p)) \<or>
             highWater p < rBase p \<or> highWater p > tot
          then Inl (Pool InvalidPoolFrontier) else Inr tot)"

definition receiver_add :: "ReceiverPool \<Rightarrow> ReceiverOT list \<Rightarrow> ReceiverPool \<times> (mpc_error + unit)" where
  "receiver_add p es =
     (case bindE (receiver_total p) (\<lambda>start.
             bindE (checkedIndexEnd start (int (length es))) (\<lambda>_.
               validateReceiverOTIndices es start)) of
        Inl e \<Rightarrow> (p, Inl e)
      | Inr _ \<Rightarrow>
          (p\<lparr>rEntries := rEntries p @ es, used := used p @ replicate (length es) False,
             availableCount := availableCount p + int (length es)\<rparr>, Inr ()))"

definition first_used :: "bool list \<Rightarrow> nat \<Rightarrow> nat \<Rightarrow> nat option" where
  "first_used us offset count = find (\<lambda>i. us ! i) [offset..<offset + count]"

definition receiver_validate_consumable :: "ReceiverPool \<Rightarrow> u64 \<Rightarrow> int \<Rightarrow> mpc_error + unit" where
  "receiver_validate_consumable p start count =
     (if count \<le> 0 then Inl (Pool InvalidOTCount)
      else if start < rBase p then Inl (Pool BeforeRetainedIndex)
      else bindE (receiver_total p) (\<lambda>tot.
        bindE (checkedIndexEnd start count) (\<lambda>e.
          if e > tot then Inl (Pool InsufficientOTs)
          else let offset = unat (start - rBase p) in
            case first_used (used p) offset (nat count) of
              Some i \<Rightarrow> Inl (Pool (OTAlreadyUsed (start + of_nat (i - offset))))
            | None \<Rightarrow> Inr ())))"

fun leading_used :: "bool list \<Rightarrow> nat" where
  "leading_used (True # us) = Suc (leading_used us)"
| "leading_used us = 0"

definition receiver_compact :: "ReceiverPool \<Rightarrow> ReceiverPool" where
  "receiver_compact p =
     (let consumed = leading_used (used p) in
      if consumed < OTPoolWatermark \<and> consumed < length (rEntries p) div 2 then p
      else p\<lparr>rEntries := drop consumed (rEntries p), used := drop consumed (used p),
             rBase := rBase p + of_nat consumed\<rparr>)"

definition receiver_consume ::
  "ReceiverPool \<Rightarrow> u64 \<Rightarrow> int \<Rightarrow> ReceiverPool \<times> (mpc_error + ReceiverOT list)" where
  "receiver_consume p start count =
     (case receiver_validate_consumable p start count of
        Inl e \<Rightarrow> (p, Inl e)
      | Inr _ \<Rightarrow>
          let e = start + of_int count;
              offset = unat (start - rBase p);
              result = slice (rEntries p) offset (offset + nat count);
              p' = p\<lparr>used := clear_range True (used p) offset (nat count),
                     rEntries := clear_range receiver_ot_zero (rEntries p) offset (nat count),
                     availableCount := availableCount p - count,
                     highWater := (if e > highWater p then e else highWater p)\<rparr>
          in (receiver_compact p', Inr result))"

definition receiver_advance_to :: "ReceiverPool \<Rightarrow> u64 \<Rightarrow> ReceiverPool \<times> (mpc_error + unit)" where
  "receiver_advance_to p nxt =
     (case receiver_total p of
        Inl e \<Rightarrow> (p, Inl e)
      | Inr tot \<Rightarrow>
          if nxt < highWater p \<or> nxt > tot then (p, Inl (Pool ResumeOutsideRange))
          else let e = unat (nxt - rBase p);
                   dropped = length (filter Not (take e (used p)));
                   p' = p\<lparr>used := clear_range True (used p) 0 e,
                          availableCount := availableCount p - int dropped,
                          rEntries := clear_range receiver_ot_zero (rEntries p) 0 e,
                          highWater := nxt\<rparr>
               in (receiver_compact p', Inr ()))"

definition receiver_clear :: "ReceiverPool \<Rightarrow> ReceiverPool" where
  "receiver_clear p =
     p\<lparr>rEntries := [], used := [], rBase := 0, highWater := 0, availableCount := 0\<rparr>"

definition receiver_available :: "ReceiverPool \<Rightarrow> int" where
  "receiver_available p = (case receiver_total p of Inl _ \<Rightarrow> 0 | Inr _ \<Rightarrow> availableCount p)"

definition receiver_total_count :: "ReceiverPool \<Rightarrow> u64" where
  "receiver_total_count p = (case receiver_total p of Inl _ \<Rightarrow> 0 | Inr tot \<Rightarrow> tot)"

definition ValidatePoolAgreement ::
  "SenderPool option \<Rightarrow> ReceiverPool option \<Rightarrow> mpc_error + unit" where
  "ValidatePoolAgreement sender receiver =
     (case (sender, receiver) of
        (Some s, Some r) \<Rightarrow>
          if sender_total_count s \<noteq> receiver_total_count r \<or> sNext s \<noteq> highWater r
          then Inl (Pool PoolsDisagree) else Inr ()
      | _ \<Rightarrow> Inl (Pool NilPool))"

section \<open>Growing a slice\<close>

text \<open>
  A Go slice with its backing array: the elements are the first \<open>len\<close> of \<open>backing\<close>, and the
  capacity is the length of \<open>backing\<close>. The result is the new slice and, after a
  reallocation, the contents of the abandoned array.
\<close>

record 'a go_slice =
  backing :: "'a list"
  len :: nat

definition elems :: "'a go_slice \<Rightarrow> 'a list" where
  "elems s = take (len s) (backing s)"

definition appendWithWipedGrowth ::
  "'a \<Rightarrow> 'a go_slice \<Rightarrow> 'a list \<Rightarrow> 'a go_slice \<times> 'a list option" where
  "appendWithWipedGrowth z dst src =
     (if length src \<le> length (backing dst) - len dst
      then (\<lparr>backing = take (len dst) (backing dst) @ src
               @ drop (len dst + length src) (backing dst), len = len dst + length src\<rparr>, None)
      else let cap = length (backing dst); needed = len dst + length src;
               newCap = (if cap \<le> (2 ^ 63 - 1) div 2 \<and> cap * 2 > needed then cap * 2 else needed)
           in (\<lparr>backing = elems dst @ src @ replicate (newCap - needed) z, len = needed\<rparr>,
               Some (replicate cap z)))"

lemma wiped_growth_elems:
  assumes "len dst \<le> length (backing dst)"
  shows "elems (fst (appendWithWipedGrowth z dst src)) = elems dst @ src"
    and "snd (appendWithWipedGrowth z dst src) = Some old \<Longrightarrow> old = replicate (length (backing dst)) z"
  using assms by (auto simp: appendWithWipedGrowth_def elems_def Let_def split: if_splits)

section \<open>The sender pool is a queue\<close>

text \<open>
  The abstract state: the frontier, that is the next index to hand out, and the entries
  that remain, in order.
\<close>

definition sender_offset :: "SenderPool \<Rightarrow> nat" where
  "sender_offset p = unat (sNext p) - unat (sBase p)"

definition remaining :: "SenderPool \<Rightarrow> SenderOT list" where
  "remaining p = drop (sender_offset p) (sEntries p)"

text \<open>
  The invariant: the frontier lies inside the retained window, indices do not wrap, the
  entries from the frontier on carry their own index, and every entry that was handed out
  has been overwritten with zeros.
\<close>

definition sender_inv :: "SenderPool \<Rightarrow> bool" where
  "sender_inv p \<longleftrightarrow>
     sBase p \<le> sNext p \<and> sender_offset p \<le> length (sEntries p) \<and>
     unat (sBase p) + length (sEntries p) < 2 ^ 64 \<and> length (sEntries p) \<le> 2 ^ 62 \<and>
     consecutive (sNext p) (map sIndex (remaining p)) \<and>
     (\<forall>k < sender_offset p. sEntries p ! k = sender_ot_zero)"

lemma NewSenderPool_inv: "sender_inv NewSenderPool" "remaining NewSenderPool = []"
  by (simp_all add: sender_inv_def remaining_def NewSenderPool_def sender_offset_def consecutive_def)

lemma sender_clear_inv: "sender_inv (sender_clear p)" "remaining (sender_clear p) = []"
  "sNext (sender_clear p) = 0"
  by (simp_all add: sender_inv_def remaining_def sender_clear_def sender_clear_locked_def
      sender_offset_def consecutive_def)

lemma sender_invD:
  assumes "sender_inv p"
  shows "unat (sBase p) \<le> unat (sNext p)" "unat (sNext p) = unat (sBase p) + sender_offset p"
    "unat (sNext p - sBase p) = sender_offset p"
    "unat (sNext p) + length (remaining p) = unat (sBase p) + length (sEntries p)"
    "unat (sNext p) + length (remaining p) < 2 ^ 64" "length (remaining p) \<le> 2 ^ 62"
  using assms
  by (auto simp: sender_inv_def sender_offset_def remaining_def word_le_nat_alt unat_sub)

lemma sender_total_inv:
  assumes "sender_inv p"
  shows "sender_total p = Inr (sNext p + of_nat (length (remaining p)))"
    and "unat (sNext p + of_nat (length (remaining p))) = unat (sNext p) + length (remaining p)"
proof -
  note d = sender_invD [OF assms]
  have len: "length (sEntries p) \<le> 2 ^ 62" using assms by (simp add: sender_inv_def)
  show u: "unat (sNext p + of_nat (length (remaining p))) = unat (sNext p) + length (remaining p)"
    using d(5) by (simp add: unat_word_ariths unat_of_nat)
  have "checkedIndexEnd (sBase p) (int (length (sEntries p))) =
      Inr (sNext p + of_nat (length (remaining p)))"
    using d u is_go_int_small [OF len] by (simp add: checkedIndexEnd_Inr)
  then show "sender_total p = Inr (sNext p + of_nat (length (remaining p)))"
    using d(1) u by (simp add: sender_total_def word_less_nat_alt not_less)
qed

lemma sender_compact_same:
  assumes "sender_inv p"
  shows "sender_inv (sender_compact p)" "remaining (sender_compact p) = remaining p"
    "sNext (sender_compact p) = sNext p"
proof -
  define q where "q = p\<lparr>sEntries := remaining p, sBase := sNext p\<rparr>"
  have cases: "sender_compact p = p \<or> sender_compact p = q"
    unfolding sender_compact_def Let_def sender_invD(3) [OF assms] q_def remaining_def by simp
  have off: "sender_offset q = 0" by (simp add: q_def sender_offset_def)
  then have rem: "remaining q = remaining p" by (simp add: remaining_def [of q]) (simp add: q_def)
  have "unat (sBase q) + length (sEntries q) < 2 ^ 64" "length (sEntries q) \<le> 2 ^ 62"
    using sender_invD(5,6) [OF assms] by (simp_all add: q_def)
  moreover have "sBase q \<le> sNext q" "sNext q = sNext p" by (simp_all add: q_def)
  ultimately have "sender_inv q"
    using assms unfolding sender_inv_def off rem by simp
  with cases rem assms show "sender_inv (sender_compact p)"
    "remaining (sender_compact p) = remaining p" "sNext (sender_compact p) = sNext p"
    by (auto simp: q_def)
qed

lemma consecutive_append:
  "consecutive start (xs @ ys) \<longleftrightarrow>
    consecutive start xs \<and> consecutive (start + of_nat (length xs)) ys"
proof (cases "unat start + length xs < 2 ^ 64")
  case True
  then have "unat (start + of_nat (length xs)) = unat start + length xs"
    by (simp add: unat_word_ariths unat_of_nat)
  moreover have "(\<forall>k < length (xs @ ys). (xs @ ys) ! k = start + of_nat k) \<longleftrightarrow>
      (\<forall>k < length xs. xs ! k = start + of_nat k) \<and>
      (\<forall>k < length ys. ys ! k = start + of_nat (length xs) + of_nat k)"
    (is "?l \<longleftrightarrow> ?r")
  proof
    assume l: ?l
    have "ys ! k = start + of_nat (length xs) + of_nat k" if "k < length ys" for k
      using l [rule_format, of "length xs + k"] that by (simp add: add.assoc)
    moreover have "xs ! k = start + of_nat k" if "k < length xs" for k
      using l [rule_format, of k] that by (simp add: nth_append)
    ultimately show ?r by blast
  next
    assume r: ?r
    have "(xs @ ys) ! k = start + of_nat k" if "k < length (xs @ ys)" for k
    proof (cases "k < length xs")
      case False
      then have "start + of_nat k = start + of_nat (length xs) + of_nat (k - length xs)"
        by (simp flip: of_nat_add)
      with False that r show ?thesis by (simp add: nth_append)
    qed (use r in \<open>simp add: nth_append\<close>)
    then show ?l by blast
  qed
  ultimately show ?thesis using True unfolding consecutive_def by auto
qed (simp add: consecutive_def)

lemma sender_validate_add_iff:
  assumes inv: "sender_inv p" and small: "length es \<le> 2 ^ 62"
  shows "sender_validate_add p es = Inr () \<longleftrightarrow> consecutive (sNext p) (map sIndex (remaining p @ es))"
proof -
  note t = sender_total_inv [OF inv]
  let ?start = "sNext p + of_nat (length (remaining p))"
  have "consecutive ?start (map sIndex es) \<Longrightarrow>
      \<exists>x. checkedIndexEnd ?start (int (length es)) = Inr x"
    using is_go_int_small [OF small] by (simp add: checkedIndexEnd_ok consecutive_def)
  then show ?thesis
    using inv validateSenderOTIndices_Inr [OF small, of ?start "()"]
    by (auto simp: sender_validate_add_def t(1) sender_inv_def consecutive_append)
qed

lemma sender_add_refines:
  assumes inv: "sender_inv p" and fits: "length (sEntries p) + length es \<le> 2 ^ 62"
    and add: "sender_add p es = (p', Inr ())"
  shows "sender_inv p'" "remaining p' = remaining p @ es" "sNext p' = sNext p"
proof -
  have small: "length es \<le> 2 ^ 62" using fits by simp
  from add have v: "sender_validate_add p es = Inr ()" and p': "p' = p\<lparr>sEntries := sEntries p @ es\<rparr>"
    by (auto simp: sender_add_def split: sum.splits)
  have c: "consecutive (sNext p) (map sIndex (remaining p @ es))"
    using v unfolding sender_validate_add_iff [OF inv small] .
  have off: "sender_offset p' = sender_offset p" by (simp add: p' sender_offset_def)
  have le: "sender_offset p \<le> length (sEntries p)" using inv by (simp add: sender_inv_def)
  then show rem: "remaining p' = remaining p @ es" by (simp add: remaining_def off) (simp add: p')
  show "sNext p' = sNext p" by (simp add: p')
  have "unat (sBase p) + (length (sEntries p) + length es) < 2 ^ 64"
    using c sender_invD(4) [OF inv] by (simp add: consecutive_def)
  with inv c le fits show "sender_inv p'"
    unfolding sender_inv_def rem off by (auto simp: p' nth_append)
qed

lemma sender_reserve_insufficient:
  assumes inv: "sender_inv p" and count: "is_go_int count" "int (length (remaining p)) < count"
  shows "\<exists>e. sender_reserve p count = (p, Inl e)"
proof -
  note t = sender_total_inv [OF inv]
  have "e > sNext p + of_nat (length (remaining p))" if "checkedIndexEnd (sNext p) count = Inr e" for e
    using that count t(2) by (simp add: checkedIndexEnd_Inr word_less_nat_alt)
  then show ?thesis
    using sender_invD(1) [OF inv] count
    by (cases "checkedIndexEnd (sNext p) count")
      (auto simp: sender_reserve_def t(1) word_less_nat_alt)
qed

lemma consecutive_drop:
  assumes "consecutive start xs" "n \<le> length xs"
  shows "consecutive (start + of_nat n) (drop n xs)"
proof -
  have "consecutive start (take n xs @ drop n xs)" using assms by simp
  with assms(2) show ?thesis unfolding consecutive_append by simp
qed

lemma consecutive_take: "consecutive start xs \<Longrightarrow> consecutive start (take n xs)"
  by (auto simp: consecutive_def)

lemma sender_reserve_refines:
  assumes inv: "sender_inv p"
    and count: "0 < count" "is_go_int count" "count \<le> int (length (remaining p))"
  obtains p' where
    "sender_reserve p count = (p', Inr (sNext p, take (nat count) (remaining p)))"
    "sender_inv p'" "remaining p' = drop (nat count) (remaining p)"
    "sNext p' = sNext p + of_nat (nat count)" "length (sEntries p') \<le> length (sEntries p)"
proof -
  define m where "m = nat count"
  note d = sender_invD [OF inv] and t = sender_total_inv [OF inv]
  have m: "m \<le> length (remaining p)" "0 < m" "count = int m" using count by (simp_all add: m_def)
  have le: "sender_offset p \<le> length (sEntries p)" using inv by (simp add: sender_inv_def)
  have window: "sender_offset p + m \<le> length (sEntries p)"
    using m le by (simp add: remaining_def)
  have e: "checkedIndexEnd (sNext p) count = Inr (sNext p + of_nat m)"
    and ue: "unat (sNext p + of_nat m) = unat (sNext p) + m"
  proof -
    have lt: "unat (sNext p) + m < 2 ^ 64" using d(5) m(1) by linarith
    then show "unat (sNext p + of_nat m) = unat (sNext p) + m"
      by (simp add: unat_word_ariths unat_of_nat)
    show "checkedIndexEnd (sNext p) count = Inr (sNext p + of_nat m)"
      using checkedIndexEnd_sum [of count "sNext p"] count(1,2) m(3) lt by simp
  qed
  define q where "q = p\<lparr>sEntries := clear_range sender_ot_zero (sEntries p) (sender_offset p) m,
      sNext := sNext p + of_nat m\<rparr>"
  have "\<not> sNext p + of_nat m > sNext p + of_nat (length (remaining p))"
    using ue t(2) m by (simp add: word_less_nat_alt)
  moreover have "\<not> sNext p < sBase p" using d(1) by (simp add: word_less_nat_alt)
  ultimately have r: "sender_reserve p count =
      (sender_compact q, Inr (sNext p, slice (sEntries p) (sender_offset p) (sender_offset p + m)))"
    using count(1) by (simp add: sender_reserve_def t(1) e d(3) Let_def q_def m_def)
  have off: "sender_offset q = sender_offset p + m"
    using ue d(1) by (simp add: q_def sender_offset_def)
  have rem: "remaining q = drop m (remaining p)"
  proof -
    have "remaining q = drop (sender_offset p + m) (sEntries p)"
      unfolding remaining_def off using window by (simp add: q_def drop_clear_range)
    then show ?thesis by (simp add: remaining_def add.commute)
  qed
  have "consecutive (sNext q) (map sIndex (remaining q))"
    unfolding rem using inv consecutive_drop [of "sNext p" "map sIndex (remaining p)" m] m(1)
    by (simp add: sender_inv_def drop_map q_def)
  moreover have "sEntries q ! k = sender_ot_zero" if "k < sender_offset q" for k
    using that [unfolded off] inv window by (auto simp: q_def nth_clear_range sender_inv_def)
  moreover have "sBase q \<le> sNext q" using ue d(1) by (simp add: q_def word_le_nat_alt)
  ultimately have q: "sender_inv q"
    using inv window unfolding sender_inv_def [of q] off by (simp add: q_def sender_inv_def)
  show ?thesis
  proof (rule that [of "sender_compact q"])
    show "sender_reserve p count = (sender_compact q, Inr (sNext p, take (nat count) (remaining p)))"
      using r by (simp add: slice_def remaining_def m_def)
    show "length (sEntries (sender_compact q)) \<le> length (sEntries p)"
      using window by (simp add: sender_compact_def q_def Let_def)
  qed (use sender_compact_same [OF q] rem in \<open>simp_all add: q_def m_def\<close>)
qed

section \<open>Every transfer is handed out once, in order\<close>

text \<open>
  A store that is filled in batches and drained from the front. \<open>queue_run\<close> executes a
  sequence of operations and collects what was accepted and what was handed out.
\<close>

datatype 'e queue_op = QAdd "'e list" | QReserve int

fun queue_run ::
  "('p \<Rightarrow> 'e list \<Rightarrow> 'p \<times> ('err + unit)) \<Rightarrow> ('p \<Rightarrow> int \<Rightarrow> 'p \<times> ('err + 'i \<times> 'e list)) \<Rightarrow>
    'p \<Rightarrow> 'e queue_op list \<Rightarrow> 'p \<times> 'e list \<times> 'e list" where
  "queue_run add reserve p [] = (p, [], [])"
| "queue_run add reserve p (QAdd es # ops) =
     (case add p es of
        (p', Inl _) \<Rightarrow> queue_run add reserve p' ops
      | (p', Inr _) \<Rightarrow>
          (case queue_run add reserve p' ops of (q, a, r) \<Rightarrow> (q, es @ a, r)))"
| "queue_run add reserve p (QReserve n # ops) =
     (case reserve p n of
        (p', Inl _) \<Rightarrow> queue_run add reserve p' ops
      | (p', Inr (i, es)) \<Rightarrow>
          (case queue_run add reserve p' ops of (q, a, r) \<Rightarrow> (q, a, es @ r)))"

fun op_size :: "'e queue_op \<Rightarrow> nat" where
  "op_size (QAdd es) = length es"
| "op_size (QReserve n) = 0"

fun op_ok :: "'e queue_op \<Rightarrow> bool" where
  "op_ok (QAdd es) = True"
| "op_ok (QReserve n) = is_go_int n"

locale ot_queue =
  fixes inv :: "'p \<Rightarrow> bool" and size_of :: "'p \<Rightarrow> nat" and contents :: "'p \<Rightarrow> 'e list"
    and add :: "'p \<Rightarrow> 'e list \<Rightarrow> 'p \<times> ('err + unit)"
    and reserve :: "'p \<Rightarrow> int \<Rightarrow> 'p \<times> ('err + 'i \<times> 'e list)"
  assumes add_fail: "add p es = (p', Inl e) \<Longrightarrow> p' = p"
    and add_done: "inv p \<Longrightarrow> size_of p + length es \<le> 2 ^ 62 \<Longrightarrow> add p es = (p', Inr u) \<Longrightarrow>
      inv p' \<and> size_of p' = size_of p + length es \<and> contents p' = contents p @ es"
    and reserve_fail: "reserve p n = (p', Inl e) \<Longrightarrow> p' = p"
    and reserve_done: "inv p \<Longrightarrow> is_go_int n \<Longrightarrow> reserve p n = (p', Inr (i, es)) \<Longrightarrow>
      inv p' \<and> size_of p' \<le> size_of p \<and> contents p = es @ contents p' \<and> length es = nat n"
begin

lemma exactly_once:
  "inv p \<Longrightarrow> size_of p + sum_list (map op_size ops) \<le> 2 ^ 62 \<Longrightarrow> list_all op_ok ops \<Longrightarrow>
    queue_run add reserve p ops = (q, added, reserved) \<Longrightarrow>
    inv q \<and> contents p @ added = reserved @ contents q"
proof (induction ops arbitrary: p q added reserved)
  case (Cons x ops)
  show ?case
  proof (cases x)
    case (QAdd es)
    obtain p' r where a: "add p es = (p', r)" by fastforce
    show ?thesis
    proof (cases r)
      case (Inl e)
      with a add_fail have "p' = p" by blast
      with Cons QAdd a Inl show ?thesis by simp
    next
      case (Inr u)
      obtain a' r' where run: "queue_run add reserve p' ops = (q, a', r')" "added = es @ a'" "reserved = r'"
        using Cons.prems(4) QAdd a Inr by (auto split: prod.splits)
      have "inv p' \<and> size_of p' = size_of p + length es \<and> contents p' = contents p @ es"
        using add_done [of p es p' u] Cons.prems QAdd a Inr by simp
      with Cons.IH [of p' q a' r'] Cons.prems QAdd run show ?thesis by simp
    qed
  next
    case (QReserve n)
    obtain p' r where a: "reserve p n = (p', r)" by fastforce
    show ?thesis
    proof (cases r)
      case (Inl e)
      with a reserve_fail have "p' = p" by blast
      with Cons QReserve a Inl show ?thesis by simp
    next
      case (Inr ies)
      obtain i es where ies: "ies = (i, es)" by fastforce
      obtain a' r' where run: "queue_run add reserve p' ops = (q, a', r')" "added = a'" "reserved = es @ r'"
        using Cons.prems(4) QReserve a Inr ies by (auto split: prod.splits)
      have "inv p' \<and> size_of p' \<le> size_of p \<and> contents p = es @ contents p' \<and> length es = nat n"
        using reserve_done [of p n p' i es] Cons.prems QReserve a Inr ies by simp
      with Cons.IH [of p' q a' r'] Cons.prems QReserve run show ?thesis by simp
    qed
  qed
qed simp

end

lemma sender_reserve_cases:
  assumes "sender_inv p" "is_go_int n" "sender_reserve p n = (p', Inr (i, es))"
  shows "sender_inv p' \<and> length (sEntries p') \<le> length (sEntries p) \<and>
    remaining p = es @ remaining p' \<and> length es = nat n \<and> i = sNext p \<and>
    sNext p' = sNext p + of_nat (nat n)"
proof -
  have "0 < n" using assms(3) by (auto simp: sender_reserve_def split: if_splits)
  moreover have "n \<le> int (length (remaining p))"
    using sender_reserve_insufficient [OF assms(1,2)] assms(3) by (metis Inr_Inl_False not_le prod.inject)
  ultimately obtain q where q: "sender_reserve p n = (q, Inr (sNext p, take (nat n) (remaining p)))"
    "sender_inv q" "remaining q = drop (nat n) (remaining p)" "sNext q = sNext p + of_nat (nat n)"
    "length (sEntries q) \<le> length (sEntries p)" "nat n \<le> length (remaining p)"
    using sender_reserve_refines [OF assms(1) _ assms(2)] by (metis nat_le_iff)
  then show ?thesis using assms(3) by auto
qed

interpretation sq: ot_queue sender_inv "\<lambda>p. length (sEntries p)" remaining sender_add sender_reserve
proof
  show "sender_inv p' \<and> length (sEntries p') = length (sEntries p) + length es \<and> remaining p' = remaining p @ es"
    if "sender_inv p" "length (sEntries p) + length es \<le> 2 ^ 62" "sender_add p es = (p', Inr u)" for p es p' u
    using sender_add_refines [of p es p'] that by (auto simp: sender_add_def split: sum.splits)
qed (auto simp: sender_add_def sender_reserve_def Let_def dest: sender_reserve_cases split: sum.splits if_splits)

section \<open>Extension claims have one owner\<close>

text \<open>Claims in use were issued before, so a fresh claim differs from every older one.\<close>

definition claim_inv :: "SenderPool \<Rightarrow> bool" where
  "claim_inv p \<longleftrightarrow> (\<forall>c. extendClaim p = Some c \<longrightarrow> c < claimSupply p)"

lemma sender_claim_fresh:
  assumes "claim_inv p" "sender_claim_extend p = (p', Some c)"
  shows "claim_inv p'" "extendClaim p = None" "extendClaim p' = Some c" "c = claimSupply p"
    "claimSupply p' = Suc (claimSupply p)" "sender_needs_extend p"
  using assms
  by (auto simp: sender_claim_extend_def claim_inv_def sender_needs_extend_def Let_def
      split: sum.splits if_splits)

datatype claim_op = CClaim | CRelease nat | CInvalidate | CClear | CFail nat

definition claim_step :: "SenderPool \<Rightarrow> claim_op \<Rightarrow> SenderPool" where
  "claim_step p oper =
     (case oper of
        CClaim \<Rightarrow> fst (sender_claim_extend p)
      | CRelease c \<Rightarrow> fst (sender_release_claim p (Some c))
      | CInvalidate \<Rightarrow> sender_invalidate_claim p
      | CClear \<Rightarrow> sender_clear p
      | CFail c \<Rightarrow> fst (sender_clear_for_extend_failure p (Some c)))"

lemmas claim_ops = claim_step_def sender_claim_extend_def sender_release_claim_def
  sender_invalidate_claim_def sender_clear_def sender_clear_locked_def
  sender_clear_for_extend_failure_def

lemma claim_step_supply: "claimSupply p \<le> claimSupply (claim_step p oper)"
  by (auto simp: claim_ops Let_def split: claim_op.splits sum.splits)

lemma claim_step_owner:
  assumes "c < claimSupply p" "extendClaim p \<noteq> Some c"
  shows "extendClaim (claim_step p oper) \<noteq> Some c"
  using assms by (auto simp: claim_ops Let_def split: claim_op.splits sum.splits)

lemma claim_run_owner:
  assumes "c < claimSupply p" "extendClaim p \<noteq> Some c"
  shows "extendClaim (foldl claim_step p ops) \<noteq> Some c"
  using assms
proof (induction ops arbitrary: p)
  case (Cons x ops)
  have "c < claimSupply (claim_step p x)"
    using Cons.prems(1) claim_step_supply [of p x] by linarith
  with Cons claim_step_owner [OF Cons.prems] show ?case by simp
qed simp

end
