(* ===== verification/Bit_Transpose.thy ===== *)
theory Bit_Transpose
  imports Labels
begin

text \<open>
  The bit-matrix transposition of \<open>mpc/transpose.go\<close>. \<open>transpose64\<close> is the six-pass
  delta-swap loop of the source, with its wrapping masks and its loop index
  \<open>k = (k + width + 1) &^ width\<close>; the lemmas show that \<open>transpose128\<close> and
  \<open>transposeColumns\<close> exchange rows and columns.
\<close>

section \<open>Definitions\<close>

definition BaseOTCount :: nat where "BaseOTCount = 128"

lemma BaseOTCount_val [simp]: "BaseOTCount = 128"
  by (simp add: BaseOTCount_def)

text \<open>Go's \<open>x &^ y\<close> on non-negative integers.\<close>

definition and_not :: "nat \<Rightarrow> nat \<Rightarrow> nat" where
  "and_not x y = nat (int x AND NOT (int y))"

lemma and_not_ge: "x - y \<le> and_not x y"
proof -
  have "int x = (int x AND int y) + (int x AND NOT (int y))"
    by (subst disjunctive_add) (auto simp: bit_simps intro: bit_eqI)
  moreover have "int x AND int y \<le> int y" by (simp add: AND_upper2)
  ultimately show ?thesis unfolding and_not_def by linarith
qed

definition delta_swap :: "nat \<Rightarrow> u64 \<Rightarrow> nat \<Rightarrow> u64 list \<Rightarrow> u64 list" where
  "delta_swap width msk k data =
     (let t = (data ! k XOR drop_bit width (data ! (k + width))) AND msk;
          data' = data[k := data ! k XOR t]
      in data'[k + width := data' ! (k + width) XOR push_bit width t])"

function transpose64_pass :: "nat \<Rightarrow> u64 \<Rightarrow> nat \<Rightarrow> u64 list \<Rightarrow> u64 list" where
  "transpose64_pass width msk k data =
     (if k < 64
      then transpose64_pass width msk (and_not (k + width + 1) width) (delta_swap width msk k data)
      else data)"
  by pat_completeness auto
termination
proof (relation "measure (\<lambda>(width, msk, k, data). 64 - k)")
  fix width k :: nat and msk :: u64 and data :: "u64 list"
  assume "k < 64"
  then show "((width, msk, and_not (k + width + 1) width, delta_swap width msk k data),
      width, msk, k, data) \<in> measure (\<lambda>(width, msk, k, data). 64 - k)"
    using and_not_ge [of "k + width + 1" width] by simp
qed simp

declare transpose64_pass.simps [simp del]

function transpose64_loop :: "nat \<Rightarrow> u64 \<Rightarrow> u64 list \<Rightarrow> u64 list" where
  "transpose64_loop width msk data =
     (if width = 0 then data
      else let data' = transpose64_pass width msk 0 data;
               width' = drop_bit 1 width;
               msk' = (if width' \<noteq> 0 then msk XOR push_bit width' msk else msk)
           in transpose64_loop width' msk' data')"
  by pat_completeness auto
termination
  by (relation "measure fst") (simp_all add: drop_bit_Suc)

declare transpose64_loop.simps [simp del]

definition transpose64 :: "u64 list \<Rightarrow> u64 list" where
  "transpose64 data = transpose64_loop 32 0x00000000ffffffff data"

definition transpose128 :: "Label list \<Rightarrow> Label list" where
  "transpose128 data =
     (let a = transpose64 (map D0 (take 64 data));
          b = transpose64 (map D1 (take 64 data));
          c = transpose64 (map D0 (drop 64 data));
          d = transpose64 (map D1 (drop 64 data))
      in map (\<lambda>i. \<lparr>D0 = word_reverse (a ! (63 - i)), D1 = word_reverse (c ! (63 - i))\<rparr>) [0..<64] @
         map (\<lambda>i. \<lparr>D0 = word_reverse (b ! (63 - i)), D1 = word_reverse (d ! (63 - i))\<rparr>) [0..<64])"

definition column_label :: "bytes \<Rightarrow> nat \<Rightarrow> Label" where
  "column_label matrix pos =
     \<lparr>D0 = le_get (slice matrix pos (pos + 8)), D1 = le_get (slice matrix (pos + 8) (pos + 16))\<rparr>"

definition transposeColumns :: "bytes \<Rightarrow> nat \<Rightarrow> nat \<Rightarrow> Label list" where
  "transposeColumns matrix byteRows n =
     concat (map (\<lambda>blk. transpose128
       (map (\<lambda>col. column_label matrix (col * byteRows + blk * BaseOTCount div 8)) [0..<BaseOTCount]))
       [0..<n div BaseOTCount])"

section \<open>The loop index\<close>

text \<open>The rows a pass visits: exactly those whose index has the width's bit clear.\<close>

function visits :: "nat \<Rightarrow> nat \<Rightarrow> nat list" where
  "visits width k = (if k < 64 then k # visits width (and_not (k + width + 1) width) else [])"
  by pat_completeness auto
termination
proof (relation "measure (\<lambda>(width, k). 64 - k)")
  fix width k :: nat
  assume "k < 64"
  then show "((width, and_not (k + width + 1) width), width, k) \<in> measure (\<lambda>(width, k). 64 - k)"
    using and_not_ge [of "k + width + 1" width] by simp
qed simp

declare visits.simps [simp del]

lemma pass_visits: "transpose64_pass width msk k data = fold (delta_swap width msk) (visits width k) data"
  by (induction width msk k data rule: transpose64_pass.induct)
    (subst transpose64_pass.simps, subst visits.simps, simp)

lemma visits_rows:
  "visits 32 0 = filter (\<lambda>k. \<not> bit k 5) [0..<64]"
  "visits 16 0 = filter (\<lambda>k. \<not> bit k 4) [0..<64]"
  "visits 8 0 = filter (\<lambda>k. \<not> bit k 3) [0..<64]"
  "visits 4 0 = filter (\<lambda>k. \<not> bit k 2) [0..<64]"
  "visits 2 0 = filter (\<lambda>k. \<not> bit k 1) [0..<64]"
  "visits 1 0 = filter (\<lambda>k. \<not> bit k 0) [0..<64]"
  by code_simp+

lemma mask_bits:
  "\<forall>c \<in> set [0..<64]. bit (0x00000000ffffffff :: u64) c \<longleftrightarrow> \<not> bit c 5"
  "\<forall>c \<in> set [0..<64]. bit (0x0000ffff0000ffff :: u64) c \<longleftrightarrow> \<not> bit c 4"
  "\<forall>c \<in> set [0..<64]. bit (0x00ff00ff00ff00ff :: u64) c \<longleftrightarrow> \<not> bit c 3"
  "\<forall>c \<in> set [0..<64]. bit (0x0f0f0f0f0f0f0f0f :: u64) c \<longleftrightarrow> \<not> bit c 2"
  "\<forall>c \<in> set [0..<64]. bit (0x3333333333333333 :: u64) c \<longleftrightarrow> \<not> bit c 1"
  "\<forall>c \<in> set [0..<64]. bit (0x5555555555555555 :: u64) c \<longleftrightarrow> \<not> bit c 0"
  by code_simp+

section \<open>One pass\<close>

definition low_row :: "nat \<Rightarrow> u64 \<Rightarrow> u64 \<Rightarrow> u64 \<Rightarrow> u64" where
  "low_row w m x y = x XOR ((x XOR drop_bit w y) AND m)"

definition high_row :: "nat \<Rightarrow> u64 \<Rightarrow> u64 \<Rightarrow> u64 \<Rightarrow> u64" where
  "high_row w m x y = y XOR push_bit w ((x XOR drop_bit w y) AND m)"

lemma bit_low_row: "bit (low_row w m x y) c \<longleftrightarrow> (if bit m c then bit y (w + c) else bit x c)"
  by (auto simp: low_row_def bit_simps)

lemma bit_high_row:
  "bit (high_row w m x y) c \<longleftrightarrow>
    (if w \<le> c \<and> c < 64 \<and> bit m (c - w) then bit x (c - w) else bit y c)"
  by (auto simp: high_row_def bit_simps)

lemma length_delta_swap [simp]: "length (delta_swap w m k data) = length data"
  by (simp add: delta_swap_def Let_def)

lemma delta_swap_rows:
  assumes "0 < w" "k + w < length data" "r < length data"
  shows "delta_swap w m k data ! r =
    (if r = k then low_row w m (data ! k) (data ! (k + w))
     else if r = k + w then high_row w m (data ! k) (data ! (k + w)) else data ! r)"
  using assms by (auto simp: delta_swap_def low_row_def high_row_def Let_def nth_list_update)

lemma fold_delta_swap_rows:
  assumes "0 < w" "distinct ks" "\<forall>k \<in> set ks. k + w < length data \<and> k + w \<notin> set ks" "r < length data"
  shows "fold (delta_swap w m) ks data ! r =
    (if r \<in> set ks then low_row w m (data ! r) (data ! (r + w))
     else if w \<le> r \<and> r - w \<in> set ks then high_row w m (data ! (r - w)) (data ! r) else data ! r)"
  using assms(2-)
proof (induction ks arbitrary: data)
  case (Cons k ks)
  let ?d = "delta_swap w m k data"
  have ih: "fold (delta_swap w m) ks ?d ! r =
    (if r \<in> set ks then low_row w m (?d ! r) (?d ! (r + w))
     else if w \<le> r \<and> r - w \<in> set ks then high_row w m (?d ! (r - w)) (?d ! r) else ?d ! r)"
    using Cons.prems by (intro Cons.IH) simp_all
  have k: "k + w < length data" "k + w \<notin> set (k # ks)" "k \<notin> set ks" using Cons.prems by simp_all
  note dr = delta_swap_rows [OF assms(1) k(1)]
  consider (mem) "r \<in> set ks" | (upper) "r \<notin> set ks" "w \<le> r" "r - w \<in> set ks"
    | (other) "r \<notin> set ks" "\<not> (w \<le> r \<and> r - w \<in> set ks)" by blast
  then show ?case
  proof cases
    case mem
    then have "r \<noteq> k" "r \<noteq> k + w" "r + w < length data" "r + w \<noteq> k" "r + w \<noteq> k + w"
      using Cons.prems k by auto
    then show ?thesis using ih mem Cons.prems(3) dr by simp
  next
    case upper
    then have "r - w \<noteq> k" "r - w \<noteq> k + w" "r \<noteq> k" "r \<noteq> k + w" "r - w < length data"
      using Cons.prems k by auto
    then show ?thesis using ih upper Cons.prems(3) dr by simp
  next
    case other
    then show ?thesis using ih Cons.prems(3) dr [of r] assms(1) by auto
  qed
qed simp

text \<open>Where a pass over bit \<open>i\<close> of the indices reads the entry in row \<open>r\<close>, column \<open>c\<close>.\<close>

definition put_bit :: "nat \<Rightarrow> bool \<Rightarrow> nat \<Rightarrow> nat" where
  "put_bit i b n = (if b then set_bit i n else unset_bit i n)"

lemma bit_put_bit [simp]: "bit (put_bit i b n) j \<longleftrightarrow> (if j = i then b else bit n j)"
  by (auto simp: put_bit_def bit_simps)

lemma put_bit_lt: "i < 6 \<Longrightarrow> n < 64 \<Longrightarrow> put_bit i b n < 64"
proof -
  assume a: "i < 6" "n < 64"
  have "take_bit 6 (put_bit i b n) = put_bit i b n"
  proof (rule bit_eqI)
    fix j
    have "take_bit 6 n = n" using a(2) by (simp add: take_bit_nat_eq_self)
    then have "\<not> bit n j" if "6 \<le> j" using that by (metis bit_take_bit_iff leD)
    then show "bit (take_bit 6 (put_bit i b n)) j = bit (put_bit i b n) j"
      using a(1) by (cases "6 \<le> j") (auto simp: bit_take_bit_iff)
  qed
  then show ?thesis using take_bit_nat_less_exp [of 6 "put_bit i b n"] by simp
qed

lemma put_bit_arith:
  "\<not> bit n i \<Longrightarrow> put_bit i True n = n + 2 ^ i" "\<not> bit n i \<Longrightarrow> put_bit i False n = n"
  "bit n i \<Longrightarrow> put_bit i False n = n - 2 ^ i" "bit n i \<Longrightarrow> put_bit i True n = n"
proof -
  show t: "put_bit i True n = n + 2 ^ i" if "\<not> bit n i" for n
    using that by (simp add: put_bit_def set_bit_eq)
  show "put_bit i False n = n" if "\<not> bit n i" using that by (intro bit_eqI) auto
  show "put_bit i True n = n" if "bit n i" using that by (intro bit_eqI) auto
  show "put_bit i False n = n - 2 ^ i" if "bit n i"
  proof -
    have "put_bit i True (put_bit i False n) = n" using that by (intro bit_eqI) auto
    then show ?thesis using t [of "put_bit i False n"] by simp
  qed
qed

lemma bit_le: "bit (n :: nat) i \<Longrightarrow> 2 ^ i \<le> n"
  by (metis bit_nat_def div_less even_zero not_le)

lemma pass_swaps:
  assumes i: "i < 6" and data: "length data = 64"
    and v: "visits (2 ^ i) 0 = filter (\<lambda>k. \<not> bit k i) [0..<64]"
    and m: "\<forall>c \<in> set [0..<64]. bit m c \<longleftrightarrow> \<not> bit c i"
    and rc: "r < 64" "c < 64"
  shows "bit (transpose64_pass (2 ^ i) m 0 data ! r) c =
    bit (data ! put_bit i (\<not> bit c i) r) (put_bit i (\<not> bit r i) c)"
proof -
  let ?ks = "filter (\<lambda>k. \<not> bit k i) [0..<64]"
  have up: "k + 2 ^ i < 64" "bit (k + 2 ^ i) i" if "k < 64" "\<not> bit k i" for k :: nat
    using put_bit_lt [OF i that(1), of True] bit_put_bit [of i True k i] that
    by (simp_all add: put_bit_arith)
  have down: "k - 2 ^ i < 64" "\<not> bit (k - 2 ^ i) i" if "k < 64" "bit k i" for k :: nat
    using put_bit_lt [OF i that(1), of False] bit_put_bit [of i False k i] that
    by (simp_all add: put_bit_arith)
  have rows: "transpose64_pass (2 ^ i) m 0 data ! r =
    (if r \<in> set ?ks then low_row (2 ^ i) m (data ! r) (data ! (r + 2 ^ i))
     else if 2 ^ i \<le> r \<and> r - 2 ^ i \<in> set ?ks then high_row (2 ^ i) m (data ! (r - 2 ^ i)) (data ! r)
     else data ! r)"
    unfolding pass_visits v using up data rc by (intro fold_delta_swap_rows) auto
  show ?thesis
  proof (cases "bit r i")
    case True
    then have "transpose64_pass (2 ^ i) m 0 data ! r = high_row (2 ^ i) m (data ! (r - 2 ^ i)) (data ! r)"
      using rows down [OF rc(1)] bit_le [OF True] by simp
    moreover have "bit m (c - 2 ^ i) \<longleftrightarrow> \<not> bit (c - 2 ^ i) i" using m rc(2) by simp
    then have "2 ^ i \<le> c \<and> c < 64 \<and> bit m (c - 2 ^ i) \<longleftrightarrow> bit c i"
      using down [OF rc(2)] up [of "c - 2 ^ i"] bit_le [of c i] rc(2) by auto
    ultimately show ?thesis using True by (simp add: bit_high_row put_bit_arith)
  next
    case False
    then have "transpose64_pass (2 ^ i) m 0 data ! r = low_row (2 ^ i) m (data ! r) (data ! (r + 2 ^ i))"
      using rows rc by simp
    then show ?thesis using False m rc(2) by (simp add: bit_low_row put_bit_arith add.commute)
  qed
qed

lemma length_pass: "length (transpose64_pass w m k data) = length data"
proof -
  have "length (fold (delta_swap w m) ks data) = length data" for ks
    by (induction ks arbitrary: data) simp_all
  then show ?thesis by (simp add: pass_visits)
qed

section \<open>Six passes\<close>

lemma transpose64_passes:
  "transpose64 data =
    transpose64_pass 1 0x5555555555555555 0
     (transpose64_pass 2 0x3333333333333333 0
      (transpose64_pass 4 0x0f0f0f0f0f0f0f0f 0
       (transpose64_pass 8 0x00ff00ff00ff00ff 0
        (transpose64_pass 16 0x0000ffff0000ffff 0
         (transpose64_pass 32 0x00000000ffffffff 0 data)))))"
  by (simp add: transpose64_def transpose64_loop.simps drop_bit_Suc push_bit_eq_mult Let_def)

lemma six_swaps:
  assumes "length data = 64" "r < 64" "c < 64"
  shows "bit (transpose64_pass 32 0x00000000ffffffff 0 data ! r) c =
      bit (data ! put_bit 5 (\<not> bit c 5) r) (put_bit 5 (\<not> bit r 5) c)"
    "bit (transpose64_pass 16 0x0000ffff0000ffff 0 data ! r) c =
      bit (data ! put_bit 4 (\<not> bit c 4) r) (put_bit 4 (\<not> bit r 4) c)"
    "bit (transpose64_pass 8 0x00ff00ff00ff00ff 0 data ! r) c =
      bit (data ! put_bit 3 (\<not> bit c 3) r) (put_bit 3 (\<not> bit r 3) c)"
    "bit (transpose64_pass 4 0x0f0f0f0f0f0f0f0f 0 data ! r) c =
      bit (data ! put_bit 2 (\<not> bit c 2) r) (put_bit 2 (\<not> bit r 2) c)"
    "bit (transpose64_pass 2 0x3333333333333333 0 data ! r) c =
      bit (data ! put_bit 1 (\<not> bit c 1) r) (put_bit 1 (\<not> bit r 1) c)"
    "bit (transpose64_pass 1 0x5555555555555555 0 data ! r) c =
      bit (data ! put_bit 0 (\<not> bit c 0) r) (put_bit 0 (\<not> bit r 0) c)"
  using pass_swaps [of 5, OF _ assms(1) _ mask_bits(1) assms(2,3)]
    pass_swaps [of 4, OF _ assms(1) _ mask_bits(2) assms(2,3)]
    pass_swaps [of 3, OF _ assms(1) _ mask_bits(3) assms(2,3)]
    pass_swaps [of 2, OF _ assms(1) _ mask_bits(4) assms(2,3)]
    pass_swaps [of 1, OF _ assms(1) _ mask_bits(5) assms(2,3)]
    pass_swaps [of 0, OF _ assms(1) _ mask_bits(6) assms(2,3)]
  by (simp_all add: visits_rows visits_rows(6) [unfolded One_nat_def])

lemma complement_bits: "c < 64 \<Longrightarrow> 63 - c = c XOR (63 :: nat)"
proof -
  have "\<forall>c \<in> set [0..<64]. 63 - c = c XOR (63 :: nat)" by code_simp
  then show "c < 64 \<Longrightarrow> 63 - c = c XOR 63" by simp
qed

lemma bit_complement:
  assumes "c < 64"
  shows "bit (63 - c) j \<longleftrightarrow> j < 6 \<and> \<not> bit (c :: nat) j"
proof -
  have "bit (63 :: nat) j \<longleftrightarrow> j < 6" using bit_mask_iff [of 6 j, where ?'a = nat] by (simp add: mask_eq_exp_minus_1)
  moreover have "take_bit 6 c = c" using assms by (simp add: take_bit_nat_eq_self)
  then have "bit c j \<Longrightarrow> j < 6" by (metis bit_take_bit_iff)
  ultimately show ?thesis using assms by (auto simp: complement_bits bit_xor_iff)
qed

lemma six_put_bits:
  assumes "r < 64" "c < 64"
  shows "put_bit 5 (\<not> bit c 5) (put_bit 4 (\<not> bit c 4) (put_bit 3 (\<not> bit c 3)
    (put_bit 2 (\<not> bit c 2) (put_bit 1 (\<not> bit c 1) (put_bit 0 (\<not> bit c 0) r))))) = 63 - c"
    (is "?l = _")
proof (rule bit_eqI)
  fix j
  have "take_bit 6 r = r" using assms by (simp add: take_bit_nat_eq_self)
  then have "bit r j \<Longrightarrow> j < 6" by (metis bit_take_bit_iff)
  moreover have "j < 6 \<Longrightarrow> j = 0 \<or> j = 1 \<or> j = 2 \<or> j = 3 \<or> j = 4 \<or> j = 5" by linarith
  ultimately show "bit ?l j = bit (63 - c) j" unfolding bit_complement [OF assms(2)] by auto
qed

lemmas six_simps = six_swaps six_swaps(6) [unfolded One_nat_def] six_put_bits
  six_put_bits [unfolded One_nat_def] length_pass put_bit_lt

lemma transpose64_bit:
  assumes "length data = 64" "r < 64" "c < 64"
  shows "bit (transpose64 data ! r) c = bit (data ! (63 - c)) (63 - r)"
  using assms unfolding transpose64_passes by (simp add: six_simps)

lemma length_transpose64 [simp]: "length (transpose64 data) = length data"
  by (simp add: transpose64_passes length_pass)

section \<open>Transposition\<close>

lemma length_transpose128 [simp]: "length (transpose128 data) = 128"
  by (simp add: transpose128_def Let_def)

lemma transpose128_bit:
  assumes d: "length data = 128" and ij: "i < 128" "j < 128"
  shows "lbit (transpose128 data ! i) j = lbit (data ! j) i"
proof -
  have half: "word_reverse (transpose64 (map f xs) ! (63 - k)) = (w :: u64) \<Longrightarrow>
      bit w c \<longleftrightarrow> c < 64 \<and> bit (f (xs ! c)) k"
    if "length xs = 64" "k < 64" for f and xs :: "Label list" and k c and w
    using that transpose64_bit [of "map f xs" "63 - k" "63 - c"]
    by (auto simp: bit_word_reverse_iff)
  have l: "length (take 64 data) = 64" "length (drop 64 data) = 64" using d by simp_all
  show ?thesis
  proof (cases "i < 64")
    case True
    then have "transpose128 data ! i = \<lparr>D0 = word_reverse (transpose64 (map D0 (take 64 data)) ! (63 - i)),
        D1 = word_reverse (transpose64 (map D0 (drop 64 data)) ! (63 - i))\<rparr>"
      by (simp add: transpose128_def Let_def nth_append)
    then show ?thesis using True ij d half [OF l(1) True refl] half [OF l(2) True refl]
      by (cases "j < 64") (auto simp: lbit_def)
  next
    case False
    define k where "k = i - 64"
    have k: "i = k + 64" "k < 64" using False ij(1) by (simp_all add: k_def)
    have "transpose128 data ! i = \<lparr>D0 = word_reverse (transpose64 (map D1 (take 64 data)) ! (63 - k)),
        D1 = word_reverse (transpose64 (map D1 (drop 64 data)) ! (63 - k))\<rparr>"
      using k by (simp add: transpose128_def Let_def nth_append)
    then show ?thesis using k ij d half [OF l(1) k(2) refl] half [OF l(2) k(2) refl]
      by (cases "j < 64") (auto simp: lbit_def)
  qed
qed

lemma column_label_bit:
  assumes "pos + 16 \<le> length matrix" "n < 128"
  shows "lbit (column_label matrix pos) n = bit (matrix ! (pos + n div 8)) (n mod 8)"
proof (cases "n < 64")
  case True
  then have "n div 8 < 8" by (simp add: less_mult_imp_div_less)
  with True assms show ?thesis by (simp add: lbit_def column_label_def bit_le_get nth_slice)
next
  case False
  define k where "k = n - 64"
  have k: "n = 64 + k" "k < 64" using False assms(2) by (simp_all add: k_def)
  have "n mod 8 = k mod 8" using mod_mult_self4 [of 8 8 k] by (simp add: k(1))
  moreover have "k div 8 < 8" "n div 8 = 8 + k div 8"
    using k by (simp_all add: less_mult_imp_div_less)
  ultimately show ?thesis using k assms
    by (simp add: lbit_def column_label_def bit_le_get nth_slice add.assoc)
qed

lemma length_transposeColumns: "length (transposeColumns matrix byteRows n) = 128 * (n div 128)"
  by (simp add: transposeColumns_def length_concat comp_def sum_list_triv)

lemma nth_concat_blocks:
  assumes "\<And>b. length (f b) = m" "i < m * n"
  shows "concat (map f [0..<n]) ! i = f (i div m) ! (i mod m)"
  using assms(2)
proof (induction n)
  case (Suc n)
  have l: "length (concat (map f [0..<n])) = m * n" by (simp add: length_concat comp_def assms(1) sum_list_triv)
  show ?case
  proof (cases "i < m * n")
    case False
    then have "i div m = n" using Suc.prems by (intro div_nat_eqI) (simp_all add: mult.commute)
    moreover from this have "i mod m = i - m * n" by (simp add: modulo_nat_def mult.commute)
    ultimately show ?thesis using False l by (simp add: nth_append)
  qed (use Suc l in \<open>simp add: nth_append\<close>)
qed simp

lemma transposeColumns_bit:
  assumes m: "length matrix = 128 * byteRows" and n: "n = 8 * byteRows" "n mod 128 = 0"
    and ij: "i < n" "j < 128"
  shows "lbit (transposeColumns matrix byteRows n ! i) j = bit (matrix ! (j * byteRows + i div 8)) (i mod 8)"
proof -
  define b where "b = i div 128"
  define q where "q = i mod 128"
  have i: "i = 128 * b + q" "q < 128" by (simp_all add: b_def q_def)
  have "128 * (n div 128) = n" using n(2) by auto
  then have lt: "i < 128 * (n div 128)" using ij(1) by simp
  then have bl: "b < n div 128" by (simp add: b_def less_mult_imp_div_less mult.commute)
  let ?blk = "map (\<lambda>col. column_label matrix (col * byteRows + b * 128 div 8)) [0..<128]"
  have "transposeColumns matrix byteRows n ! i = transpose128 ?blk ! q"
    using lt
    by (simp add: transposeColumns_def nth_concat_blocks [where m = 128] b_def q_def)
  then have "lbit (transposeColumns matrix byteRows n ! i) j = lbit (?blk ! j) q"
    using transpose128_bit [of ?blk q j] i ij by simp
  also have "\<dots> = lbit (column_label matrix (j * byteRows + 16 * b)) q" using ij by simp
  also have "\<dots> = bit (matrix ! (j * byteRows + 16 * b + q div 8)) (q mod 8)"
  proof (rule column_label_bit [OF _ i(2)])
    have "16 * b + 16 \<le> byteRows" using bl n by linarith
    moreover have "j * byteRows + byteRows \<le> 128 * byteRows"
      using mult_le_mono1 [of "Suc j" 128 byteRows] ij(2) by simp
    ultimately show "j * byteRows + 16 * b + 16 \<le> length matrix" using m by linarith
  qed
  also have "q mod 8 = i mod 8" using mod_mult_self4 [of 8 "16 * b" q] by (simp add: i(1))
  also have "j * byteRows + 16 * b + q div 8 = j * byteRows + i div 8" by (simp add: i(1))
  finally show ?thesis .
qed

text \<open>C23. The blocked transposition of the extension matrix is the bit matrix transposition:
  row \<open>i\<close> of the result holds, in position \<open>j\<close>, bit \<open>i\<close> of column \<open>j\<close>, and there is one
  row per transfer.\<close>

theorem transposeColumns_transposes:
  assumes m: "length matrix = 128 * byteRows" and n: "n = 8 * byteRows" "n mod 128 = 0"
  shows "length (transposeColumns matrix byteRows n) = n \<and>
    (\<forall>i < n. \<forall>j < 128. lbit (transposeColumns matrix byteRows n ! i) j \<longleftrightarrow>
       bit (matrix ! (j * byteRows + i div 8)) (i mod 8))"
proof -
  have "128 * (n div 128) = n" using n(2) by auto
  then show ?thesis unfolding length_transposeColumns using transposeColumns_bit [OF m n] by blast
qed

theorem transposeColumns_transposes_witness:
  "lbit (transposeColumns (replicate (16 * 2) 0 @ replicate 16 5 @ replicate (125 * 16) 0) 16 128 ! 10) 2 \<and>
   \<not> lbit (transposeColumns (replicate (16 * 2) 0 @ replicate 16 5 @ replicate (125 * 16) 0) 16 128 ! 11) 2"
proof -
  let ?m = "replicate (16 * 2) 0 @ replicate 16 5 @ replicate (125 * 16) (0 :: 8 word)"
  have "length ?m = 128 * 16" "128 = 8 * (16 :: nat)" "128 mod 128 = (0 :: nat)" by simp_all
  note t = conjunct2 [OF transposeColumns_transposes [OF this]]
  have "lbit (transposeColumns ?m 16 128 ! 10) 2 \<longleftrightarrow> bit (?m ! (2 * 16 + 10 div 8)) (10 mod 8)"
    "lbit (transposeColumns ?m 16 128 ! 11) 2 \<longleftrightarrow> bit (?m ! (2 * 16 + 11 div 8)) (11 mod 8)"
    using t by simp_all
  then show ?thesis by (simp add: nth_append)
qed

end
