(* ===== verification/Gf128.thy ===== *)
theory Gf128
  imports Labels
begin

text \<open>
  Multiplication in GF(2^128) modulo x^128 + x^7 + x^2 + x + 1: the portable loop
  \<open>gf128MulGeneric\<close> of \<open>mpc/ot_extension.go\<close>, and the accelerated path of
  \<open>mpc/gf128_amd64.go\<close>, the four-product carry-less multiplication of \<open>gf128_amd64.s\<close>
  followed by \<open>reduceGF128\<close>. The two agree on every input, and the product is additive in
  either factor.
\<close>

section \<open>Portable multiplication\<close>

definition gf128_step :: "Label \<Rightarrow> nat \<Rightarrow> Label \<times> Label \<Rightarrow> Label \<times> Label" where
  "gf128_step b i zv =
     (case zv of (z, v) \<Rightarrow>
       let bt = (if i \<ge> 64 then drop_bit (i - 64) (D1 b) AND 1 else drop_bit (i AND 63) (D0 b) AND 1);
           msk = 0 - bt;
           z' = \<lparr>D0 = D0 z XOR (D0 v AND msk), D1 = D1 z XOR (D1 v AND msk)\<rparr>;
           carry = drop_bit 63 (D1 v);
           v' = \<lparr>D0 = push_bit 1 (D0 v) XOR (0x87 AND (0 - carry)),
                 D1 = push_bit 1 (D1 v) OR drop_bit 63 (D0 v)\<rparr>
       in (z', v'))"

definition gf128MulGeneric :: "Label \<Rightarrow> Label \<Rightarrow> Label" where
  "gf128MulGeneric a b = fst (fold (gf128_step b) [0..<128] (label_zero, a))"

section \<open>Accelerated multiplication\<close>

text \<open>
  \<open>PCLMULQDQ\<close>: the carry-less product of two 64-bit words, as the low and high half of a
  128-bit register.
\<close>

definition pclmul :: "u64 \<Rightarrow> u64 \<Rightarrow> Label" where
  "pclmul x y =
     fold (\<lambda>i acc. if bit y i
             then label_xor acc \<lparr>D0 = push_bit i x, D1 = drop_bit (64 - i) x\<rparr> else acc)
       [0..<64] label_zero"

definition clmul128 :: "Label \<Rightarrow> Label \<Rightarrow> Label \<times> Label" where
  "clmul128 a b =
     (let x2 = pclmul (D0 a) (D0 b);
          x3 = pclmul (D1 a) (D0 b);
          x4 = pclmul (D0 a) (D1 b);
          x5 = pclmul (D1 a) (D1 b);
          x3 = label_xor x3 x4;
          x2 = label_xor x2 \<lparr>D0 = 0, D1 = D0 x3\<rparr>;
          x5 = label_xor x5 \<lparr>D0 = D1 x3, D1 = 0\<rparr>
      in (x2, x5))"

definition reduceGF128 :: "Label \<Rightarrow> Label \<Rightarrow> Label" where
  "reduceGF128 lo hi =
     (let overflow = drop_bit 63 (D1 hi) XOR drop_bit 62 (D1 hi) XOR drop_bit 57 (D1 hi);
          d0 = D0 lo XOR (D0 hi XOR push_bit 1 (D0 hi) XOR push_bit 2 (D0 hi) XOR push_bit 7 (D0 hi));
          d1 = D1 lo XOR (D1 hi XOR
                 push_bit 1 (D1 hi) XOR drop_bit 63 (D0 hi) XOR
                 push_bit 2 (D1 hi) XOR drop_bit 62 (D0 hi) XOR
                 push_bit 7 (D1 hi) XOR drop_bit 57 (D0 hi))
      in \<lparr>D0 = d0 XOR (overflow XOR push_bit 1 overflow XOR push_bit 2 overflow XOR push_bit 7 overflow),
          D1 = d1\<rparr>)"

definition gf128Mul_amd64 :: "bool \<Rightarrow> Label \<Rightarrow> Label \<Rightarrow> Label" where
  "gf128Mul_amd64 hasPCLMULQDQ a b =
     (if \<not> hasPCLMULQDQ then gf128MulGeneric a b
      else case clmul128 a b of (lo, hi) \<Rightarrow> reduceGF128 lo hi)"

section \<open>The loop as a sum\<close>

text \<open>Multiplication by x, and the loop's accumulator as a sum of shifted multiplicands.\<close>

definition xtimes :: "Label \<Rightarrow> Label" where
  "xtimes v = \<lparr>D0 = push_bit 1 (D0 v) XOR (if bit (D1 v) 63 then 0x87 else 0),
               D1 = push_bit 1 (D1 v) XOR drop_bit 63 (D0 v)\<rparr>"

lemma top_bit: "drop_bit 63 (x :: u64) = of_bool (bit x 63)"
proof (rule bit_eqI)
  fix n show "bit (drop_bit 63 x) n = bit (of_bool (bit x 63) :: u64) n"
    by (cases n) (auto simp: bit_simps dest: bit_imp_le_length)
qed

lemma and_one_bit: "drop_bit n (x :: u64) AND 1 = of_bool (bit x n)"
  by (simp add: and_one_eq bit_iff_odd_drop_bit mod2_eq_if)

lemma xtimes_carry: "push_bit 1 (x :: u64) OR drop_bit 63 y = push_bit 1 x XOR drop_bit 63 y"
  unfolding top_bit
  by (rule bit_eqI) (auto simp: bit_or_iff bit_xor_iff bit_push_bit_iff bit_of_bool_iff simp del: push_bit_Suc One_nat_def)

lemma gf128_step_sum:
  assumes "i < 128"
  shows "gf128_step b i (z, v) = (label_xor z (if lbit b i then v else label_zero), xtimes v)"
proof -
  have "i < 64 \<Longrightarrow> i AND 63 = i"
    using take_bit_eq_mask [of 6 i] take_bit_nat_eq_self [of i 6] by (simp add: mask_eq_exp_minus_1)
  then have bt: "(if i \<ge> 64 then drop_bit (i - 64) (D1 b) AND 1 else drop_bit (i AND 63) (D0 b) AND 1)
      = of_bool (lbit b i)"
    by (simp add: and_one_bit lbit_def)
  show ?thesis
    unfolding gf128_step_def bt Let_def xtimes_carry
    by (simp add: top_bit xtimes_def label_xor_def label_zero_def)
qed

fun xpow :: "nat \<Rightarrow> Label \<Rightarrow> Label" where
  "xpow 0 v = v"
| "xpow (Suc i) v = xtimes (xpow i v)"

text \<open>The sum of the first \<open>n\<close> terms the loop adds up.\<close>

fun gf_sum :: "(nat \<Rightarrow> Label) \<Rightarrow> (nat \<Rightarrow> bool) \<Rightarrow> nat \<Rightarrow> Label" where
  "gf_sum f p 0 = label_zero"
| "gf_sum f p (Suc n) = label_xor (gf_sum f p n) (if p n then f n else label_zero)"

lemma gf_loop: "n \<le> 128 \<Longrightarrow>
    fold (gf128_step b) [0..<n] (label_zero, a) = (gf_sum (\<lambda>i. xpow i a) (lbit b) n, xpow n a)"
  by (induction n) (simp_all add: gf128_step_sum)

lemma gf128MulGeneric_sum: "gf128MulGeneric a b = gf_sum (\<lambda>i. xpow i a) (lbit b) 128"
  by (simp add: gf128MulGeneric_def gf_loop)

lemma gf_sum_xor_terms:
  "gf_sum (\<lambda>i. label_xor (f i) (g i)) p n = label_xor (gf_sum f p n) (gf_sum g p n)"
  by (induction n) (simp_all add: label_algebra)

lemma gf_sum_xor_bits:
  "gf_sum f (\<lambda>i. p i \<noteq> q i) n = label_xor (gf_sum f p n) (gf_sum f q n)"
  by (induction n) (auto simp: label_algebra)

lemma shift_xor [simp]:
  "push_bit n ((x :: u64) XOR y) = push_bit n x XOR push_bit n y"
  "drop_bit n ((x :: u64) XOR y) = drop_bit n x XOR drop_bit n y"
  by (rule bit_eqI; auto simp: bit_simps)+

lemma xtimes_xor: "xtimes (label_xor a b) = label_xor (xtimes a) (xtimes b)"
  by (rule label_eqI) (auto simp: xtimes_def bit_xor_iff ac_simps simp del: push_bit_Suc One_nat_def)

lemma xpow_xor: "xpow i (label_xor a b) = label_xor (xpow i a) (xpow i b)"
  by (induction i) (simp_all add: xtimes_xor)

lemma gf128MulGeneric_xor_left:
  "gf128MulGeneric (label_xor a b) c = label_xor (gf128MulGeneric a c) (gf128MulGeneric b c)"
  by (simp add: gf128MulGeneric_sum xpow_xor gf_sum_xor_terms)

lemma gf128MulGeneric_xor_right:
  "gf128MulGeneric a (label_xor b c) = label_xor (gf128MulGeneric a b) (gf128MulGeneric a c)"
proof -
  have "lbit (label_xor b c) = (\<lambda>i. lbit b i \<noteq> lbit c i)" by (rule ext) simp
  then show ?thesis by (simp only: gf128MulGeneric_sum gf_sum_xor_bits)
qed

interpretation gx: xor_linear label_xor label_zero gf128MulGeneric
  by unfold_locales (rule gf128MulGeneric_xor_left)

section \<open>Additive functions of a word\<close>

lemma gf_sum_cong: "(\<And>i. i < n \<Longrightarrow> p i \<Longrightarrow> f i = g i) \<Longrightarrow> gf_sum f p n = gf_sum g p n"
  by (induction n) auto

lemma gf_sum_cong_bits: "(\<And>i. i < n \<Longrightarrow> p i = q i) \<Longrightarrow> gf_sum f p n = gf_sum f q n"
  by (induction n) auto

lemma gf_sum_hom:
  assumes "\<And>a b. h (label_xor a b) = label_xor (h a) (h b)"
  shows "h (gf_sum f p n) = gf_sum (\<lambda>i. h (f i)) p n"
proof -
  have "h label_zero = label_zero" by (metis assms lx.xor_self)
  then show ?thesis by (induction n) (simp_all add: assms)
qed

lemma gf_sum_add:
  "gf_sum f p (m + n) = label_xor (gf_sum f p m) (gf_sum (\<lambda>i. f (m + i)) (\<lambda>i. p (m + i)) n)"
  by (induction n) (simp_all add: label_algebra)

lemma additive_basis:
  fixes h :: "u64 \<Rightarrow> Label"
  assumes add: "\<And>x y. h (x XOR y) = label_xor (h x) (h y)"
  shows "h x = gf_sum (\<lambda>i. h (push_bit i 1)) (bit x) 64"
proof -
  have z: "h 0 = label_zero" by (metis add lx.xor_self xor_self_eq)
  have "h (take_bit n x) = gf_sum (\<lambda>i. h (push_bit i 1)) (bit x) n" for n
  proof (induction n)
    case (Suc n)
    have "take_bit (Suc n) x = take_bit n x XOR (if bit x n then push_bit n 1 else 0)"
      by (rule bit_eqI) (auto simp: bit_simps less_Suc_eq)
    with Suc show ?case by (simp add: add z)
  qed (simp add: z)
  from this [of 64] show ?thesis by (simp add: take_bit_word_eq_self)
qed

lemma additive_eqI:
  fixes h :: "u64 \<Rightarrow> Label"
  assumes "\<And>x y. h (x XOR y) = label_xor (h x) (h y)" "\<And>x y. g (x XOR y) = label_xor (g x) (g y)"
    and "\<And>i. i < 64 \<Longrightarrow> bit x i \<Longrightarrow> h (push_bit i 1) = g (push_bit i 1)"
  shows "h x = g x"
  using additive_basis [of h x, OF assms(1)] additive_basis [of g x, OF assms(2)]
    gf_sum_cong [OF assms(3)] by simp

section \<open>Reduction\<close>

definition fold_high :: "Label \<Rightarrow> Label" where
  "fold_high hi = reduceGF128 label_zero hi"

lemmas shift_nosimp = push_bit_Suc One_nat_def

lemma reduceGF128_split: "reduceGF128 lo hi = label_xor lo (fold_high hi)"
  by (rule label_eqI) (simp_all add: fold_high_def reduceGF128_def Let_def label_zero_def ac_simps
      del: shift_nosimp)

lemma fold_high_xor: "fold_high (label_xor a b) = label_xor (fold_high a) (fold_high b)"
  by (rule label_eqI) (simp_all add: fold_high_def reduceGF128_def Let_def label_zero_def ac_simps
      del: shift_nosimp)

text \<open>Multiplication by x before the reduction of the high half is multiplication by x after it.\<close>

definition shift_high :: "Label \<Rightarrow> Label" where
  "shift_high h = \<lparr>D0 = push_bit 1 (D0 h), D1 = push_bit 1 (D1 h) XOR drop_bit 63 (D0 h)\<rparr>"

lemma shift_high_xor: "shift_high (label_xor a b) = label_xor (shift_high a) (shift_high b)"
  by (rule label_eqI) (simp_all add: shift_high_def ac_simps del: shift_nosimp)

text \<open>
  On a word below 2^56 no bit leaves the word, and both sides are the same shifts; the
  remaining fifteen monomials are evaluated.
\<close>

lemma shift_small:
  fixes e :: u64
  assumes e: "\<And>k. 56 \<le> k \<Longrightarrow> \<not> bit e k"
  shows "fold_high (shift_high \<lparr>D0 = e, D1 = 0\<rparr>) = xtimes (fold_high \<lparr>D0 = e, D1 = 0\<rparr>)"
    "fold_high (shift_high \<lparr>D0 = 0, D1 = e\<rparr>) = xtimes (fold_high \<lparr>D0 = 0, D1 = e\<rparr>)"
proof -
  have d: "drop_bit k (push_bit j e) = 0" if "56 + j \<le> k" for k j
  proof (rule bit_eqI)
    fix n show "bit (drop_bit k (push_bit j e)) n = bit 0 n"
      using that e [of "k + n - j"] by (simp add: bit_push_bit_iff bit_drop_bit_eq)
  qed
  have d0: "drop_bit k e = 0" if "57 \<le> k" for k using that d [of 0 k] by simp
  have d1: "drop_bit k (push_bit 1 e) = 0" if "57 \<le> k" for k using that d [of 1 k] by simp
  note d2 = d [of 2 63, simplified] d [of 7 63, simplified]
  have t: "\<not> bit (push_bit k e) 63" if "k \<le> 7" for k
    using e [of "63 - k"] that by (simp add: bit_push_bit_iff)
  have p: "push_bit 2 (push_bit 1 e) = push_bit 1 (push_bit 2 e)"
    "push_bit 7 (push_bit 1 e) = push_bit 1 (push_bit 7 e)"
    unfolding push_bit_push_bit by (simp_all only: add.commute)
  note s = fold_high_def shift_high_def xtimes_def reduceGF128_def Let_def label_zero_def
  show "fold_high (shift_high \<lparr>D0 = e, D1 = 0\<rparr>) = xtimes (fold_high \<lparr>D0 = e, D1 = 0\<rparr>)"
    unfolding s by (simp add: d0 d1 d2 p del: push_bit_Suc One_nat_def)
  have "\<not> bit (e XOR push_bit 1 e XOR push_bit 2 e XOR push_bit 7 e) 63"
    using t [of 0] t [of 1] t [of 2] t [of 7] e [of 63] by (simp only: bit_xor_iff) simp
  then show "fold_high (shift_high \<lparr>D0 = 0, D1 = e\<rparr>) = xtimes (fold_high \<lparr>D0 = 0, D1 = e\<rparr>)"
    unfolding s by (simp add: d0 d1 p del: push_bit_Suc One_nat_def bit_xor_iff)
qed

lemma top_monomials:
  "\<forall>i \<in> set [56..<64]. fold_high (shift_high \<lparr>D0 = push_bit i 1, D1 = 0\<rparr>) =
     xtimes (fold_high \<lparr>D0 = push_bit i 1, D1 = 0\<rparr>)"
  "\<forall>i \<in> set [56..<63]. fold_high (shift_high \<lparr>D0 = 0, D1 = push_bit i 1\<rparr>) =
     xtimes (fold_high \<lparr>D0 = 0, D1 = push_bit i 1\<rparr>)"
  by (simp_all add: fold_high_def shift_high_def xtimes_def reduceGF128_def Let_def label_zero_def upt_rec
      del: set_upt)

lemma basis_check:
  "i < 64 \<Longrightarrow> fold_high (shift_high \<lparr>D0 = push_bit i 1, D1 = 0\<rparr>) =
     xtimes (fold_high \<lparr>D0 = push_bit i 1, D1 = 0\<rparr>)"
  "i < 63 \<Longrightarrow> fold_high (shift_high \<lparr>D0 = 0, D1 = push_bit i 1\<rparr>) =
     xtimes (fold_high \<lparr>D0 = 0, D1 = push_bit i 1\<rparr>)"
proof -
  have small: "\<not> bit (push_bit i (1 :: u64)) k" if "i < 56" "56 \<le> k" for k
    using that by (auto simp: bit_push_bit_iff bit_1_iff simp del: push_bit_of_1)
  show "fold_high (shift_high \<lparr>D0 = push_bit i 1, D1 = 0\<rparr>) =
     xtimes (fold_high \<lparr>D0 = push_bit i 1, D1 = 0\<rparr>)" if "i < 64"
  proof (cases "i < 56")
    case True
    show ?thesis by (rule shift_small(1)) (rule small [OF True])
  next
    case False
    then have "i \<in> set [56..<64]" using that unfolding set_upt by simp
    then show ?thesis using top_monomials(1) by blast
  qed
  show "fold_high (shift_high \<lparr>D0 = 0, D1 = push_bit i 1\<rparr>) =
     xtimes (fold_high \<lparr>D0 = 0, D1 = push_bit i 1\<rparr>)" if "i < 63"
  proof (cases "i < 56")
    case True
    show ?thesis by (rule shift_small(2)) (rule small [OF True])
  next
    case False
    then have "i \<in> set [56..<63]" using that unfolding set_upt by simp
    then show ?thesis using top_monomials(2) by blast
  qed
qed

lemma fold_high_shift:
  assumes "\<not> bit (D1 h) 63"
  shows "fold_high (shift_high h) = xtimes (fold_high h)"
proof -
  have split: "h = label_xor \<lparr>D0 = D0 h, D1 = 0\<rparr> \<lparr>D0 = 0, D1 = D1 h\<rparr>" by (simp add: label_xor_def)
  have l: "\<lparr>D0 = x XOR y, D1 = 0\<rparr> = label_xor \<lparr>D0 = x, D1 = 0\<rparr> \<lparr>D0 = y, D1 = 0\<rparr>"
    "\<lparr>D0 = 0, D1 = x XOR y\<rparr> = label_xor \<lparr>D0 = 0, D1 = x\<rparr> \<lparr>D0 = 0, D1 = y\<rparr>" for x y :: u64
    by (simp_all add: label_xor_def)
  have "fold_high (shift_high \<lparr>D0 = D0 h, D1 = 0\<rparr>) = xtimes (fold_high \<lparr>D0 = D0 h, D1 = 0\<rparr>)"
    by (rule additive_eqI [of "\<lambda>x. fold_high (shift_high \<lparr>D0 = x, D1 = 0\<rparr>)"])
      (erule basis_check | simp only: l fold_high_xor shift_high_xor xtimes_xor)+
  moreover have "fold_high (shift_high \<lparr>D0 = 0, D1 = D1 h\<rparr>) = xtimes (fold_high \<lparr>D0 = 0, D1 = D1 h\<rparr>)"
  proof (rule additive_eqI [of "\<lambda>x. fold_high (shift_high \<lparr>D0 = 0, D1 = x\<rparr>)"])
    fix i assume "i < 64" "bit (D1 h) i"
    with assms have "i < 63" by (cases "i = 63") simp_all
    then show "fold_high (shift_high \<lparr>D0 = 0, D1 = push_bit i 1\<rparr>) =
        xtimes (fold_high \<lparr>D0 = 0, D1 = push_bit i 1\<rparr>)" by (rule basis_check)
  qed (simp_all add: l fold_high_xor shift_high_xor xtimes_xor)
  ultimately show ?thesis
    by (subst split, subst (2) split) (simp only: fold_high_xor shift_high_xor xtimes_xor)
qed

section \<open>The accelerated path\<close>

text \<open>The multiplicand shifted by \<open>i\<close> as a 256-bit value, low half and high half.\<close>

definition wide_low :: "nat \<Rightarrow> Label \<Rightarrow> Label \<times> Label" where
  "wide_low i a =
     (\<lparr>D0 = push_bit i (D0 a), D1 = drop_bit (64 - i) (D0 a) XOR push_bit i (D1 a)\<rparr>,
      \<lparr>D0 = drop_bit (64 - i) (D1 a), D1 = 0\<rparr>)"

definition wide_high :: "nat \<Rightarrow> Label \<Rightarrow> Label \<times> Label" where
  "wide_high i a =
     (\<lparr>D0 = 0, D1 = push_bit i (D0 a)\<rparr>,
      \<lparr>D0 = drop_bit (64 - i) (D0 a) XOR push_bit i (D1 a), D1 = drop_bit (64 - i) (D1 a)\<rparr>)"

lemma shift_join:
  assumes "i < 64"
  shows "push_bit 1 (drop_bit (64 - i) (x :: u64)) XOR drop_bit 63 (push_bit i x) = drop_bit (64 - Suc i) x"
proof (rule bit_eqI)
  fix n assume "possible_bit TYPE(u64) n"
  then have n: "n < 64" by simp
  have "0 < n \<Longrightarrow> 64 - i + (n - 1) = 64 - Suc i + n" using assms by linarith
  then show "bit (push_bit 1 (drop_bit (64 - i) x) XOR drop_bit 63 (push_bit i x)) n =
      bit (drop_bit (64 - Suc i) x) n"
    using n assms
    by (cases n) (simp_all add: bit_xor_iff bit_push_bit_iff bit_drop_bit_eq del: shift_nosimp)
qed

lemma reduce_shift:
  assumes "\<not> bit (D1 hi) 63"
  shows "reduceGF128 \<lparr>D0 = push_bit 1 (D0 lo), D1 = push_bit 1 (D1 lo) XOR drop_bit 63 (D0 lo)\<rparr>
      (label_xor (shift_high hi) \<lparr>D0 = drop_bit 63 (D1 lo), D1 = 0\<rparr>) = xtimes (reduceGF128 lo hi)"
proof -
  have "fold_high \<lparr>D0 = drop_bit 63 (D1 lo), D1 = 0\<rparr> = \<lparr>D0 = if bit (D1 lo) 63 then 0x87 else 0, D1 = 0\<rparr>"
    unfolding top_bit by (simp add: fold_high_def reduceGF128_def Let_def label_zero_def)
  moreover have "xtimes lo = label_xor
      \<lparr>D0 = push_bit 1 (D0 lo), D1 = push_bit 1 (D1 lo) XOR drop_bit 63 (D0 lo)\<rparr>
      \<lparr>D0 = if bit (D1 lo) 63 then 0x87 else 0, D1 = 0\<rparr>"
    by (simp add: xtimes_def label_xor_def)
  ultimately show ?thesis
    by (simp add: reduceGF128_split fold_high_xor xtimes_xor fold_high_shift [OF assms] label_algebra)
qed

lemma drop63_drop: "i < 64 \<Longrightarrow> drop_bit 63 (drop_bit (64 - i) (x :: u64)) = 0"
  by (intro bit_eqI) (auto simp: bit_drop_bit_eq dest: bit_imp_le_length)

lemma wide_low_Suc:
  assumes "i < 64" "wide_low i a = (lo, hi)"
  shows "wide_low (Suc i) a =
    (\<lparr>D0 = push_bit 1 (D0 lo), D1 = push_bit 1 (D1 lo) XOR drop_bit 63 (D0 lo)\<rparr>,
     label_xor (shift_high hi) \<lparr>D0 = drop_bit 63 (D1 lo), D1 = 0\<rparr>)"
proof -
  have p: "push_bit (Suc i) x = push_bit 1 (push_bit i x)" for x :: u64
    unfolding push_bit_push_bit by simp
  show ?thesis
    using assms shift_join [OF assms(1), of "D0 a"] shift_join [OF assms(1), of "D1 a"]
    by (auto simp: wide_low_def shift_high_def label_xor_def drop63_drop [OF assms(1)] p ac_simps simp del: shift_nosimp)
qed

lemma reduce_wide_low: "i \<le> 64 \<Longrightarrow> (case wide_low i a of (lo, hi) \<Rightarrow> reduceGF128 lo hi) = xpow i a"
proof (induction i)
  case 0
  have "fold_high \<lparr>D0 = 0, D1 = 0\<rparr> = label_zero"
    by (simp add: fold_high_def reduceGF128_def Let_def label_zero_def)
  then show ?case by (simp add: wide_low_def reduceGF128_split label_algebra)
next
  case (Suc i)
  obtain lo hi where w: "wide_low i a = (lo, hi)" by force
  then have "\<not> bit (D1 hi) 63" by (auto simp: wide_low_def)
  from reduce_shift [OF this, of lo] w Suc show ?case by (simp add: wide_low_Suc)
qed

lemma wide_high_Suc:
  assumes "i < 64" "wide_high i a = (lo, hi)"
  shows "wide_high (Suc i) a =
    (\<lparr>D0 = push_bit 1 (D0 lo), D1 = push_bit 1 (D1 lo) XOR drop_bit 63 (D0 lo)\<rparr>,
     label_xor (shift_high hi) \<lparr>D0 = drop_bit 63 (D1 lo), D1 = 0\<rparr>)" "\<not> bit (D1 hi) 63"
proof -
  have p: "push_bit (Suc i) x = push_bit 1 (push_bit i x)" for x :: u64
    unfolding push_bit_push_bit by simp
  show "wide_high (Suc i) a =
    (\<lparr>D0 = push_bit 1 (D0 lo), D1 = push_bit 1 (D1 lo) XOR drop_bit 63 (D0 lo)\<rparr>,
     label_xor (shift_high hi) \<lparr>D0 = drop_bit 63 (D1 lo), D1 = 0\<rparr>)"
    using assms shift_join [OF assms(1), of "D0 a"] shift_join [OF assms(1), of "D1 a"]
    by (auto simp: wide_high_def shift_high_def label_xor_def drop63_drop [OF assms(1)] p ac_simps simp del: shift_nosimp)
  have "\<not> bit (D1 a) (64 - i + 63)" using assms(1) by (auto dest: bit_imp_le_length)
  then show "\<not> bit (D1 hi) 63" using assms(2) by (auto simp: wide_high_def bit_drop_bit_eq)
qed

lemma reduce_wide_high: "i \<le> 64 \<Longrightarrow> (case wide_high i a of (lo, hi) \<Rightarrow> reduceGF128 lo hi) = xpow (64 + i) a"
proof (induction i)
  case 0
  have "wide_high 0 a = wide_low 64 a" by (simp add: wide_high_def wide_low_def)
  then show ?case using reduce_wide_low [of 64 a] by simp
next
  case (Suc i)
  obtain lo hi where w: "wide_high i a = (lo, hi)" by force
  have i: "i < 64" using Suc by simp
  from reduce_shift [OF wide_high_Suc(2) [OF i w], of lo] w Suc show ?case
    unfolding add_Suc_right xpow.simps by (simp add: wide_high_Suc(1))
qed

definition shifted :: "u64 \<Rightarrow> nat \<Rightarrow> Label" where
  "shifted x i = \<lparr>D0 = push_bit i x, D1 = drop_bit (64 - i) x\<rparr>"

lemma pclmul_sum: "pclmul x y = gf_sum (shifted x) (bit y) 64"
proof -
  have "fold (\<lambda>i acc. if bit y i
             then label_xor acc \<lparr>D0 = push_bit i x, D1 = drop_bit (64 - i) x\<rparr> else acc)
       [0..<n] label_zero = gf_sum (shifted x) (bit y) n" for n
    by (induction n) (simp_all add: shifted_def label_algebra)
  then show ?thesis by (simp add: pclmul_def)
qed

text \<open>The byte shifts \<open>PSLLDQ $8\<close> and \<open>PSRLDQ $8\<close>.\<close>

definition limb_up :: "Label \<Rightarrow> Label" where
  "limb_up l = \<lparr>D0 = 0, D1 = D0 l\<rparr>"

definition limb_down :: "Label \<Rightarrow> Label" where
  "limb_down l = \<lparr>D0 = D1 l, D1 = 0\<rparr>"

lemma limb_xor:
  "limb_up (label_xor l r) = label_xor (limb_up l) (limb_up r)"
  "limb_down (label_xor l r) = label_xor (limb_down l) (limb_down r)"
  by (simp_all add: limb_up_def limb_down_def label_xor_def)

lemma clmul128_limbs:
  "clmul128 a b =
    (label_xor (pclmul (D0 a) (D0 b)) (limb_up (label_xor (pclmul (D1 a) (D0 b)) (pclmul (D0 a) (D1 b)))),
     label_xor (pclmul (D1 a) (D1 b)) (limb_down (label_xor (pclmul (D1 a) (D0 b)) (pclmul (D0 a) (D1 b)))))"
  by (simp add: clmul128_def Let_def limb_up_def limb_down_def)

text \<open>The terms the two words of the second factor contribute.\<close>

lemma low_term:
  assumes "i < 64"
  shows "label_xor (shifted (D0 a) i)
      (label_xor (limb_up (shifted (D1 a) i)) (fold_high (limb_down (shifted (D1 a) i)))) = xpow i a"
  using reduce_wide_low [of i a] assms
  by (simp add: wide_low_def reduceGF128_split shifted_def limb_up_def limb_down_def label_xor_def ac_simps)

lemma high_term:
  assumes "i < 64"
  shows "label_xor (limb_up (shifted (D0 a) i))
      (label_xor (fold_high (shifted (D1 a) i)) (fold_high (limb_down (shifted (D0 a) i)))) = xpow (64 + i) a"
proof -
  have "snd (wide_high i a) = label_xor (shifted (D1 a) i) (limb_down (shifted (D0 a) i))"
    "fst (wide_high i a) = limb_up (shifted (D0 a) i)"
    by (simp_all add: wide_high_def shifted_def limb_up_def limb_down_def label_xor_def ac_simps)
  then show ?thesis
    using reduce_wide_high [of i a] assms by (simp add: reduceGF128_split fold_high_xor case_prod_beta)
qed

lemma gf128MulGeneric_halves:
  "gf128MulGeneric a b = label_xor (gf_sum (\<lambda>i. xpow i a) (bit (D0 b)) 64)
      (gf_sum (\<lambda>i. xpow (64 + i) a) (bit (D1 b)) 64)"
proof -
  have "gf_sum (\<lambda>i. xpow i a) (lbit b) 64 = gf_sum (\<lambda>i. xpow i a) (bit (D0 b)) 64"
    unfolding lbit_def by (rule gf_sum_cong_bits) simp
  moreover have "(\<lambda>i. lbit b (64 + i)) = bit (D1 b)" by (rule ext) (simp add: lbit_def)
  ultimately show ?thesis
    using gf_sum_add [of "\<lambda>i. xpow i a" "lbit b" 64 64] by (simp add: gf128MulGeneric_sum)
qed

text \<open>C11. The accelerated multiplication returns, with and without the processor
  instruction, the product the portable loop computes, for all operands.\<close>

theorem gf128Mul_equivalent: "gf128Mul_amd64 hasPCLMULQDQ a b = gf128MulGeneric a b"
proof (cases hasPCLMULQDQ)
  case True
  have "gf128Mul_amd64 hasPCLMULQDQ a b =
    label_xor (label_xor (pclmul (D0 a) (D0 b))
        (label_xor (limb_up (pclmul (D1 a) (D0 b))) (fold_high (limb_down (pclmul (D1 a) (D0 b))))))
      (label_xor (limb_up (pclmul (D0 a) (D1 b)))
        (label_xor (fold_high (pclmul (D1 a) (D1 b))) (fold_high (limb_down (pclmul (D0 a) (D1 b))))))"
    using True
    by (simp add: gf128Mul_amd64_def clmul128_limbs reduceGF128_split limb_xor fold_high_xor label_algebra)
  also have "\<dots> = gf128MulGeneric a b"
    unfolding gf128MulGeneric_halves pclmul_sum gf_sum_hom [of limb_up, OF limb_xor(1)]
      gf_sum_hom [of limb_down, OF limb_xor(2)] gf_sum_hom [of fold_high, OF fold_high_xor]
      gf_sum_xor_terms [symmetric]
    by (intro arg_cong2 [of _ _ _ _ label_xor] gf_sum_cong) (simp_all add: low_term high_term)
  finally show ?thesis .
qed (simp add: gf128Mul_amd64_def)

end
