(* ===== verification/Kos_Extension.thy ===== *)
theory Kos_Extension
  imports Ot_Pools Bit_Transpose Gf128 Crypto_Std
begin

text \<open>
  The KOS oblivious-transfer extension of \<open>mpc/ot_extension.go\<close>, with the epoch strings of
  \<open>mpc/precompute_wire.go\<close> it validates. The extension receiver (TEE_T) expands its 128 base
  seed pairs to a bit matrix and commits to it; the extension sender (TEE_K) expands the
  seeds its correlation selected, samples a challenge, checks 128 proof equations and only
  then hashes the rows of its matrix.

  Session identifiers, hashes and Go strings are byte lists. \<open>aes.NewCipher\<close> cannot fail on
  the 16-byte keys used here, so its error branches do not appear.
\<close>

section \<open>Epochs\<close>

definition extensionEpochPrefix :: bytes where "extensionEpochPrefix = ascii ''kos2:''"

definition maxEpochLength :: nat where "maxEpochLength = 256"

definition continuation :: "u8 \<Rightarrow> u8 \<Rightarrow> u8 \<Rightarrow> bool" where
  "continuation lo hi b \<longleftrightarrow> lo \<le> b \<and> b \<le> hi"

text \<open>\<open>utf8.ValidString\<close>: the table of first bytes and of the range of the second byte.\<close>

fun utf8_valid :: "bytes \<Rightarrow> bool" where
  "utf8_valid [] \<longleftrightarrow> True"
| "utf8_valid (b # bs) \<longleftrightarrow>
     (if b < 0x80 then utf8_valid bs
      else case bs of
        [] \<Rightarrow> False
      | c # cs \<Rightarrow>
          if 0xC2 \<le> b \<and> b \<le> 0xDF then continuation 0x80 0xBF c \<and> utf8_valid cs
          else case cs of
            [] \<Rightarrow> False
          | d # ds \<Rightarrow>
              if b = 0xE0 then continuation 0xA0 0xBF c \<and> continuation 0x80 0xBF d \<and> utf8_valid ds
              else if b = 0xED then continuation 0x80 0x9F c \<and> continuation 0x80 0xBF d \<and> utf8_valid ds
              else if 0xE1 \<le> b \<and> b \<le> 0xEF
              then continuation 0x80 0xBF c \<and> continuation 0x80 0xBF d \<and> utf8_valid ds
              else case ds of
                [] \<Rightarrow> False
              | e # es \<Rightarrow>
                  continuation 0x80 0xBF d \<and> continuation 0x80 0xBF e \<and> utf8_valid es \<and>
                  (if b = 0xF0 then continuation 0x90 0xBF c
                   else if 0xF1 \<le> b \<and> b \<le> 0xF3 then continuation 0x80 0xBF c
                   else b = 0xF4 \<and> continuation 0x80 0x8F c))"

definition validateExtensionEpoch :: "bytes \<Rightarrow> mpc_error + unit" where
  "validateExtensionEpoch epoch =
     (if length epoch \<le> length extensionEpochPrefix \<or> length epoch > maxEpochLength \<or>
         \<not> utf8_valid epoch
      then Inl (Wire InvalidEpoch)
      else if take (length extensionEpochPrefix) epoch \<noteq> extensionEpochPrefix
      then Inl (Wire UnsupportedEpochVersion)
      else Inr ())"

definition InitialExtensionEpoch :: "bytes \<Rightarrow> mpc_error + bytes" where
  "InitialExtensionEpoch nonce =
     (if nonce = [] then Inl (Wire EmptyNonce)
      else let epoch = extensionEpochPrefix @ nonce
        in bindE (validateExtensionEpoch epoch) (\<lambda>_. Inr epoch))"

definition hex_digit :: "u8 \<Rightarrow> u8" where
  "hex_digit n = (if n < 10 then 0x30 + n else 0x57 + n)"

definition hex_encode :: "bytes \<Rightarrow> bytes" where
  "hex_encode bs = concat (map (\<lambda>b. [hex_digit (drop_bit 4 b), hex_digit (b AND 0x0f)]) bs)"

definition ExtensionEpoch :: "bytes \<Rightarrow> bytes" where
  "ExtensionEpoch sessionID = extensionEpochPrefix @ hex_encode sessionID"

definition IsCurrentExtensionEpoch :: "bytes \<Rightarrow> bool" where
  "IsCurrentExtensionEpoch epoch \<longleftrightarrow> validateExtensionEpoch epoch = Inr ()"

section \<open>Messages and states\<close>

definition KOSCheckOTs :: nat where "KOSCheckOTs = 128"

definition maxExtensionOTs :: nat where "maxExtensionOTs = push_bit 24 1"

definition baseCipherMessageSize :: nat where "baseCipherMessageSize = 4 + 32 + BaseOTCount * 32"

lemma KOSCheckOTs_val [simp]: "KOSCheckOTs = 128"
  by (simp add: KOSCheckOTs_def)

lemma maxExtensionOTs_val [simp]: "maxExtensionOTs = 16777216"
  by (simp add: maxExtensionOTs_def)

definition tmmoKey :: bytes where
  "tmmoKey = take 16 (sha256 (ascii ''reclaim-tee/mpc/kos/tmmo/v1''))"

record BaseOTSeedPair =
  SeedZero :: Label
  SeedOne :: Label

record ExtensionCommitment =
  cSessionID :: bytes
  cStartIndex :: u64
  cCount :: u32
  PaddedCount :: u32
  EpochHash :: bytes
  cTranscript :: bytes
  matU :: bytes

record ExtensionChallenge =
  chSessionID :: bytes
  chCommitment :: bytes
  chTranscript :: bytes
  Chi :: "Label list"

record ExtensionProof =
  prSessionID :: bytes
  prTranscript :: bytes
  proofX :: Label
  proofT :: "Label list"

record ExtensionReceiverState =
  rsCommitment :: ExtensionCommitment
  rsChoices :: bytes
  tMatrix :: bytes
  rsUsed :: bool

record ExtensionSenderState =
  ssCommitment :: ExtensionCommitment
  challengeTranscript :: bytes
  delta :: Label
  qChecks :: "Label list"
  rows :: "Label list"
  ssUsed :: bool

section \<open>Helpers\<close>

definition extensionPaddedCount :: "int \<Rightarrow> mpc_error + nat" where
  "extensionPaddedCount count =
     (if count \<le> 0 \<or> count > int maxExtensionOTs then Inl (Extension InvalidExtensionCount)
      else let total = nat count + KOSCheckOTs in Inr (and_not (total + BaseOTCount - 1) (BaseOTCount - 1)))"

definition extensionChallengeCount :: "nat \<Rightarrow> nat" where
  "extensionChallengeCount padded = (padded - KOSCheckOTs) div 128"

definition deltaBit :: "Label \<Rightarrow> nat \<Rightarrow> bool" where
  "deltaBit d n \<longleftrightarrow>
     (if n < 64 then D0 d AND push_bit n 1 \<noteq> 0 else D1 d AND push_bit (n - 64) 1 \<noteq> 0)"

definition tmmoHash :: "Label \<Rightarrow> u64 \<Rightarrow> Label" where
  "tmmoHash value tw =
     (let encrypted = aesEncrypt tmmoKey (label_put value);
          inp = slice encrypted 0 8 @ be_put 8 (be_get (slice encrypted 8 16) XOR tw)
      in label_xor (labelFromBytes (aesEncrypt tmmoKey inp)) (labelFromBytes encrypted))"

definition expandSeed :: "Label \<Rightarrow> bytes \<Rightarrow> nat \<Rightarrow> nat \<Rightarrow> bytes" where
  "expandSeed seed sessionID column n =
     (let tag = ascii ''reclaim-tee/mpc/iknp/prg/v1'';
          material = tag @ replicate (32 - length tag) 0 @ sessionID @ [of_nat column] @ label_put seed;
          key = take 16 (sha256 material)
      in take n (concat (map (\<lambda>v. aesEncrypt key (replicate 8 0 @ be_put 8 (of_nat v :: u64)))
                   [0..<(n + 15) div 16])))"

definition extensionEpochHash :: "bytes \<Rightarrow> bytes" where
  "extensionEpochHash epoch =
     sha256 (ascii ''reclaim-tee/mpc/kos/repetition/v2/epoch'' @
             be_put 4 (of_nat (length epoch) :: u32) @ epoch)"

definition extensionTranscript :: "bytes \<Rightarrow> ExtensionCommitment \<Rightarrow> bytes" where
  "extensionTranscript cipherMessage c =
     sha256 (ascii ''reclaim-tee/mpc/kos/repetition/v2/transcript'' @ ascii ''KOC2'' @
             cSessionID c @ be_put 8 (cStartIndex c) @ be_put 4 (cCount c) @ be_put 4 (PaddedCount c) @
             EpochHash c @ cipherMessage @ matU c)"

definition extensionChallengeTranscript :: "ExtensionChallenge \<Rightarrow> bytes" where
  "extensionChallengeTranscript ch =
     sha256 (ascii ''reclaim-tee/mpc/kos/repetition/v2/challenge'' @ chSessionID ch @ chCommitment ch @
             be_put 4 (of_nat (length (Chi ch)) :: u32) @ concat (map label_put (Chi ch)))"

definition validateBaseCipherForTranscript :: "bytes \<Rightarrow> bytes \<Rightarrow> mpc_error + unit" where
  "validateBaseCipherForTranscript cipherMessage sessionID =
     (if length cipherMessage \<noteq> baseCipherMessageSize \<or> slice cipherMessage 0 4 \<noteq> ascii ''BOT1''
      then Inl (Extension InvalidBaseCipher)
      else if slice cipherMessage 4 36 \<noteq> sessionID then Inl (Extension BaseCipherSession)
      else Inr ())"

definition validateExtensionCommitment ::
  "bytes \<Rightarrow> bytes \<Rightarrow> ExtensionCommitment option \<Rightarrow> mpc_error + unit" where
  "validateExtensionCommitment epoch cipherMessage co =
     (case co of
        None \<Rightarrow> Inl (Wire NilMessage)
      | Some c \<Rightarrow>
          bindE (validateExtensionEpoch epoch) (\<lambda>_.
          bindE (validateBaseCipherForTranscript cipherMessage (cSessionID c)) (\<lambda>_.
          bindE (extensionPaddedCount (int (unat (cCount c)))) (\<lambda>padded.
          if unat (PaddedCount c) \<noteq> padded then Inl (Extension PaddedCountMismatch)
          else bindE (checkedIndexEnd (cStartIndex c) (int (unat (cCount c)))) (\<lambda>_.
          if length (matU c) \<noteq> BaseOTCount * padded div 8 then Inl (Extension MatrixLength)
          else if EpochHash c \<noteq> extensionEpochHash epoch then Inl (Extension EpochMismatch)
          else if cTranscript c \<noteq> extensionTranscript cipherMessage c
          then Inl (Extension TranscriptMismatch)
          else Inr ())))))"

definition validateExtensionChallenge ::
  "ExtensionCommitment \<Rightarrow> ExtensionChallenge option \<Rightarrow> mpc_error + unit" where
  "validateExtensionChallenge c cho =
     (case cho of
        None \<Rightarrow> Inl (Wire NilMessage)
      | Some ch \<Rightarrow>
          if chSessionID ch \<noteq> cSessionID c \<or> chCommitment ch \<noteq> cTranscript c
          then Inl (Extension TranscriptMismatch)
          else if length (Chi ch) \<noteq> extensionChallengeCount (unat (PaddedCount c))
          then Inl (Extension ChallengeLength)
          else if chTranscript ch \<noteq> extensionChallengeTranscript ch
          then Inl (Extension TranscriptMismatch)
          else Inr ())"

text \<open>The loop \<open>check = check.xor(gf128Mul(block, coefficient))\<close> over the challenge.\<close>

definition repetition_check :: "bytes \<Rightarrow> nat \<Rightarrow> Label list \<Rightarrow> Label" where
  "repetition_check column mainBytes chi =
     foldl (\<lambda>check (blk, coefficient).
         label_xor check (gf128MulGeneric (labelFromBytes (slice column (blk * 16) (blk * 16 + 16))) coefficient))
       (labelFromBytes (slice column mainBytes (mainBytes + 16)))
       (enumerate 0 chi)"

definition repetitionColumnChecks :: "bytes \<Rightarrow> nat \<Rightarrow> Label list \<Rightarrow> Label list" where
  "repetitionColumnChecks matrix padded chi =
     (let mainBytes = (padded - KOSCheckOTs) div 8; byteRows = padded div 8 in
      map (\<lambda>col. repetition_check (slice matrix (col * byteRows) ((col + 1) * byteRows)) mainBytes chi)
        [0..<BaseOTCount])"

definition repetitionReceiverProof :: "bytes \<Rightarrow> bytes \<Rightarrow> nat \<Rightarrow> Label list \<Rightarrow> Label \<times> Label list" where
  "repetitionReceiverProof cs matrix padded chi =
     (repetition_check cs ((padded - KOSCheckOTs) div 8) chi, repetitionColumnChecks matrix padded chi)"

definition hashReceiverOTs :: "Label list \<Rightarrow> bytes \<Rightarrow> u64 \<Rightarrow> int \<Rightarrow> mpc_error + ReceiverOT list" where
  "hashReceiverOTs raw cs startIndex count =
     bindE (checkedIndexEnd startIndex count) (\<lambda>_.
       Inr (map (\<lambda>i. \<lparr>R = tmmoHash (raw ! i) (of_nat i), rIndex = startIndex + of_nat i,
                      Choice = (cs ! (i div 8) AND push_bit (i AND 7) 1 \<noteq> 0)\<rparr>) [0..<nat count]))"

definition hashSenderOTs :: "ExtensionSenderState \<Rightarrow> mpc_error + SenderOT list" where
  "hashSenderOTs state =
     (let count = unat (cCount (ssCommitment state)); start = cStartIndex (ssCommitment state) in
      bindE (checkedIndexEnd start (int count)) (\<lambda>_.
        Inr (map (\<lambda>i. let q0 = rows state ! i; q1 = label_xor q0 (delta state) in
                       \<lparr>R0 = tmmoHash q0 (of_nat i), R1 = tmmoHash q1 (of_nat i),
                        sIndex = start + of_nat i\<rparr>) [0..<count])))"

definition extensionStateCommitment :: "ExtensionCommitment \<Rightarrow> ExtensionCommitment" where
  "extensionStateCommitment c = c\<lparr>matU := []\<rparr>"

definition commitment_zero :: ExtensionCommitment where
  "commitment_zero =
     \<lparr>cSessionID = replicate 32 0, cStartIndex = 0, cCount = 0, PaddedCount = 0,
      EpochHash = replicate 32 0, cTranscript = replicate 32 0, matU = []\<rparr>"

definition clearExtensionReceiverState :: "ExtensionReceiverState \<Rightarrow> ExtensionReceiverState" where
  "clearExtensionReceiverState s = s\<lparr>rsChoices := [], tMatrix := [], rsCommitment := commitment_zero\<rparr>"

definition clearExtensionSenderState :: "ExtensionSenderState \<Rightarrow> ExtensionSenderState" where
  "clearExtensionSenderState s =
     s\<lparr>qChecks := replicate BaseOTCount label_zero, rows := [], delta := label_zero,
       challengeTranscript := replicate 32 0, ssCommitment := commitment_zero\<rparr>"

definition extension_receiver_destroy :: "ExtensionReceiverState \<Rightarrow> ExtensionReceiverState" where
  "extension_receiver_destroy s = clearExtensionReceiverState (s\<lparr>rsUsed := True\<rparr>)"

definition extension_sender_destroy :: "ExtensionSenderState \<Rightarrow> ExtensionSenderState" where
  "extension_sender_destroy s = clearExtensionSenderState (s\<lparr>ssUsed := True\<rparr>)"

section \<open>The protocol steps\<close>

definition NewExtensionSession :: "bytes option \<Rightarrow> mpc_error + bytes \<times> bytes" where
  "NewExtensionSession rng =
     (case rng of
        None \<Rightarrow> Inl (Engine NilRandomness)
      | Some source \<Rightarrow> readFull (Engine ShortRandomness) source 32)"

definition receiver_matrix :: "BaseOTSeedPair list \<Rightarrow> bytes \<Rightarrow> nat \<Rightarrow> bytes" where
  "receiver_matrix base sessionID byteRows =
     concat (map (\<lambda>col. expandSeed (SeedZero (base ! col)) sessionID col byteRows) [0..<BaseOTCount])"

definition commitment_matrix :: "BaseOTSeedPair list \<Rightarrow> bytes \<Rightarrow> bytes \<Rightarrow> nat \<Rightarrow> bytes" where
  "commitment_matrix base sessionID cs byteRows =
     concat (map (\<lambda>col.
       let t0 = expandSeed (SeedZero (base ! col)) sessionID col byteRows;
           tmp = expandSeed (SeedOne (base ! col)) sessionID col byteRows
       in xor_bytes (xor_bytes t0 tmp) cs) [0..<BaseOTCount])"

definition StartExtensionReceiver ::
  "bytes option \<Rightarrow> BaseOTSeedPair list \<Rightarrow> bytes \<Rightarrow> bytes \<Rightarrow> bytes \<Rightarrow> u64 \<Rightarrow> int \<Rightarrow>
    mpc_error + ExtensionReceiverState \<times> ExtensionCommitment \<times> ReceiverOT list \<times> bytes" where
  "StartExtensionReceiver rng base epoch cipherMessage sessionID startIndex count =
     (case rng of
        None \<Rightarrow> Inl (Engine NilRandomness)
      | Some source \<Rightarrow>
          bindE (validateExtensionEpoch epoch) (\<lambda>_.
          bindE (validateBaseCipherForTranscript cipherMessage sessionID) (\<lambda>_.
          bindE (extensionPaddedCount count) (\<lambda>padded.
          bindE (checkedIndexEnd startIndex count) (\<lambda>_.
          let byteRows = padded div 8 in
          bindE (readFull (Engine ShortRandomness) source byteRows) (\<lambda>(cs, rest).
          let tm = receiver_matrix base sessionID byteRows;
              u = commitment_matrix base sessionID cs byteRows;
              c = \<lparr>cSessionID = sessionID, cStartIndex = startIndex, cCount = of_int count,
                   PaddedCount = of_nat padded, EpochHash = extensionEpochHash epoch,
                   cTranscript = replicate 32 0, matU = u\<rparr>;
              commitment = c\<lparr>cTranscript := extensionTranscript cipherMessage c\<rparr>;
              raw = transposeColumns tm byteRows padded
          in bindE (hashReceiverOTs raw cs startIndex count) (\<lambda>receiver.
             Inr (\<lparr>rsCommitment = extensionStateCommitment commitment, rsChoices = cs,
                   tMatrix = tm, rsUsed = False\<rparr>, commitment, receiver, rest))))))))"

definition sender_matrix :: "Label list \<Rightarrow> Label \<Rightarrow> ExtensionCommitment \<Rightarrow> nat \<Rightarrow> bytes" where
  "sender_matrix selected d c byteRows =
     concat (map (\<lambda>col.
       let qcol = expandSeed (selected ! col) (cSessionID c) col byteRows in
       if deltaBit d col
       then xor_bytes qcol (slice (matU c) (col * byteRows) ((col + 1) * byteRows))
       else qcol) [0..<BaseOTCount])"

definition StartExtensionSender ::
  "bytes option \<Rightarrow> Label list \<Rightarrow> Label \<Rightarrow> bytes \<Rightarrow> bytes \<Rightarrow> ExtensionCommitment option \<Rightarrow>
    mpc_error + ExtensionSenderState \<times> ExtensionChallenge \<times> bytes" where
  "StartExtensionSender rng selected d epoch cipherMessage co =
     (case rng of
        None \<Rightarrow> Inl (Engine NilRandomness)
      | Some source \<Rightarrow>
          if d = label_zero then Inl (Extension ZeroDelta)
          else bindE (validateExtensionCommitment epoch cipherMessage co) (\<lambda>_.
          case co of
            None \<Rightarrow> Inl Panic
          | Some c \<Rightarrow>
              let padded = unat (PaddedCount c);
                  byteRows = padded div 8;
                  qm = sender_matrix selected d c byteRows;
                  chiCount = extensionChallengeCount padded
              in bindE (readFull (Engine ShortRandomness) source (chiCount * 16)) (\<lambda>(random, rest).
                 let chi = map (\<lambda>i. labelFromBytes (slice random (i * 16) ((i + 1) * 16))) [0..<chiCount];
                     ch0 = \<lparr>chSessionID = cSessionID c, chCommitment = cTranscript c,
                            chTranscript = replicate 32 0, Chi = chi\<rparr>;
                     challenge = ch0\<lparr>chTranscript := extensionChallengeTranscript ch0\<rparr>
                 in Inr (\<lparr>ssCommitment = extensionStateCommitment c,
                          challengeTranscript = chTranscript challenge, delta = d,
                          qChecks = repetitionColumnChecks qm padded chi,
                          rows = transposeColumns qm byteRows padded, ssUsed = False\<rparr>,
                         challenge, rest))))"

definition FinishExtensionReceiver ::
  "ExtensionReceiverState option \<Rightarrow> ExtensionChallenge option \<Rightarrow>
    ExtensionReceiverState option \<times> (mpc_error + ExtensionProof)" where
  "FinishExtensionReceiver so cho =
     (case so of
        None \<Rightarrow> (None, Inl (Extension NilState))
      | Some s \<Rightarrow>
          if rsUsed s then (Some s, Inl (Extension StateAlreadyUsed))
          else (Some (clearExtensionReceiverState (s\<lparr>rsUsed := True\<rparr>)),
            bindE (validateExtensionChallenge (rsCommitment s) cho) (\<lambda>_.
            case cho of
              None \<Rightarrow> Inl Panic
            | Some ch \<Rightarrow>
                let (x, t) = repetitionReceiverProof (rsChoices s) (tMatrix s)
                       (unat (PaddedCount (rsCommitment s))) (Chi ch)
                in Inr \<lparr>prSessionID = cSessionID (rsCommitment s), prTranscript = chTranscript ch,
                        proofX = x, proofT = t\<rparr>)))"

definition check_columns :: "ExtensionSenderState \<Rightarrow> ExtensionProof \<Rightarrow> mpc_error + unit" where
  "check_columns s p =
     foldE (\<lambda>col _.
         let want = (if deltaBit (delta s) col then label_xor (proofT p ! col) (proofX p) else proofT p ! col)
         in if label_put (qChecks s ! col) \<noteq> label_put want then Inl (Extension KOSCheckFailed) else Inr ())
       [0..<BaseOTCount] ()"

definition FinishExtensionSender ::
  "ExtensionSenderState option \<Rightarrow> ExtensionProof option \<Rightarrow>
    ExtensionSenderState option \<times> (mpc_error + SenderOT list)" where
  "FinishExtensionSender so po =
     (case so of
        None \<Rightarrow> (None, Inl (Extension NilState))
      | Some s \<Rightarrow>
          if ssUsed s then (Some s, Inl (Extension StateAlreadyUsed))
          else (Some (clearExtensionSenderState (s\<lparr>ssUsed := True\<rparr>)),
            case po of
              None \<Rightarrow> Inl (Wire NilMessage)
            | Some p \<Rightarrow>
                if prSessionID p \<noteq> cSessionID (ssCommitment s) \<or>
                   prTranscript p \<noteq> challengeTranscript s
                then Inl (Extension TranscriptMismatch)
                else if length (rows s) \<noteq> unat (PaddedCount (ssCommitment s))
                then Inl (Extension IncompleteState)
                else bindE (check_columns s p) (\<lambda>_. hashSenderOTs s)))"

end
