(* ===== verification/Kos_Correct.thy ===== *)
theory Kos_Correct
  imports Kos_Extension
begin

text \<open>
  Correctness of the oblivious-transfer extension: the padded counts, the relation between
  the two parties' matrices, acceptance of an honest proof, agreement of the hashed rows,
  and rejection of every proof that violates one of the 128 equations.
\<close>

section \<open>Counts\<close>

lemma and_not_low_bits: "and_not x (2 ^ k - 1) = x - x mod 2 ^ k"
proof -
  let ?m = "int (2 ^ k - 1)"
  have m: "?m = mask k" by (simp add: mask_eq_exp_minus_1 of_nat_diff)
  have "int x = (int x AND ?m) + (int x AND NOT ?m)"
    by (subst disjunctive_add) (auto simp: bit_simps intro: bit_eqI)
  moreover have "int x AND ?m = int (x mod 2 ^ k)"
    unfolding m take_bit_eq_mask [symmetric] by (simp add: take_bit_eq_mod zmod_int)
  ultimately show ?thesis unfolding and_not_def by linarith
qed

lemma extensionPaddedCount_Inr:
  assumes "extensionPaddedCount count = Inr padded"
  shows "0 < count" "count \<le> 16777216" "padded mod 128 = 0" "nat count + 128 \<le> padded"
    "padded \<le> nat count + 255"
proof -
  show c: "0 < count" "count \<le> 16777216"
    using assms by (auto simp: extensionPaddedCount_def split: if_splits)
  have p: "padded = (nat count + 255) - (nat count + 255) mod 128"
    using assms c and_not_low_bits [of "nat count + 255" 7]
    by (simp add: extensionPaddedCount_def Let_def add.commute split: if_splits)
  show "padded mod 128 = 0" "padded \<le> nat count + 255" unfolding p
    by (simp_all add: minus_mod_eq_mult_div)
  have "(nat count + 255) mod 128 \<le> 127" using mod_less_divisor [of 128 "nat count + 255"] by linarith
  then show "nat count + 128 \<le> padded" unfolding p by linarith
qed

lemma extensionPaddedCount_ok:
  "0 < count \<Longrightarrow> count \<le> 16777216 \<Longrightarrow> \<exists>padded. extensionPaddedCount count = Inr padded"
  by (simp add: extensionPaddedCount_def Let_def)

lemma padded_words:
  assumes "extensionPaddedCount count = Inr padded"
  shows "unat (of_int count :: u32) = nat count" "unat (of_nat padded :: u32) = padded"
proof -
  note p = extensionPaddedCount_Inr [OF assms]
  have "(of_int count :: u32) = of_nat (nat count)" using p(1) by simp
  moreover have "nat count < 2 ^ 32" using p(2) by simp
  ultimately show "unat (of_int count :: u32) = nat count" by (simp add: unat_of_nat)
  show "unat (of_nat padded :: u32) = padded" using p by (simp add: unat_of_nat)
qed

section \<open>Matrices\<close>

lemma length_expandSeed [simp]: "length (expandSeed seed sid col n) = n"
proof -
  have "n \<le> 16 * ((n + 15) div 16)" by linarith
  then show ?thesis
    by (simp add: expandSeed_def Let_def length_concat comp_def sum_list_triv mult.commute)
qed

lemma slice_concat_columns:
  assumes "\<And>k. length (f k) = m" "col < n"
  shows "slice (concat (map f [0..<n])) (col * m) ((col + 1) * m) = f col"
proof -
  have "[0..<n] = [0..<col] @ col # [Suc col..<n]"
    using assms(2) upt_add_eq_append [of 0 col "n - col"] by (simp add: upt_conv_Cons)
  moreover have "length (concat (map f [0..<col])) = col * m"
    by (simp add: length_concat comp_def assms(1) sum_list_triv)
  ultimately show ?thesis
    by (simp add: slice_def assms(1) algebra_simps)
qed

lemma nth_concat_columns:
  assumes "\<And>k. length (f k) = m" "col < n" "j < m"
  shows "concat (map f [0..<n]) ! (col * m + j) = f col ! j"
proof -
  have "0 < m" using assms(3) by simp
  have "(col * m + j) div m = col" "(col * m + j) mod m = j" using assms(3) by simp_all
  moreover have "col * m + j < m * n"
  proof -
    have "col * m + j < (col + 1) * m" using assms(3) by simp
    also have "\<dots> \<le> n * m" using assms(2) by (intro mult_le_mono1) simp
    finally show ?thesis by (simp add: mult.commute)
  qed
  ultimately show ?thesis using nth_concat_blocks [of f m, OF assms(1)] by metis
qed

definition column_of :: "BaseOTSeedPair list \<Rightarrow> bytes \<Rightarrow> nat \<Rightarrow> nat \<Rightarrow> bytes" where
  "column_of base sid byteRows col = expandSeed (SeedZero (base ! col)) sid col byteRows"

lemma length_column_of [simp]: "length (column_of base sid byteRows col) = byteRows"
  by (simp add: column_of_def)

definition masked :: "bool \<Rightarrow> bytes \<Rightarrow> bytes" where
  "masked b cs = (if b then cs else replicate (length cs) 0)"

definition selects :: "Label \<Rightarrow> BaseOTSeedPair list \<Rightarrow> Label list \<Rightarrow> bool" where
  "selects d base selected \<longleftrightarrow>
     (\<forall>col < BaseOTCount. selected ! col = (if deltaBit d col then SeedOne (base ! col) else SeedZero (base ! col)))"

lemma xor_bytes_cancel:
  assumes "length xs = n" "length ys = n" "length cs = n"
  shows "xor_bytes ys (xor_bytes (xor_bytes xs ys) cs) = xor_bytes xs cs"
  using assms by (intro nth_equalityI) (simp_all add: ac_simps)

lemma xor_bytes_zero: "length xs = n \<Longrightarrow> xor_bytes xs (replicate n 0) = xs"
  by (intro nth_equalityI) simp_all

lemma sender_matrix_columns:
  assumes sel: "selects d base selected" and c: "cSessionID c = sid" "matU c = commitment_matrix base sid cs byteRows"
    and len: "length cs = byteRows"
  shows "sender_matrix selected d c byteRows =
    concat (map (\<lambda>col. xor_bytes (column_of base sid byteRows col) (masked (deltaBit d col) cs)) [0..<BaseOTCount])"
proof -
  have u: "slice (matU c) (col * byteRows) ((col + 1) * byteRows) =
      xor_bytes (xor_bytes (column_of base sid byteRows col) (expandSeed (SeedOne (base ! col)) sid col byteRows)) cs"
    if "col < BaseOTCount" for col
    unfolding c commitment_matrix_def column_of_def Let_def
    using that len by (intro slice_concat_columns) simp_all
  show ?thesis
    unfolding sender_matrix_def Let_def
  proof (intro arg_cong [where f = concat] map_cong refl)
    fix col assume "col \<in> set [0..<BaseOTCount]"
    then have col: "col < BaseOTCount" by simp
    show "(if deltaBit d col then xor_bytes (expandSeed (selected ! col) (cSessionID c) col byteRows)
          (slice (matU c) (col * byteRows) ((col + 1) * byteRows))
        else expandSeed (selected ! col) (cSessionID c) col byteRows) =
      xor_bytes (column_of base sid byteRows col) (masked (deltaBit d col) cs)"
    proof (cases "deltaBit d col")
      case True
      with sel col have "selected ! col = SeedOne (base ! col)" by (simp add: selects_def)
      moreover have "xor_bytes (expandSeed (SeedOne (base ! col)) sid col byteRows)
          (slice (matU c) (col * byteRows) ((col + 1) * byteRows)) =
          xor_bytes (column_of base sid byteRows col) cs"
        unfolding u [OF col] column_of_def using len by (intro xor_bytes_cancel) simp_all
      ultimately show ?thesis using True c(1) by (simp add: masked_def)
    next
      case False
      with sel col have "selected ! col = SeedZero (base ! col)" by (simp add: selects_def)
      then show ?thesis using False len c(1) by (simp add: masked_def column_of_def xor_bytes_zero)
    qed
  qed
qed

section \<open>Rows\<close>

lemma and_bit_nonzero: "(w :: 'a::len word) AND push_bit n 1 \<noteq> 0 \<longleftrightarrow> bit w n"
proof
  assume "w AND push_bit n 1 \<noteq> 0"
  then obtain k where "bit (w AND push_bit n 1) k" using bit_eq_iff [of "w AND push_bit n 1" 0] by auto
  then show "bit w n" by (auto simp: bit_and_iff bit_push_bit_iff bit_1_iff simp del: push_bit_of_1)
next
  assume w: "bit w n"
  then have "bit (w AND push_bit n 1) n"
    by (auto simp: bit_and_iff bit_push_bit_iff bit_1_iff dest: bit_imp_le_length simp del: push_bit_of_1)
  then show "w AND push_bit n 1 \<noteq> 0" by auto
qed

lemma deltaBit_lbit: "deltaBit d n = lbit d n"
  unfolding deltaBit_def lbit_def by (simp only: and_bit_nonzero)

definition choice_bit :: "bytes \<Rightarrow> nat \<Rightarrow> bool" where
  "choice_bit cs i \<longleftrightarrow> bit (cs ! (i div 8)) (i mod 8)"

lemma choice_bit_test: "(cs ! (i div 8) AND push_bit (i AND 7) 1 \<noteq> 0) = choice_bit cs i" for cs :: bytes
proof -
  have "i AND 7 = i mod 8" using take_bit_eq_mask [of 3 i] by (simp add: mask_eq_exp_minus_1 take_bit_eq_mod)
  then show ?thesis unfolding choice_bit_def by (simp only: and_bit_nonzero)
qed

lemma row_correlation:
  assumes n: "n = 8 * byteRows" "n mod 128 = 0" and f: "\<And>k. length (f k) = byteRows"
    and cs: "length cs = byteRows" and i: "i < n"
  shows "transposeColumns (concat (map (\<lambda>col. xor_bytes (f col) (masked (deltaBit d col) cs)) [0..<128])) byteRows n ! i =
    label_xor (transposeColumns (concat (map f [0..<128])) byteRows n ! i)
      (if choice_bit cs i then d else label_zero)"
proof (rule label_bit_eqI)
  fix j :: nat assume j: "j < 128"
  have b: "i div 8 < byteRows" using i n by (simp add: less_mult_imp_div_less mult.commute)
  have m: "length (masked x cs) = byteRows" for x by (simp add: masked_def cs)
  have "lbit (transposeColumns (concat (map (\<lambda>col. xor_bytes (f col) (masked (deltaBit d col) cs)) [0..<128])) byteRows n ! i) j
      = bit (xor_bytes (f j) (masked (deltaBit d j) cs) ! (i div 8)) (i mod 8)"
    using n i j b f m
    by (subst transposeColumns_bit)
      (simp_all add: length_concat comp_def sum_list_triv nth_concat_columns [where m = byteRows])
  also have "\<dots> = (bit (f j ! (i div 8)) (i mod 8) \<noteq> (lbit d j \<and> choice_bit cs i))"
    using b f cs m by (auto simp: masked_def choice_bit_def deltaBit_lbit bit_xor_iff)
  also have "bit (f j ! (i div 8)) (i mod 8) =
      lbit (transposeColumns (concat (map f [0..<128])) byteRows n ! i) j"
    using n i j b f
    by (subst transposeColumns_bit)
      (simp_all add: length_concat comp_def sum_list_triv nth_concat_columns [where m = byteRows])
  finally show "lbit (transposeColumns (concat (map (\<lambda>col. xor_bytes (f col) (masked (deltaBit d col) cs)) [0..<128])) byteRows n ! i) j =
      lbit (label_xor (transposeColumns (concat (map f [0..<128])) byteRows n ! i)
        (if choice_bit cs i then d else label_zero)) j"
    by simp
qed

section \<open>The consistency check\<close>

definition check_blocks :: "bytes \<Rightarrow> nat \<Rightarrow> Label list" where
  "check_blocks column n = map (\<lambda>blk. labelFromBytes (slice column (blk * 16) (blk * 16 + 16))) [0..<n]"

lemma repetition_check_sum:
  "repetition_check column mainBytes chi =
    foldl (\<lambda>acc (u, c). label_xor acc (gf128MulGeneric u c))
      (labelFromBytes (slice column mainBytes (mainBytes + 16))) (zip (check_blocks column (length chi)) chi)"
proof -
  have h: "foldl (\<lambda>acc (u, c). label_xor acc (gf128MulGeneric u c)) a (zip (map g xs) ys) =
      foldl (\<lambda>acc (b, c). label_xor acc (gf128MulGeneric (g b) c)) a (zip xs ys)" for g xs ys and a :: Label
    by (induction xs ys arbitrary: a rule: list_induct2') simp_all
  show ?thesis
    unfolding check_blocks_def h by (simp add: repetition_check_def enumerate_eq_zip)
qed

lemma slice_xor: "slice (xor_bytes xs ys) i j = xor_bytes (slice xs i j) (slice ys i j)"
  by (simp add: slice_def take_map drop_map take_zip drop_zip)

lemma label_slice_xor:
  assumes "length xs = length ys" "i + 16 \<le> length xs"
  shows "labelFromBytes (slice (xor_bytes xs ys) i (i + 16)) =
    label_xor (labelFromBytes (slice xs i (i + 16))) (labelFromBytes (slice ys i (i + 16)))"
  unfolding slice_xor using assms by (intro labelFromBytes_xor) simp_all

lemma repetition_check_xor:
  assumes "length xs = length ys" "mainBytes + 16 \<le> length xs" "16 * length chi \<le> mainBytes"
  shows "repetition_check (xor_bytes xs ys) mainBytes chi =
    label_xor (repetition_check xs mainBytes chi) (repetition_check ys mainBytes chi)"
proof -
  have "blk * 16 + 16 \<le> length xs" if "blk < length chi" for blk using that assms(2,3) by linarith
  then have "check_blocks (xor_bytes xs ys) (length chi) =
      map2 label_xor (check_blocks xs (length chi)) (check_blocks ys (length chi))"
    using assms(1) by (intro nth_equalityI) (simp_all add: check_blocks_def label_slice_xor)
  then show ?thesis
    using assms gx.weighted_sum_xor [of "check_blocks xs (length chi)" "check_blocks ys (length chi)" chi]
    by (simp add: repetition_check_sum label_slice_xor check_blocks_def)
qed

lemma repetition_check_zero:
  "mainBytes + 16 \<le> n \<Longrightarrow> 16 * length chi \<le> mainBytes \<Longrightarrow>
    repetition_check (replicate n 0) mainBytes chi = label_zero"
  using repetition_check_xor [of "replicate n 0" "replicate n 0" mainBytes chi]
  by (simp add: xor_bytes_zero lx.xor_self)

lemma column_checks_masked:
  assumes p: "padded mod 128 = 0" "128 \<le> padded" and chi: "length chi = extensionChallengeCount padded"
    and f: "\<And>k. length (f k) = padded div 8" and cs: "length cs = padded div 8" and col: "col < 128"
  defines "mainBytes \<equiv> (padded - 128) div 8"
  shows "repetitionColumnChecks (concat (map (\<lambda>col. xor_bytes (f col) (masked (deltaBit d col) cs)) [0..<128])) padded chi ! col =
    label_xor (repetitionColumnChecks (concat (map f [0..<128])) padded chi ! col)
      (if deltaBit d col then repetition_check cs mainBytes chi else label_zero)"
proof -
  obtain k where k: "padded = 128 * k" using p(1) by (auto simp: mod_eq_0_iff_dvd)
  then have b: "mainBytes + 16 = padded div 8" "16 * length chi \<le> mainBytes"
    using p(2) chi by (simp_all add: mainBytes_def extensionChallengeCount_def diff_mult_distrib2 [symmetric])
  have m: "length (masked x cs) = padded div 8" for x by (simp add: masked_def cs)
  have "repetitionColumnChecks (concat (map (\<lambda>col. xor_bytes (f col) (masked (deltaBit d col) cs)) [0..<128])) padded chi ! col =
      repetition_check (xor_bytes (f col) (masked (deltaBit d col) cs)) mainBytes chi"
    using col f m
    by (simp add: repetitionColumnChecks_def Let_def mainBytes_def
        slice_concat_columns [where m = "padded div 8", simplified])
  also have "\<dots> = label_xor (repetition_check (f col) mainBytes chi)
      (repetition_check (masked (deltaBit d col) cs) mainBytes chi)"
    using f m b by (intro repetition_check_xor) simp_all
  also have "repetition_check (masked (deltaBit d col) cs) mainBytes chi =
      (if deltaBit d col then repetition_check cs mainBytes chi else label_zero)"
    using b cs by (simp add: masked_def repetition_check_zero)
  also have "repetition_check (f col) mainBytes chi =
      repetitionColumnChecks (concat (map f [0..<128])) padded chi ! col"
    using col f
    by (simp add: repetitionColumnChecks_def Let_def mainBytes_def
        slice_concat_columns [where m = "padded div 8", simplified])
  finally show ?thesis .
qed

lemma check_columns_iff:
  "check_columns s p = Inr () \<longleftrightarrow> (\<forall>col < BaseOTCount. qChecks s ! col =
     (if deltaBit (delta s) col then label_xor (proofT p ! col) (proofX p) else proofT p ! col))"
proof -
  have e: "label_put a = label_put b \<longleftrightarrow> a = b" for a b by (metis labelFromBytes_put)
  have "foldE (\<lambda>col _. if P col then Inl x else Inr ()) cols () = Inr () \<longleftrightarrow> (\<forall>c \<in> set cols. \<not> P c)"
    for P and x :: mpc_error and cols :: "nat list"
    by (induction cols) auto
  then show ?thesis unfolding check_columns_def Let_def e by (simp add: atLeast0LessThan lessThan_iff Ball_def)
qed

section \<open>An honest batch\<close>

text \<open>Both parties' steps on one batch, in the order of the protocol.\<close>

definition kos_batch ::
  "bytes \<Rightarrow> bytes \<Rightarrow> BaseOTSeedPair list \<Rightarrow> Label list \<Rightarrow> Label \<Rightarrow> bytes \<Rightarrow> bytes \<Rightarrow> bytes \<Rightarrow> u64 \<Rightarrow> int \<Rightarrow>
    mpc_error + SenderOT list \<times> ReceiverOT list" where
  "kos_batch rngR rngS base selected d epoch cipherMessage sid start count =
     bindE (StartExtensionReceiver (Some rngR) base epoch cipherMessage sid start count) (\<lambda>(rs, com, rots, _).
     bindE (StartExtensionSender (Some rngS) selected d epoch cipherMessage (Some com)) (\<lambda>(ss, ch, _).
     bindE (snd (FinishExtensionReceiver (Some rs) (Some ch))) (\<lambda>proof_msg.
     bindE (snd (FinishExtensionSender (Some ss) (Some proof_msg))) (\<lambda>sots.
     Inr (sots, rots)))))"

text \<open>What a batch needs: a valid epoch, the base-transfer ciphertext of the session, an
  admissible count and index range, and enough randomness on both sides.\<close>

definition batch_ready :: "bytes \<Rightarrow> bytes \<Rightarrow> bytes \<Rightarrow> bytes \<Rightarrow> bytes \<Rightarrow> u64 \<Rightarrow> int \<Rightarrow> bool" where
  "batch_ready rngR rngS epoch cipherMessage sid start count \<longleftrightarrow>
     validateExtensionEpoch epoch = Inr () \<and>
     validateBaseCipherForTranscript cipherMessage sid = Inr () \<and>
     0 < count \<and> count \<le> int maxExtensionOTs \<and> unat start + nat count < 2 ^ 64 \<and>
     nat count + 255 \<le> 8 * length rngR \<and> nat count + 255 \<le> 8 * length rngS"

lemma padded_bytes:
  assumes "extensionPaddedCount count = Inr padded"
  shows "padded = 8 * (padded div 8)" "128 \<le> padded" "BaseOTCount * padded div 8 = 128 * (padded div 8)"
    "16 * extensionChallengeCount padded \<le> padded div 8"
proof -
  note p = extensionPaddedCount_Inr [OF assms]
  obtain k where k: "padded = 128 * k" using p(3) by (auto simp: mod_eq_0_iff_dvd)
  show "padded = 8 * (padded div 8)" "BaseOTCount * padded div 8 = 128 * (padded div 8)" by (simp_all add: k)
  show "128 \<le> padded" using p(4) by simp
  show "16 * extensionChallengeCount padded \<le> padded div 8"
    by (simp add: k extensionChallengeCount_def diff_mult_distrib2 [symmetric])
qed

definition honest_commitment ::
  "BaseOTSeedPair list \<Rightarrow> bytes \<Rightarrow> bytes \<Rightarrow> bytes \<Rightarrow> u64 \<Rightarrow> int \<Rightarrow> nat \<Rightarrow> bytes \<Rightarrow> ExtensionCommitment" where
  "honest_commitment base epoch cipherMessage sid start count padded cs =
     (let c = \<lparr>cSessionID = sid, cStartIndex = start, cCount = of_int count,
               PaddedCount = of_nat padded, EpochHash = extensionEpochHash epoch,
               cTranscript = replicate 32 0, matU = commitment_matrix base sid cs (padded div 8)\<rparr>
      in c\<lparr>cTranscript := extensionTranscript cipherMessage c\<rparr>)"

definition honest_receiver :: "BaseOTSeedPair list \<Rightarrow> ExtensionCommitment \<Rightarrow> nat \<Rightarrow> bytes \<Rightarrow> ExtensionReceiverState" where
  "honest_receiver base com padded cs =
     \<lparr>rsCommitment = extensionStateCommitment com, rsChoices = cs,
      tMatrix = receiver_matrix base (cSessionID com) (padded div 8), rsUsed = False\<rparr>"

definition honest_receiver_ots :: "BaseOTSeedPair list \<Rightarrow> bytes \<Rightarrow> u64 \<Rightarrow> int \<Rightarrow> nat \<Rightarrow> bytes \<Rightarrow> ReceiverOT list" where
  "honest_receiver_ots base sid start count padded cs =
     map (\<lambda>i. \<lparr>R = tmmoHash (transposeColumns (receiver_matrix base sid (padded div 8)) (padded div 8) padded ! i)
                 (of_nat i), rIndex = start + of_nat i, Choice = choice_bit cs i\<rparr>) [0..<nat count]"

lemma hashReceiverOTs_choice:
  "hashReceiverOTs raw cs start count = bindE (checkedIndexEnd start count) (\<lambda>_.
     Inr (map (\<lambda>i. \<lparr>R = tmmoHash (raw ! i) (of_nat i), rIndex = start + of_nat i, Choice = choice_bit cs i\<rparr>)
       [0..<nat count]))"
  unfolding hashReceiverOTs_def choice_bit_test ..

lemma honest_receiver_start:
  fixes base :: "BaseOTSeedPair list"
  assumes ready: "batch_ready rngR rngS epoch cipherMessage sid start count"
    and pad: "extensionPaddedCount count = Inr padded"
  defines "cs \<equiv> take (padded div 8) rngR"
  defines "com \<equiv> honest_commitment base epoch cipherMessage sid start count padded cs"
  shows "StartExtensionReceiver (Some rngR) base epoch cipherMessage sid start count =
    Inr (honest_receiver base com padded cs, com, honest_receiver_ots base sid start count padded cs,
         drop (padded div 8) rngR)"
    "length cs = padded div 8"
proof -
  note p = extensionPaddedCount_Inr [OF pad]
  have b: "padded div 8 \<le> length rngR" using ready p(5) by (auto simp: batch_ready_def)
  then show "length cs = padded div 8" by (simp add: cs_def)
  have go: "is_go_int count" using p(1,2) by (simp add: is_go_int_def)
  then have "checkedIndexEnd start count = Inr (start + of_int count)"
    using ready by (intro checkedIndexEnd_sum) (simp_all add: batch_ready_def)
  then show "StartExtensionReceiver (Some rngR) base epoch cipherMessage sid start count =
    Inr (honest_receiver base com padded cs, com, honest_receiver_ots base sid start count padded cs,
         drop (padded div 8) rngR)"
    using ready pad b
    by (simp add: StartExtensionReceiver_def batch_ready_def readFull_def Let_def hashReceiverOTs_choice
        cs_def com_def honest_commitment_def honest_receiver_def honest_receiver_ots_def)
qed

lemma honest_commitment_valid:
  assumes ready: "batch_ready rngR rngS epoch cipherMessage sid start count"
    and pad: "extensionPaddedCount count = Inr padded" and cs: "length cs = padded div 8"
  shows "validateExtensionCommitment epoch cipherMessage
    (Some (honest_commitment base epoch cipherMessage sid start count padded cs)) = Inr ()"
proof -
  note p = extensionPaddedCount_Inr [OF pad] and w = padded_words [OF pad] and b = padded_bytes [OF pad]
  have "checkedIndexEnd start count = Inr (start + of_int count)"
    using ready p(1,2) by (intro checkedIndexEnd_sum) (simp_all add: batch_ready_def is_go_int_def)
  moreover have "length (commitment_matrix base sid cs (padded div 8)) = 128 * (padded div 8)"
    using cs by (simp add: commitment_matrix_def Let_def length_concat comp_def sum_list_triv)
  ultimately show ?thesis
    using ready pad w b p(1)
    by (simp add: validateExtensionCommitment_def honest_commitment_def Let_def batch_ready_def
        extensionTranscript_def)
qed

definition honest_chi :: "bytes \<Rightarrow> nat \<Rightarrow> Label list" where
  "honest_chi rng n = map (\<lambda>i. labelFromBytes (slice (take (n * 16) rng) (i * 16) ((i + 1) * 16))) [0..<n]"

definition honest_challenge :: "ExtensionCommitment \<Rightarrow> Label list \<Rightarrow> ExtensionChallenge" where
  "honest_challenge com chi =
     (let ch = \<lparr>chSessionID = cSessionID com, chCommitment = cTranscript com,
                chTranscript = replicate 32 0, Chi = chi\<rparr>
      in ch\<lparr>chTranscript := extensionChallengeTranscript ch\<rparr>)"

definition honest_sender :: "Label list \<Rightarrow> Label \<Rightarrow> ExtensionCommitment \<Rightarrow> nat \<Rightarrow> Label list \<Rightarrow> ExtensionSenderState" where
  "honest_sender selected d com padded chi =
     (let qm = sender_matrix selected d com (padded div 8) in
      \<lparr>ssCommitment = extensionStateCommitment com,
       challengeTranscript = chTranscript (honest_challenge com chi), delta = d,
       qChecks = repetitionColumnChecks qm padded chi,
       rows = transposeColumns qm (padded div 8) padded, ssUsed = False\<rparr>)"

lemma honest_sender_start:
  fixes base :: "BaseOTSeedPair list"
  assumes ready: "batch_ready rngR rngS epoch cipherMessage sid start count"
    and pad: "extensionPaddedCount count = Inr padded" and cs: "length cs = padded div 8"
    and d: "d \<noteq> label_zero"
  defines "com \<equiv> honest_commitment base epoch cipherMessage sid start count padded cs"
    and "chi \<equiv> honest_chi rngS (extensionChallengeCount padded)"
  shows "StartExtensionSender (Some rngS) selected d epoch cipherMessage (Some com) =
    Inr (honest_sender selected d com padded chi, honest_challenge com chi,
         drop (extensionChallengeCount padded * 16) rngS)"
proof -
  have "padded div 8 \<le> length rngS"
    using ready extensionPaddedCount_Inr(5) [OF pad] by (auto simp: batch_ready_def)
  then have "extensionChallengeCount padded * 16 \<le> length rngS" using padded_bytes(4) [OF pad] by simp
  moreover have "unat (PaddedCount com) = padded"
    using padded_words(2) [OF pad] by (simp add: com_def honest_commitment_def Let_def)
  ultimately show ?thesis
    using d honest_commitment_valid [OF ready pad cs, of base, folded com_def]
    by (simp add: StartExtensionSender_def readFull_def Let_def honest_sender_def honest_challenge_def
        chi_def honest_chi_def)
qed

lemma honest_receiver_finish:
  assumes "unat (PaddedCount com) = padded" "length chi = extensionChallengeCount padded"
  shows "snd (FinishExtensionReceiver (Some (honest_receiver base com padded cs)) (Some (honest_challenge com chi))) =
    Inr \<lparr>prSessionID = cSessionID com, prTranscript = chTranscript (honest_challenge com chi),
         proofX = repetition_check cs ((padded - 128) div 8) chi,
         proofT = repetitionColumnChecks (receiver_matrix base (cSessionID com) (padded div 8)) padded chi\<rparr>"
  using assms
  by (simp add: FinishExtensionReceiver_def honest_receiver_def honest_challenge_def Let_def
      validateExtensionChallenge_def extensionStateCommitment_def repetitionReceiverProof_def
      extensionChallengeTranscript_def)

lemma honest_commitment_fields:
  "cSessionID (honest_commitment base epoch cipherMessage sid start count padded cs) = sid"
  "cStartIndex (honest_commitment base epoch cipherMessage sid start count padded cs) = start"
  "cCount (honest_commitment base epoch cipherMessage sid start count padded cs) = of_int count"
  "PaddedCount (honest_commitment base epoch cipherMessage sid start count padded cs) = of_nat padded"
  "matU (honest_commitment base epoch cipherMessage sid start count padded cs) =
     commitment_matrix base sid cs (padded div 8)"
  by (simp_all add: honest_commitment_def Let_def)

definition honest_sender_ots :: "Label list \<Rightarrow> Label \<Rightarrow> u64 \<Rightarrow> int \<Rightarrow> SenderOT list" where
  "honest_sender_ots rws d start count =
     map (\<lambda>i. \<lparr>R0 = tmmoHash (rws ! i) (of_nat i), R1 = tmmoHash (label_xor (rws ! i) d) (of_nat i),
               sIndex = start + of_nat i\<rparr>) [0..<nat count]"

text \<open>Against an honest commitment the sender accepts exactly the proofs whose column values
  differ from the honest ones by the error in \<open>X\<close>, on the columns its correlation selects.\<close>

definition proof_fits :: "Label \<Rightarrow> Label \<Rightarrow> Label list \<Rightarrow> ExtensionProof \<Rightarrow> bool" where
  "proof_fits d x t p \<longleftrightarrow>
     (\<forall>col < BaseOTCount. (if lbit d col then label_xor (proofT p ! col) (proofX p) else proofT p ! col) =
        label_xor (t ! col) (if lbit d col then x else label_zero))"

lemma sender_finish:
  fixes base :: "BaseOTSeedPair list"
  assumes ready: "batch_ready rngR rngS epoch cipherMessage sid start count"
    and pad: "extensionPaddedCount count = Inr padded" and cs: "length cs = padded div 8"
    and sel: "selects d base selected" and chi: "length chi = extensionChallengeCount padded"
  defines "com \<equiv> honest_commitment base epoch cipherMessage sid start count padded cs"
  defines "ss \<equiv> honest_sender selected d com padded chi"
    and "x \<equiv> repetition_check cs ((padded - 128) div 8) chi"
    and "t \<equiv> repetitionColumnChecks (receiver_matrix base sid (padded div 8)) padded chi"
  assumes p: "prSessionID p = sid" "prTranscript p = challengeTranscript ss"
  shows "proof_fits d x t p \<Longrightarrow>
      snd (FinishExtensionSender (Some ss) (Some p)) = Inr (honest_sender_ots (rows ss) d start count)"
    "\<not> proof_fits d x t p \<Longrightarrow> \<exists>e. snd (FinishExtensionSender (Some ss) (Some p)) = Inl e"
proof -
  note pc = extensionPaddedCount_Inr [OF pad] and w = padded_words [OF pad] and b = padded_bytes [OF pad]
  note c = honest_commitment_fields [of base epoch cipherMessage sid start count padded cs, folded com_def]
  have qm: "sender_matrix selected d com (padded div 8) =
      concat (map (\<lambda>col. xor_bytes (column_of base sid (padded div 8) col) (masked (deltaBit d col) cs)) [0..<128])"
    using sender_matrix_columns [OF sel c(1,5) cs] by simp
  have tm: "receiver_matrix base sid (padded div 8) = concat (map (column_of base sid (padded div 8)) [0..<128])"
    by (simp add: receiver_matrix_def column_of_def [abs_def])
  have q: "qChecks ss ! col = label_xor (t ! col) (if lbit d col then x else label_zero)" if "col < 128" for col
    unfolding ss_def honest_sender_def Let_def qm t_def tm x_def deltaBit_lbit [symmetric]
    using column_checks_masked [OF pc(3) b(2) chi _ cs that] by simp
  have "check_columns ss p = Inr () \<longleftrightarrow> proof_fits d x t p"
    using q by (auto simp: check_columns_iff proof_fits_def deltaBit_lbit ss_def honest_sender_def Let_def)
  moreover have "length (rows ss) = padded"
    using pc(3) by (auto simp: ss_def honest_sender_def Let_def length_transposeColumns)
  moreover have "hashSenderOTs ss = Inr (honest_sender_ots (rows ss) d start count)"
    using checkedIndexEnd_sum [of count start] ready pc(1,2) w c
    by (simp add: hashSenderOTs_def ss_def honest_sender_def Let_def extensionStateCommitment_def
        honest_sender_ots_def batch_ready_def is_go_int_def)
  moreover have "\<not> ssUsed ss" "cSessionID (ssCommitment ss) = sid" "unat (PaddedCount (ssCommitment ss)) = padded"
    using c w by (simp_all add: ss_def honest_sender_def Let_def extensionStateCommitment_def)
  ultimately show "proof_fits d x t p \<Longrightarrow>
      snd (FinishExtensionSender (Some ss) (Some p)) = Inr (honest_sender_ots (rows ss) d start count)"
    "\<not> proof_fits d x t p \<Longrightarrow> \<exists>e. snd (FinishExtensionSender (Some ss) (Some p)) = Inl e"
    using p by (auto simp: FinishExtensionSender_def bindE_def split: sum.splits)
qed

lemma honest_ots_agree:
  assumes pad: "extensionPaddedCount count = Inr padded" and cs: "length cs = padded div 8"
    and sel: "selects d base selected" and com: "cSessionID com = sid" "matU com = commitment_matrix base sid cs (padded div 8)"
  shows "list_all2 ot_match (honest_sender_ots (rows (honest_sender selected d com padded chi)) d start count)
    (honest_receiver_ots base sid start count padded cs)"
proof (rule list_all2_all_nthI)
  note pc = extensionPaddedCount_Inr [OF pad] and b = padded_bytes [OF pad]
  show "length (honest_sender_ots (rows (honest_sender selected d com padded chi)) d start count) =
      length (honest_receiver_ots base sid start count padded cs)"
    by (simp add: honest_sender_ots_def honest_receiver_ots_def)
  fix i assume "i < length (honest_sender_ots (rows (honest_sender selected d com padded chi)) d start count)"
  then have i: "i < nat count" "i < padded" using pc(4) by (simp_all add: honest_sender_ots_def)
  let ?t = "transposeColumns (receiver_matrix base sid (padded div 8)) (padded div 8) padded ! i"
  have "rows (honest_sender selected d com padded chi) ! i =
      label_xor ?t (if choice_bit cs i then d else label_zero)"
    using row_correlation [OF b(1) pc(3) _ cs i(2), of "column_of base sid (padded div 8)" d]
      sender_matrix_columns [OF sel com cs]
    by (simp add: honest_sender_def Let_def receiver_matrix_def column_of_def [abs_def])
  then show "ot_match (honest_sender_ots (rows (honest_sender selected d com padded chi)) d start count ! i)
      (honest_receiver_ots base sid start count padded cs ! i)"
    using i by (simp add: ot_match_def honest_sender_ots_def honest_receiver_ots_def label_algebra)
qed

lemma consecutive_count:
  assumes "unat start + n < 2 ^ 64"
  shows "consecutive start (map (\<lambda>i. start + of_nat i) [0..<n])"
  using assms by (simp add: consecutive_def)

section \<open>A concrete batch\<close>

definition sample_epoch :: bytes where "sample_epoch = ascii ''kos2:a''"

definition sample_sid :: bytes where "sample_sid = replicate 32 7"

definition sample_cipher :: bytes where
  "sample_cipher = ascii ''BOT1'' @ sample_sid @ replicate 4096 0"

definition sample_rng :: bytes where "sample_rng = replicate 32 5"

definition sample_delta :: Label where "sample_delta = \<lparr>D0 = 3, D1 = 0\<rparr>"

definition sample_base :: "BaseOTSeedPair list" where
  "sample_base = replicate 128 \<lparr>SeedZero = \<lparr>D0 = 1, D1 = 2\<rparr>, SeedOne = \<lparr>D0 = 3, D1 = 4\<rparr>\<rparr>"

definition sample_selected :: "Label list" where
  "sample_selected = map (\<lambda>col. if deltaBit sample_delta col then SeedOne (sample_base ! col)
     else SeedZero (sample_base ! col)) [0..<128]"

lemma sample_epoch_valid: "validateExtensionEpoch sample_epoch = Inr ()"
  by code_simp

lemma sample_ready: "batch_ready sample_rng sample_rng sample_epoch sample_cipher sample_sid 10 1"
proof -
  have "slice sample_cipher 0 4 = ascii ''BOT1''" "slice sample_cipher 4 36 = sample_sid"
    "length sample_cipher = baseCipherMessageSize"
    by (simp_all add: sample_cipher_def sample_sid_def slice_def baseCipherMessageSize_def)
  then have "validateBaseCipherForTranscript sample_cipher sample_sid = Inr ()"
    by (simp add: validateBaseCipherForTranscript_def)
  then show ?thesis by (simp add: batch_ready_def sample_epoch_valid sample_rng_def)
qed

lemma sample_selects: "selects sample_delta sample_base sample_selected" "sample_delta \<noteq> label_zero"
  by (simp_all add: selects_def sample_selected_def sample_delta_def label_zero_def)

section \<open>Acceptance and rejection\<close>

lemma kos_batch_run:
  assumes ready: "batch_ready rngR rngS epoch cipherMessage sid start count"
    and d: "d \<noteq> label_zero" and sel: "selects d base selected"
  shows "\<exists>sots rots. kos_batch rngR rngS base selected d epoch cipherMessage sid start count = Inr (sots, rots) \<and>
    length sots = nat count \<and> consecutive start (map sIndex sots) \<and> consecutive start (map rIndex rots) \<and>
    list_all2 ot_match sots rots"
proof -
  obtain padded where pad: "extensionPaddedCount count = Inr padded"
    using ready extensionPaddedCount_ok [of count] by (auto simp: batch_ready_def)
  define cs where "cs = take (padded div 8) rngR"
  define com where "com = honest_commitment base epoch cipherMessage sid start count padded cs"
  define chi where "chi = honest_chi rngS (extensionChallengeCount padded)"
  define ss where "ss = honest_sender selected d com padded chi"
  note start = honest_receiver_start(1) [OF ready pad, of base, folded cs_def, folded com_def]
    honest_receiver_start(2) [OF ready pad, folded cs_def]
  note c = honest_commitment_fields [of base epoch cipherMessage sid start count padded cs, folded com_def]
  have chi: "length chi = extensionChallengeCount padded" by (simp add: chi_def honest_chi_def)
  have pcom: "unat (PaddedCount com) = padded" using padded_words(2) [OF pad] c by simp
  let ?p = "\<lparr>prSessionID = sid, prTranscript = challengeTranscript ss,
      proofX = repetition_check cs ((padded - 128) div 8) chi,
      proofT = repetitionColumnChecks (receiver_matrix base sid (padded div 8)) padded chi\<rparr>"
  have tr: "chTranscript (honest_challenge com chi) = challengeTranscript ss"
    by (simp add: ss_def honest_sender_def Let_def)
  have fin: "snd (FinishExtensionSender (Some ss) (Some ?p)) = Inr (honest_sender_ots (rows ss) d start count)"
    unfolding ss_def com_def
    by (rule sender_finish(1) [OF ready pad start(2) sel chi])
      (simp_all add: proof_fits_def ss_def com_def label_algebra)
  have "kos_batch rngR rngS base selected d epoch cipherMessage sid start count =
      Inr (honest_sender_ots (rows ss) d start count, honest_receiver_ots base sid start count padded cs)"
    using honest_sender_start [OF ready pad start(2) d, where base = base and selected = selected, folded com_def chi_def, folded ss_def]
      honest_receiver_finish [OF pcom chi, of base cs, unfolded c(1) tr] fin
    by (simp add: kos_batch_def start(1))
  moreover have "list_all2 ot_match (honest_sender_ots (rows ss) d start count)
      (honest_receiver_ots base sid start count padded cs)"
    unfolding ss_def by (rule honest_ots_agree [OF pad start(2) sel c(1,5)])
  moreover have "unat start + nat count < 2 ^ 64" using ready by (simp add: batch_ready_def)
  ultimately show ?thesis
    using consecutive_count [of start "nat count"]
    by (simp add: honest_sender_ots_def honest_receiver_ots_def comp_def)
qed

text \<open>C3. An honest batch succeeds: with a non-zero correlation and base transfers that
  delivered the seeds it selects, the sender accepts the receiver's proof, both parties
  obtain \<open>count\<close> transfers with the batch's consecutive indices, and each pair is a correct
  random oblivious transfer.\<close>

theorem kos_batch_correct:
  assumes ready: "batch_ready rngR rngS epoch cipherMessage sid start count"
    and d: "d \<noteq> label_zero" and sel: "selects d base selected"
  shows "\<exists>sots rots. kos_batch rngR rngS base selected d epoch cipherMessage sid start count = Inr (sots, rots) \<and>
    length sots = nat count \<and> consecutive start (map sIndex sots) \<and> consecutive start (map rIndex rots) \<and>
    list_all2 ot_match sots rots"
  using kos_batch_run [OF ready d sel] .

theorem kos_batch_correct_witness:
  "batch_ready sample_rng sample_rng sample_epoch sample_cipher sample_sid 10 1 \<and>
   (\<exists>sots rots. kos_batch sample_rng sample_rng sample_base sample_selected sample_delta sample_epoch
      sample_cipher sample_sid 10 1 = Inr (sots, rots) \<and> length sots = 1 \<and> list_all2 ot_match sots rots)"
  using kos_batch_correct [OF sample_ready sample_selects(2,1)] sample_ready by auto

lemma proof_fits_columns:
  "proof_fits d x t p \<longleftrightarrow>
     (\<forall>col < 128. proofT p ! col = (if lbit d col then label_xor (t ! col) (label_xor x (proofX p)) else t ! col))"
proof -
  have "label_xor a b = label_xor c e \<longleftrightarrow> a = label_xor c (label_xor e b)" for a b c e :: Label
  proof
    assume "label_xor a b = label_xor c e"
    then have "label_xor (label_xor a b) b = label_xor (label_xor c e) b" by simp
    then show "a = label_xor c (label_xor e b)" by (simp add: lx.xor_assoc lx.xor_self lx.xor_zero_right)
  qed (simp add: lx.xor_assoc lx.xor_self lx.xor_zero_right)
  then show ?thesis by (simp add: proof_fits_def lx.xor_zero_right split: if_splits)
qed

text \<open>C10. What the consistency check enforces on an arbitrary proof against an honest commitment: the
  sender accepts exactly the proofs for its session and transcript whose column values are the honest
  ones, shifted by the error in \<open>X\<close> on precisely the columns its secret correlation selects. So a
  proof with a wrong \<open>X\<close> is accepted only when its columns spell out all 128 bits of the correlation,
  and one with the honest columns never is.\<close>

theorem kos_wrong_x_rejected:
  fixes base :: "BaseOTSeedPair list"
  assumes ready: "batch_ready rngR rngS epoch cipherMessage sid start count"
    and d: "d \<noteq> label_zero" and sel: "selects d base selected"
    and recv: "StartExtensionReceiver (Some rngR) base epoch cipherMessage sid start count = Inr (rs, com, rots, rest)"
    and send: "StartExtensionSender (Some rngS) selected d epoch cipherMessage (Some com) = Inr (ss, ch, rest')"
    and pf: "snd (FinishExtensionReceiver (Some rs) (Some ch)) = Inr p"
  shows "((\<exists>sots. snd (FinishExtensionSender (Some ss) (Some p')) = Inr sots) \<longleftrightarrow>
      prSessionID p' = prSessionID p \<and> prTranscript p' = prTranscript p \<and>
      (\<forall>col < 128. proofT p' ! col =
        (if lbit d col then label_xor (proofT p ! col) (label_xor (proofX p) (proofX p')) else proofT p ! col))) \<and>
    (proofX p' \<noteq> proofX p \<longrightarrow> (\<exists>sots. snd (FinishExtensionSender (Some ss) (Some p')) = Inr sots) \<longrightarrow>
      (\<forall>col < 128. lbit d col \<longleftrightarrow> proofT p' ! col \<noteq> proofT p ! col)) \<and>
    (proofX p' \<noteq> proofX p \<longrightarrow> proofT p' = proofT p \<longrightarrow>
      (\<exists>e. snd (FinishExtensionSender (Some ss) (Some p')) = Inl e))"
proof -
  obtain padded where pad: "extensionPaddedCount count = Inr padded"
    using ready extensionPaddedCount_ok [of count] by (auto simp: batch_ready_def)
  define cs where "cs = take (padded div 8) rngR"
  define chi where "chi = honest_chi rngS (extensionChallengeCount padded)"
  note start = honest_receiver_start(1) [OF ready pad, of base, folded cs_def]
    honest_receiver_start(2) [OF ready pad, folded cs_def]
  have com: "com = honest_commitment base epoch cipherMessage sid start count padded cs"
    and rs: "rs = honest_receiver base com padded cs"
    using recv unfolding start(1) by auto
  note c = honest_commitment_fields [of base epoch cipherMessage sid start count padded cs, folded com]
  have ss: "ss = honest_sender selected d com padded chi" and ch: "ch = honest_challenge com chi"
    using send honest_sender_start [OF ready pad start(2) d, where base = base and selected = selected, folded com chi_def] by auto
  have chi: "length chi = extensionChallengeCount padded" by (simp add: chi_def honest_chi_def)
  have pcom: "unat (PaddedCount com) = padded" using padded_words(2) [OF pad] c by simp
  have p: "p = \<lparr>prSessionID = sid, prTranscript = challengeTranscript ss,
      proofX = repetition_check cs ((padded - 128) div 8) chi,
      proofT = repetitionColumnChecks (receiver_matrix base sid (padded div 8)) padded chi\<rparr>"
    using pf honest_receiver_finish [OF pcom chi, of base cs] unfolding rs ch
    by (simp add: c(1) ss honest_sender_def Let_def)
  let ?ok = "\<exists>sots. snd (FinishExtensionSender (Some ss) (Some p')) = Inr sots"
  have fresh: "\<not> ssUsed ss" "cSessionID (ssCommitment ss) = sid"
    using c by (simp_all add: ss honest_sender_def Let_def extensionStateCommitment_def)
  have exact: "?ok \<longleftrightarrow> prSessionID p' = prSessionID p \<and> prTranscript p' = prTranscript p \<and> proof_fits d (proofX p) (proofT p) p'"
  proof (cases "prSessionID p' = sid \<and> prTranscript p' = challengeTranscript ss")
    case True
    note f = sender_finish [OF ready pad start(2) sel chi, folded com, folded ss, OF conjunct1 [OF True] conjunct2 [OF True]]
    have "?ok" if "proof_fits d (proofX p) (proofT p) p'" using f(1) that by (simp add: p)
    moreover have "\<not> ?ok" if no: "\<not> proof_fits d (proofX p) (proofT p) p'"
    proof -
      have "\<exists>e. snd (FinishExtensionSender (Some ss) (Some p')) = Inl e" by (rule f(2)) (use no in \<open>simp add: p\<close>)
      then show ?thesis by auto
    qed
    ultimately show ?thesis using True by (auto simp: p)
  next
    case False
    then show ?thesis using fresh by (auto simp: p FinishExtensionSender_def)
  qed
  obtain col where col: "col < 128" "lbit d col"
    using d label_bit_eqI [of d label_zero] by auto
  have bits: "label_xor a (label_xor x y) \<noteq> a" if "y \<noteq> x" for a x y :: Label
    using that lx.xor_inj [of x x y] by (auto simp: lx.xor_eq_self_iff lx.xor_self)
  have guess: "\<forall>col < 128. lbit d col \<longleftrightarrow> proofT p' ! col \<noteq> proofT p ! col" if "proofX p' \<noteq> proofX p" ?ok
    using that(2) bits [OF that(1)] unfolding exact proof_fits_columns by auto
  moreover have "\<exists>e. snd (FinishExtensionSender (Some ss) (Some p')) = Inl e" if "proofX p' \<noteq> proofX p" "proofT p' = proofT p"
    using guess [OF that(1)] col that(2) by (cases "snd (FinishExtensionSender (Some ss) (Some p'))") auto
  ultimately show ?thesis using exact unfolding proof_fits_columns by blast
qed

theorem kos_wrong_x_rejected_witness:
  "\<exists>rs com rots rest ss ch rest' p x.
     StartExtensionReceiver (Some sample_rng) sample_base sample_epoch sample_cipher sample_sid 10 1 =
       Inr (rs, com, rots, rest) \<and>
     StartExtensionSender (Some sample_rng) sample_selected sample_delta sample_epoch sample_cipher (Some com) =
       Inr (ss, ch, rest') \<and>
     snd (FinishExtensionReceiver (Some rs) (Some ch)) = Inr p \<and>
     (\<exists>sots. snd (FinishExtensionSender (Some ss) (Some p)) = Inr sots) \<and> x \<noteq> proofX p \<and>
     (\<exists>e. snd (FinishExtensionSender (Some ss) (Some (p\<lparr>proofX := x\<rparr>))) = Inl e)"
proof -
  obtain padded where pad: "extensionPaddedCount 1 = Inr padded" using extensionPaddedCount_ok [of 1] by auto
  let ?cs = "take (padded div 8) sample_rng"
  let ?com = "honest_commitment sample_base sample_epoch sample_cipher sample_sid 10 1 padded ?cs"
  let ?chi = "honest_chi sample_rng (extensionChallengeCount padded)"
  note start = honest_receiver_start [OF sample_ready pad]
  note send = honest_sender_start [OF sample_ready pad start(2) sample_selects(2),
      where base = sample_base and selected = sample_selected]
  have "length ?chi = extensionChallengeCount padded" "unat (PaddedCount ?com) = padded"
    using padded_words(2) [OF pad] by (simp_all add: honest_chi_def honest_commitment_fields)
  then obtain p where p: "snd (FinishExtensionReceiver (Some (honest_receiver sample_base ?com padded ?cs))
      (Some (honest_challenge ?com ?chi))) = Inr p"
    using honest_receiver_finish by blast
  obtain x where x: "x \<noteq> proofX p" by (metis sample_selects(2))
  note w = kos_wrong_x_rejected [OF sample_ready sample_selects(2,1) start(1) send p]
  have "\<exists>sots. snd (FinishExtensionSender (Some (honest_sender sample_selected sample_delta ?com padded ?chi)) (Some p)) = Inr sots"
    using w [of p] by (simp add: lx.xor_self lx.xor_zero_right)
  moreover have "\<exists>e. snd (FinishExtensionSender (Some (honest_sender sample_selected sample_delta ?com padded ?chi))
      (Some (p\<lparr>proofX := x\<rparr>))) = Inl e" using w [of "p\<lparr>proofX := x\<rparr>"] x by simp
  ultimately show ?thesis using start(1) [of sample_base] send p x by blast
qed

section \<open>Single use\<close>

text \<open>C31. Extension states are single-use: whatever a first finish returned, error or result,
  its state is marked used and wiped, and every later finish on it fails.\<close>

theorem extension_states_single_use:
  "snd (FinishExtensionSender (fst (FinishExtensionSender (Some ss) po)) po') = Inl (Extension StateAlreadyUsed) \<and>
   snd (FinishExtensionReceiver (fst (FinishExtensionReceiver (Some rs) cho)) cho') = Inl (Extension StateAlreadyUsed) \<and>
   (\<not> ssUsed ss \<longrightarrow> (\<exists>ss'. fst (FinishExtensionSender (Some ss) po) = Some ss' \<and> ssUsed ss' \<and>
      delta ss' = label_zero \<and> rows ss' = [] \<and> qChecks ss' = replicate 128 label_zero)) \<and>
   (\<not> rsUsed rs \<longrightarrow> (\<exists>rs'. fst (FinishExtensionReceiver (Some rs) cho) = Some rs' \<and> rsUsed rs' \<and>
      rsChoices rs' = [] \<and> tMatrix rs' = []))"
  by (simp add: FinishExtensionSender_def FinishExtensionReceiver_def clearExtensionSenderState_def
      clearExtensionReceiverState_def)

theorem extension_states_single_use_witness:
  "\<exists>ss rs. \<not> ssUsed ss \<and> \<not> rsUsed rs \<and>
     snd (FinishExtensionSender (fst (FinishExtensionSender (Some ss) None)) None) =
       Inl (Extension StateAlreadyUsed) \<and>
     snd (FinishExtensionReceiver (fst (FinishExtensionReceiver (Some rs) None)) None) =
       Inl (Extension StateAlreadyUsed)"
proof -
  let ?ss = "\<lparr>ssCommitment = commitment_zero, challengeTranscript = [], delta = sample_delta,
      qChecks = [], rows = [], ssUsed = False\<rparr>"
  let ?rs = "\<lparr>rsCommitment = commitment_zero, rsChoices = [1], tMatrix = [2], rsUsed = False\<rparr>"
  note u = extension_states_single_use [of ?ss None None ?rs None None]
  show ?thesis
    by (rule exI [of _ ?ss], rule exI [of _ ?rs], intro conjI; (rule u [THEN conjunct1]
        | rule u [THEN conjunct2, THEN conjunct1] | simp))
qed

end
