(* ===== verification/Mpc_Wire.thy ===== *)
theory Mpc_Wire
  imports Oprf_Online
begin

text \<open>
  The encodings of the online phase: choice corrections, transfer masks and output labels
  (\<open>mpc/wire.go\<close>) and the garbler's payload (\<open>mpc/serialize.go\<close>). Every decoder accepts
  exactly the encodings its encoder produces, so each encoding is canonical.
\<close>

section \<open>Sequences of fixed-width records\<close>

definition encode_seq :: "('a \<Rightarrow> bytes) \<Rightarrow> 'a list \<Rightarrow> bytes" where
  "encode_seq put xs = concat (map put xs)"

text \<open>The loop \<open>for i := range out { out[i] = get(data[off : off+n]); off += n }\<close>.\<close>

fun decode_seq :: "(bytes \<Rightarrow> 'a) \<Rightarrow> nat \<Rightarrow> bytes \<Rightarrow> nat \<Rightarrow> nat \<Rightarrow> 'a list" where
  "decode_seq get n data off 0 = []"
| "decode_seq get n data off (Suc count) =
     get (slice data off (off + n)) # decode_seq get n data (off + n) count"

lemma length_decode_seq [simp]: "length (decode_seq get n data off count) = count"
  by (induction count arbitrary: off) simp_all

locale record_codec =
  fixes put :: "'a \<Rightarrow> bytes" and get :: "bytes \<Rightarrow> 'a" and size :: nat
  assumes length_put: "length (put x) = size"
    and get_put: "get (put x) = x"
    and put_get: "length bs = size \<Longrightarrow> put (get bs) = bs"
begin

lemma length_encode: "length (encode_seq put xs) = size * length xs"
  by (induction xs) (simp_all add: encode_seq_def length_put)

lemma decode_encode:
  "decode_seq get size (pre @ encode_seq put xs @ post) (length pre) (length xs) = xs"
proof (induction xs arbitrary: pre)
  case (Cons x xs)
  have "slice (pre @ put x @ encode_seq put xs @ post) (length pre) (length pre + size) = put x"
    by (simp add: slice_def length_put)
  with Cons [of "pre @ put x"] show ?case by (simp add: encode_seq_def length_put get_put)
qed simp

lemma encode_decode:
  "off + size * count \<le> length data \<Longrightarrow>
    encode_seq put (decode_seq get size data off count) = slice data off (off + size * count)"
proof (induction count arbitrary: off)
  case (Suc count)
  then have "put (get (slice data off (off + size))) = slice data off (off + size)"
    by (intro put_get) simp
  moreover have "encode_seq put (decode_seq get size data (off + size) count) =
      slice data (off + size) (off + size + size * count)"
    using Suc by (simp add: algebra_simps)
  ultimately show ?case
    using slice_join [of off "off + size" "off + size + size * count" data]
    by (simp add: encode_seq_def add.assoc)
qed (simp add: encode_seq_def slice_def)

text \<open>A sequence behind its length as a 32-bit count.\<close>

lemma counted_canonical:
  assumes "n < 2 ^ 32"
  shows "length xs = n \<and> data = be_put 4 (of_nat n :: u32) @ encode_seq put xs \<longleftrightarrow>
    length data = 4 + size * n \<and> unat (be_get (Prelude.slice data 0 4) :: u32) = n \<and>
    xs = decode_seq get size data 4 n" (is "?l \<longleftrightarrow> ?r")
proof
  assume l: ?l
  then have "Prelude.slice data 0 4 = be_put 4 (of_nat n :: u32)" by (simp add: slice_def)
  with l assms show ?r
    using decode_encode [of "be_put 4 (of_nat n :: u32)" xs "[]"]
    by (simp add: length_encode unat_of_nat)
next
  assume r: ?r
  then have "be_put 4 (of_nat n :: u32) = be_put 4 (be_get (Prelude.slice data 0 4) :: u32)"
    by (metis of_nat_unat ucast_id)
  with r have h: "be_put 4 (of_nat n :: u32) = Prelude.slice data 0 4" by (simp add: be_put_32)
  have "encode_seq put xs = Prelude.slice data 4 (4 + size * n)" using r encode_decode by simp
  with r h slice_full [of data] show ?l by (simp add: slice_join)
qed

end

definition mask_put :: "OTMask \<Rightarrow> bytes" where
  "mask_put m = label_put (M0 m) @ label_put (M1 m)"

definition mask_get :: "bytes \<Rightarrow> OTMask" where
  "mask_get bs = \<lparr>M0 = labelFromBytes (slice bs 0 16), M1 = labelFromBytes (slice bs 16 32)\<rparr>"

interpretation lc: record_codec label_put labelFromBytes 16
  by unfold_locales (simp_all add: label_put_fromBytes)

interpretation mc: record_codec mask_put mask_get 32
proof
  fix x :: OTMask and bs :: bytes
  show "length (mask_put x) = 32" by (simp add: mask_put_def)
  show "mask_get (mask_put x) = x" by (simp add: mask_put_def mask_get_def slice_append2 slice_def)
  show "mask_put (mask_get bs) = bs" if "length bs = 32"
  proof -
    have "slice bs 0 16 @ slice bs 16 32 = bs"
      using that slice_full [of bs] by (simp add: slice_join)
    then show ?thesis using that by (simp add: mask_put_def mask_get_def label_put_fromBytes)
  qed
qed

section \<open>Online messages\<close>

definition MarshalChoiceCorrections :: "bool list \<Rightarrow> mpc_error + bytes" where
  "MarshalChoiceCorrections corrections =
     (if length corrections \<noteq> InputBits then Inl (Online CorrectionCount)
      else Inr (bitsToBytes corrections (InputBits div 8)))"

definition UnmarshalChoiceCorrections :: "bytes \<Rightarrow> mpc_error + bool list" where
  "UnmarshalChoiceCorrections data =
     (if length data \<noteq> InputBits div 8 then Inl (Wire InvalidLength)
      else Inr (bytesToBits data))"

definition MarshalOTMasks :: "OTMask list \<Rightarrow> mpc_error + bytes" where
  "MarshalOTMasks masks =
     (if length masks \<noteq> InputBits then Inl (Online MaskCount)
      else Inr (be_put 4 (of_nat (length masks) :: u32) @ encode_seq mask_put masks))"

definition UnmarshalOTMasks :: "bytes \<Rightarrow> mpc_error + OTMask list" where
  "UnmarshalOTMasks data =
     (if length data < 4 then Inl (Wire InvalidLength)
      else let count = unat (be_get (slice data 0 4) :: u32) in
        if count \<noteq> InputBits \<or> length data \<noteq> 4 + count * 32 then Inl (Wire InvalidLength)
        else Inr (decode_seq mask_get 32 data 4 count))"

definition MarshalOutputLabels :: "Label list \<Rightarrow> mpc_error + bytes" where
  "MarshalOutputLabels ls =
     (if length ls \<noteq> OutputBits then Inl (Online OutputLabelCount)
      else Inr (be_put 4 (of_nat (length ls) :: u32) @ encode_seq label_put ls))"

definition UnmarshalOutputLabels :: "bytes \<Rightarrow> mpc_error + Label list" where
  "UnmarshalOutputLabels data =
     (if length data < 4 then Inl (Wire InvalidLength)
      else let count = unat (be_get (slice data 0 4) :: u32) in
        if count \<noteq> OutputBits \<or> length data \<noteq> 4 + count * 16 then Inl (Wire InvalidLength)
        else Inr (decode_seq labelFromBytes 16 data 4 count))"

section \<open>Online payload\<close>

definition payloadMagic :: bytes where "payloadMagic = ascii ''MPC1''"

definition payloadHeaderSize :: nat where "payloadHeaderSize = 4 + 8 + 16 + 8 + 4"

definition MarshalOnlinePayload ::
  "mpc_error + engine \<Rightarrow> OnlinePayload option \<Rightarrow> mpc_error + bytes" where
  "MarshalOnlinePayload eng po =
     (case po of
        None \<Rightarrow> Inl (Online NilPayload)
      | Some p \<Rightarrow> bindE eng (\<lambda>e.
          if length (Tables p) \<noteq> tableCount e then Inl (Engine TableCountMismatch)
          else if length (GarblerInputs p) \<noteq> InputBits then Inl (Online GarblerInputCount)
          else Inr (payloadMagic @ be_put 8 (pSessionID p) @ Key p @ be_put 8 (OTStartIndex p) @
                    be_put 4 (of_nat (length (Tables p)) :: u32) @
                    encode_seq label_put (Tables p) @ encode_seq label_put (GarblerInputs p) @
                    OutputTranslations p)))"

definition UnmarshalOnlinePayload :: "mpc_error + engine \<Rightarrow> bytes \<Rightarrow> mpc_error + OnlinePayload" where
  "UnmarshalOnlinePayload eng data = bindE eng (\<lambda>e.
     if length data < payloadHeaderSize then Inl (Wire InvalidLength)
     else if slice data 0 4 \<noteq> payloadMagic then Inl (Wire InvalidMagic)
     else let count = unat (be_get (slice data 36 40) :: u32) in
       if count \<noteq> tableCount e then Inl (Engine TableCountMismatch)
       else if length data \<noteq> payloadHeaderSize + count * 16 + InputBits * 16 + OutputBits div 8
       then Inl (Wire InvalidLength)
       else Inr \<lparr>pSessionID = be_get (slice data 4 12),
                 Key = slice data 12 28,
                 Tables = decode_seq labelFromBytes 16 data payloadHeaderSize count,
                 GarblerInputs =
                   decode_seq labelFromBytes 16 data (payloadHeaderSize + count * 16) InputBits,
                 OutputTranslations = drop (payloadHeaderSize + count * 16 + InputBits * 16) data,
                 OTStartIndex = be_get (slice data 28 36)\<rparr>)"

definition OnlinePayloadSize :: "mpc_error + engine \<Rightarrow> mpc_error + nat" where
  "OnlinePayloadSize eng = bindE eng (\<lambda>e.
     Inr (payloadHeaderSize + tableCount e * 16 + InputBits * 16 + OutputBits div 8))"

text \<open>The fixed-size array fields of a Go payload.\<close>

definition payload_shape :: "OnlinePayload \<Rightarrow> bool" where
  "payload_shape p \<longleftrightarrow> length (Key p) = 16 \<and> length (OutputTranslations p) = OutputBits div 8"

section \<open>Round trips\<close>

text \<open>The choice corrections have one encoding: the decoder accepts exactly the bytes the
  encoder produces and returns the corrections they were made from.\<close>

theorem choice_corrections_canonical:
  "MarshalChoiceCorrections cs = Inr data \<longleftrightarrow> UnmarshalChoiceCorrections data = Inr cs"
proof
  assume m: "MarshalChoiceCorrections cs = Inr data"
  then have "length cs = 8 * (InputBits div 8)" by (auto simp: MarshalChoiceCorrections_def split: if_splits)
  with m show "UnmarshalChoiceCorrections data = Inr cs"
    by (auto simp: MarshalChoiceCorrections_def UnmarshalChoiceCorrections_def bytesToBits_bitsToBytes
        split: if_splits)
next
  assume "UnmarshalChoiceCorrections data = Inr cs"
  then have "length data = InputBits div 8" "cs = bytesToBits data"
    by (auto simp: UnmarshalChoiceCorrections_def split: if_splits)
  then show "MarshalChoiceCorrections cs = Inr data"
    using bitsToBytes_bytesToBits [of data] by (simp add: MarshalChoiceCorrections_def)
qed

text \<open>The masked label pairs have one encoding, which the decoder inverts exactly.\<close>

theorem ot_masks_canonical: "MarshalOTMasks ms = Inr data \<longleftrightarrow> UnmarshalOTMasks data = Inr ms"
  using mc.counted_canonical [of InputBits ms data]
  by (auto simp: MarshalOTMasks_def UnmarshalOTMasks_def Let_def mult.commute)

text \<open>The output labels have one encoding, which the decoder inverts exactly.\<close>

theorem output_labels_canonical: "MarshalOutputLabels ls = Inr data \<longleftrightarrow> UnmarshalOutputLabels data = Inr ls"
  using lc.counted_canonical [of OutputBits ls data]
  by (auto simp: MarshalOutputLabels_def UnmarshalOutputLabels_def Let_def mult.commute)

lemma online_payload_decode:
  assumes shape: "payload_shape p" and count: "tableCount e < 2 ^ 32"
    and m: "MarshalOnlinePayload (Inr e) (Some p) = Inr data"
  shows "UnmarshalOnlinePayload (Inr e) data = Inr p" "OnlinePayloadSize (Inr e) = Inr (length data)"
proof -
  define h where "h = payloadMagic @ be_put 8 (pSessionID p) @ Key p @ be_put 8 (OTStartIndex p) @
      be_put 4 (of_nat (length (Tables p)) :: u32)"
  let ?t = "encode_seq label_put (Tables p)" and ?g = "encode_seq label_put (GarblerInputs p)"
  from m have t: "length (Tables p) = tableCount e" and g: "length (GarblerInputs p) = InputBits"
    and data: "data = h @ ?t @ ?g @ OutputTranslations p"
    by (auto simp: MarshalOnlinePayload_def h_def split: if_splits)
  have k: "length (Key p) = 16" "length (OutputTranslations p) = 16" "length payloadMagic = 4"
    using shape by (simp_all add: payload_shape_def payloadMagic_def)
  have lh: "length h = payloadHeaderSize" using k by (simp add: payloadHeaderSize_def h_def)
  have l: "length data = payloadHeaderSize + tableCount e * 16 + InputBits * 16 + OutputBits div 8"
    using lh k t g unfolding data by (simp add: lc.length_encode)
  then show "OnlinePayloadSize (Inr e) = Inr (length data)" by (simp add: OnlinePayloadSize_def)
  have s: "slice data 0 4 = payloadMagic" "slice data 4 12 = be_put 8 (pSessionID p)"
    "slice data 12 28 = Key p" "slice data 28 36 = be_put 8 (OTStartIndex p)"
    "slice data 36 40 = be_put 4 (of_nat (length (Tables p)) :: u32)"
    unfolding data h_def using k by (simp_all add: slice_def)
  have "decode_seq labelFromBytes 16 data payloadHeaderSize (tableCount e) = Tables p"
    using lc.decode_encode [of h "Tables p" "?g @ OutputTranslations p"] unfolding data lh t by simp
  moreover have "decode_seq labelFromBytes 16 data (payloadHeaderSize + tableCount e * 16) InputBits =
      GarblerInputs p"
    using lc.decode_encode [of "h @ ?t" "GarblerInputs p" "OutputTranslations p"] lh t
    unfolding data g by (simp add: lc.length_encode mult.commute)
  moreover have "drop (payloadHeaderSize + tableCount e * 16 + InputBits * 16) data = OutputTranslations p"
    using lh t g unfolding data by (simp add: lc.length_encode)
  moreover have "unat (of_nat (tableCount e) :: u32) = tableCount e"
    using count by (simp add: unat_of_nat)
  ultimately show "UnmarshalOnlinePayload (Inr e) data = Inr p"
    using l by (simp add: UnmarshalOnlinePayload_def s t)
qed

lemma online_payload_encode:
  assumes u: "UnmarshalOnlinePayload (Inr e) data = Inr p"
  shows "MarshalOnlinePayload (Inr e) (Some p) = Inr data" "payload_shape p"
proof -
  let ?n = "tableCount e"
  from u have l: "length data = 40 + ?n * 16 + InputBits * 16 + 16"
    and m: "slice data 0 4 = payloadMagic" and c: "unat (be_get (slice data 36 40) :: u32) = ?n"
    and p: "p = \<lparr>pSessionID = be_get (slice data 4 12), Key = slice data 12 28,
         Tables = decode_seq labelFromBytes 16 data 40 ?n,
         GarblerInputs = decode_seq labelFromBytes 16 data (40 + ?n * 16) InputBits,
         OutputTranslations = drop (40 + ?n * 16 + InputBits * 16) data,
         OTStartIndex = be_get (slice data 28 36)\<rparr>"
    by (auto simp: UnmarshalOnlinePayload_def payloadHeaderSize_def Let_def split: if_splits)
  show "payload_shape p" using l by (simp add: p payload_shape_def)
  have "be_put 4 (of_nat ?n :: u32) = be_put 4 (be_get (slice data 36 40) :: u32)"
    unfolding c [symmetric] by simp
  then have cn: "be_put 4 (of_nat ?n :: u32) = slice data 36 40" using l by (simp add: be_put_32)
  have "encode_seq label_put (Tables p) = slice data 40 (40 + 16 * ?n)"
    "encode_seq label_put (GarblerInputs p) =
      slice data (40 + ?n * 16) (40 + ?n * 16 + 16 * InputBits)"
    using l by (simp_all add: p lc.encode_decode del: InputBits_val)
  moreover have "OutputTranslations p = slice data (40 + ?n * 16 + InputBits * 16) (length data)"
    by (simp add: p slice_def)
  ultimately have "payloadMagic @ be_put 8 (pSessionID p) @ Key p @ be_put 8 (OTStartIndex p) @
      be_put 4 (of_nat (length (Tables p)) :: u32) @ encode_seq label_put (Tables p) @
      encode_seq label_put (GarblerInputs p) @ OutputTranslations p = slice data 0 (length data)"
    using l by (simp add: p m [symmetric] cn be_put_64 slice_join mult.commute del: slice_full)
  then show "MarshalOnlinePayload (Inr e) (Some p) = Inr data"
    by (simp add: MarshalOnlinePayload_def) (simp add: p)
qed

text \<open>C33. The payload of the online phase has one encoding for a compiled circuit whose table
  count fits the 32-bit field: a payload with arrays of the declared sizes encodes to the
  bytes \<open>data\<close> exactly when \<open>data\<close> decodes to it, and the encoding has the announced size.\<close>

theorem online_payload_canonical:
  assumes "tableCount e < 2 ^ 32"
  shows "(payload_shape p \<and> MarshalOnlinePayload (Inr e) (Some p) = Inr data \<longleftrightarrow>
      UnmarshalOnlinePayload (Inr e) data = Inr p) \<and>
    (UnmarshalOnlinePayload (Inr e) data = Inr p \<longrightarrow> OnlinePayloadSize (Inr e) = Inr (length data))"
  using online_payload_decode [OF _ assms, of p data] online_payload_encode [of e data p] by blast

theorem online_payload_canonical_witness:
  "\<exists>e p data. tableCount e = 2 \<and> MarshalOnlinePayload (Inr e) (Some p) = Inr data \<and>
     UnmarshalOnlinePayload (Inr e) data = Inr p \<and> OnlinePayloadSize (Inr e) = Inr (length data)"
proof -
  define e where "e = \<lparr>gates = [], numWires = 1280, tableCount = 2\<rparr>"
  define p where "p = \<lparr>pSessionID = 7, Key = replicate 16 3, Tables = [\<lparr>D0 = 1, D1 = 2\<rparr>, \<lparr>D0 = 3, D1 = 4\<rparr>],
    GarblerInputs = replicate InputBits \<lparr>D0 = 5, D1 = 6\<rparr>, OutputTranslations = replicate 16 9, OTStartIndex = 11\<rparr>"
  have small: "tableCount e < 2 ^ 32" and n: "tableCount e = 2" by (simp_all add: e_def)
  have "\<exists>data. MarshalOnlinePayload (Inr e) (Some p) = Inr data"
    by (simp add: MarshalOnlinePayload_def n) (simp add: p_def)
  then obtain data where d: "MarshalOnlinePayload (Inr e) (Some p) = Inr data" by blast
  have "payload_shape p" by (simp add: payload_shape_def p_def)
  with d online_payload_canonical [OF small, of p data] n show ?thesis by blast
qed

end
