(* ===== verification/Precompute_Wire.thy ===== *)
theory Precompute_Wire
  imports Kos_Correct Mpc_Wire
begin

text \<open>
  The frames of the precompute protocol: extension commitment, challenge and proof
  (\<open>mpc/ot_extension_serialize.go\<close>) and the begin, base-transfer and commitment frames with
  their batch-specific decoders (\<open>mpc/precompute_wire.go\<close>). A decoder accepts exactly the
  encodings of well-formed messages.
\<close>

section \<open>Extension messages\<close>

definition extensionCommitmentHeaderSize :: nat where
  "extensionCommitmentHeaderSize = 4 + 32 + 8 + 4 + 4 + 32 + 32"

definition extensionChallengeHeaderSize :: nat where
  "extensionChallengeHeaderSize = 4 + 32 + 32 + 32 + 4"

definition extensionProofSize :: nat where
  "extensionProofSize = 4 + 32 + 32 + 16 + BaseOTCount * 16"

definition MarshalExtensionCommitment :: "ExtensionCommitment option \<Rightarrow> mpc_error + bytes" where
  "MarshalExtensionCommitment co =
     (case co of
        None \<Rightarrow> Inl (Wire NilMessage)
      | Some c \<Rightarrow>
          bindE (extensionPaddedCount (int (unat (cCount c)))) (\<lambda>padded.
          if unat (PaddedCount c) \<noteq> padded then Inl (Extension PaddedCountMismatch)
          else bindE (checkedIndexEnd (cStartIndex c) (int (unat (cCount c)))) (\<lambda>_.
          if length (matU c) \<noteq> BaseOTCount * padded div 8 then Inl (Extension MatrixLength)
          else Inr (ascii ''KOC2'' @ cSessionID c @ be_put 8 (cStartIndex c) @ be_put 4 (cCount c) @
                    be_put 4 (PaddedCount c) @ EpochHash c @ cTranscript c @ matU c))))"

definition UnmarshalExtensionCommitment :: "bytes \<Rightarrow> mpc_error + ExtensionCommitment" where
  "UnmarshalExtensionCommitment data =
     (if length data < extensionCommitmentHeaderSize then Inl (Wire InvalidLength)
      else if slice data 0 4 \<noteq> ascii ''KOC2'' then Inl (Wire InvalidMagic)
      else let count = unat (be_get (slice data 44 48) :: u32) in
        bindE (extensionPaddedCount (int count)) (\<lambda>padded.
        if unat (be_get (slice data 48 52) :: u32) \<noteq> padded then Inl (Extension PaddedCountMismatch)
        else let startIndex = be_get (slice data 36 44) in
        bindE (checkedIndexEnd startIndex (int count)) (\<lambda>_.
        if length data \<noteq> extensionCommitmentHeaderSize + BaseOTCount * padded div 8
        then Inl (Wire InvalidLength)
        else Inr \<lparr>cSessionID = slice data 4 36, cStartIndex = startIndex, cCount = of_nat count,
                  PaddedCount = of_nat padded, EpochHash = slice data 52 84,
                  cTranscript = slice data 84 116, matU = drop 116 data\<rparr>)))"

definition MarshalExtensionChallenge :: "ExtensionChallenge option \<Rightarrow> mpc_error + bytes" where
  "MarshalExtensionChallenge cho =
     (case cho of
        None \<Rightarrow> Inl (Wire InvalidFrame)
      | Some ch \<Rightarrow>
          if length (Chi ch) = 0 then Inl (Wire InvalidFrame)
          else if chTranscript ch \<noteq> extensionChallengeTranscript ch
          then Inl (Extension TranscriptMismatch)
          else Inr (ascii ''KCH2'' @ chSessionID ch @ chCommitment ch @ chTranscript ch @
                    be_put 4 (of_nat (length (Chi ch)) :: u32) @ encode_seq label_put (Chi ch)))"

definition UnmarshalExtensionChallenge :: "bytes \<Rightarrow> mpc_error + ExtensionChallenge" where
  "UnmarshalExtensionChallenge data =
     (if length data < extensionChallengeHeaderSize \<or> slice data 0 4 \<noteq> ascii ''KCH2''
      then Inl (Wire InvalidFrame)
      else let count = unat (be_get (slice data 100 104) :: u32) in
        bindE (extensionPaddedCount (int maxExtensionOTs)) (\<lambda>maxPadded.
        if count = 0 \<or> count > extensionChallengeCount maxPadded then Inl (Wire CountMismatch)
        else if length data \<noteq> extensionChallengeHeaderSize + count * 16 then Inl (Wire InvalidLength)
        else let challenge = \<lparr>chSessionID = slice data 4 36, chCommitment = slice data 36 68,
                              chTranscript = slice data 68 100,
                              Chi = decode_seq labelFromBytes 16 data 104 count\<rparr>
          in if chTranscript challenge \<noteq> extensionChallengeTranscript challenge
             then Inl (Extension TranscriptMismatch)
             else Inr challenge))"

definition MarshalExtensionProof :: "ExtensionProof option \<Rightarrow> mpc_error + bytes" where
  "MarshalExtensionProof po =
     (case po of
        None \<Rightarrow> Inl (Wire NilMessage)
      | Some p \<Rightarrow> Inr (ascii ''KPR2'' @ prSessionID p @ prTranscript p @ label_put (proofX p) @
                        encode_seq label_put (proofT p)))"

definition UnmarshalExtensionProof :: "bytes \<Rightarrow> mpc_error + ExtensionProof" where
  "UnmarshalExtensionProof data =
     (if length data \<noteq> extensionProofSize \<or> slice data 0 4 \<noteq> ascii ''KPR2''
      then Inl (Wire InvalidFrame)
      else Inr \<lparr>prSessionID = slice data 4 36, prTranscript = slice data 36 68,
                proofX = labelFromBytes (slice data 68 84),
                proofT = decode_seq labelFromBytes 16 data 84 BaseOTCount\<rparr>)"

section \<open>Precompute frames\<close>

definition compressedP256PointSize :: nat where "compressedP256PointSize = 33"

definition baseSetupMessageSize :: nat where
  "baseSetupMessageSize = 4 + 32 + compressedP256PointSize"

definition baseChoiceMessageSize :: nat where
  "baseChoiceMessageSize = 4 + 32 + BaseOTCount * compressedP256PointSize"

datatype PrecomputePhase =
  PrecomputePhaseUnknown | PrecomputePhaseBegin | PrecomputePhaseBaseChoices | PrecomputePhaseChallenge

record PrecomputeBegin =
  bSessionID :: bytes
  bStartIndex :: u64
  bCount :: u32
  bEpoch :: bytes

definition PrecomputeRequestPhase :: "bytes \<Rightarrow> PrecomputePhase" where
  "PrecomputeRequestPhase data =
     (if length data < 4 then PrecomputePhaseUnknown
      else if slice data 0 4 = ascii ''KOB2'' then PrecomputePhaseBegin
      else if slice data 0 4 = ascii ''KBC2'' then PrecomputePhaseBaseChoices
      else if slice data 0 4 = ascii ''KCH2'' then PrecomputePhaseChallenge
      else PrecomputePhaseUnknown)"

definition MarshalPrecomputeBegin :: "PrecomputeBegin \<Rightarrow> mpc_error + bytes" where
  "MarshalPrecomputeBegin b =
     bindE (extensionPaddedCount (int (unat (bCount b)))) (\<lambda>_.
     bindE (checkedIndexEnd (bStartIndex b) (int (unat (bCount b)))) (\<lambda>_.
     bindE (validateExtensionEpoch (bEpoch b)) (\<lambda>_.
     Inr (ascii ''KOB2'' @ bSessionID b @ be_put 8 (bStartIndex b) @ be_put 4 (bCount b) @
          be_put 2 (of_nat (length (bEpoch b)) :: u16) @ bEpoch b))))"

definition UnmarshalPrecomputeBegin :: "bytes \<Rightarrow> mpc_error + PrecomputeBegin" where
  "UnmarshalPrecomputeBegin data =
     (if length data < 50 \<or> slice data 0 4 \<noteq> ascii ''KOB2'' then Inl (Wire InvalidFrame)
      else let epochLen = unat (be_get (slice data 48 50) :: u16) in
        if epochLen = 0 \<or> length data \<noteq> 50 + epochLen then Inl (Wire InvalidFrame)
        else let b = \<lparr>bSessionID = slice data 4 36, bStartIndex = be_get (slice data 36 44),
                      bCount = be_get (slice data 44 48), bEpoch = drop 50 data\<rparr>
          in bindE (validateExtensionEpoch (bEpoch b)) (\<lambda>_.
             bindE (extensionPaddedCount (int (unat (bCount b)))) (\<lambda>_.
             bindE (checkedIndexEnd (bStartIndex b) (int (unat (bCount b)))) (\<lambda>_.
             Inr b))))"

text \<open>The two base-transfer frames differ in their tags and in the size of the nested message.\<close>

definition marshal_nested :: "string \<Rightarrow> string \<Rightarrow> nat \<Rightarrow> bytes \<Rightarrow> bytes \<Rightarrow> mpc_error + bytes" where
  "marshal_nested tag inner sz session msg =
     (if length msg \<noteq> sz \<or> slice msg 0 4 \<noteq> ascii inner \<or> slice msg 4 36 \<noteq> session
      then Inl (Wire InvalidFrame)
      else Inr (ascii tag @ session @ msg))"

definition unmarshal_nested :: "string \<Rightarrow> string \<Rightarrow> nat \<Rightarrow> bytes \<Rightarrow> bytes \<Rightarrow> mpc_error + bytes" where
  "unmarshal_nested tag inner sz data session =
     (if length data \<noteq> 4 + 32 + sz \<or> slice data 0 4 \<noteq> ascii tag \<or> slice data 4 36 \<noteq> session
      then Inl (Wire InvalidFrame)
      else let msg = drop 36 data in
        if slice msg 0 4 \<noteq> ascii inner \<or> slice msg 4 36 \<noteq> session then Inl (Wire InvalidFrame)
        else Inr msg)"

definition MarshalPrecomputeBaseSetup :: "bytes \<Rightarrow> bytes \<Rightarrow> mpc_error + bytes" where
  "MarshalPrecomputeBaseSetup = marshal_nested ''KBS2'' ''BOS1'' baseSetupMessageSize"

definition UnmarshalPrecomputeBaseSetup :: "bytes \<Rightarrow> bytes \<Rightarrow> mpc_error + bytes" where
  "UnmarshalPrecomputeBaseSetup = unmarshal_nested ''KBS2'' ''BOS1'' baseSetupMessageSize"

definition MarshalPrecomputeBaseChoices :: "bytes \<Rightarrow> bytes \<Rightarrow> mpc_error + bytes" where
  "MarshalPrecomputeBaseChoices = marshal_nested ''KBC2'' ''BOC1'' baseChoiceMessageSize"

definition UnmarshalPrecomputeBaseChoices :: "bytes \<Rightarrow> bytes \<Rightarrow> mpc_error + bytes" where
  "UnmarshalPrecomputeBaseChoices = unmarshal_nested ''KBC2'' ''BOC1'' baseChoiceMessageSize"

definition MarshalPrecomputeCommitment :: "bytes \<Rightarrow> ExtensionCommitment option \<Rightarrow> mpc_error + bytes" where
  "MarshalPrecomputeCommitment cipherMessage co =
     (case co of
        None \<Rightarrow> Inl (Wire NilMessage)
      | Some c \<Rightarrow>
          bindE (validateBaseCipherForTranscript cipherMessage (cSessionID c)) (\<lambda>_.
          bindE (MarshalExtensionCommitment co) (\<lambda>extension.
          Inr (ascii ''KOF2'' @ be_put 4 (of_nat (length cipherMessage) :: u32) @ cipherMessage @ extension))))"

definition UnmarshalPrecomputeCommitment :: "bytes \<Rightarrow> mpc_error + bytes \<times> ExtensionCommitment" where
  "UnmarshalPrecomputeCommitment data =
     (if length data < 8 \<or> slice data 0 4 \<noteq> ascii ''KOF2'' then Inl (Wire InvalidFrame)
      else let cipherLen = unat (be_get (slice data 4 8) :: u32) in
        if cipherLen \<noteq> baseCipherMessageSize \<or> length data < 8 + cipherLen then Inl (Wire InvalidFrame)
        else bindE (UnmarshalExtensionCommitment (drop (8 + cipherLen) data)) (\<lambda>c.
          let cipher = slice data 8 (8 + cipherLen) in
          bindE (validateBaseCipherForTranscript cipher (cSessionID c)) (\<lambda>_. Inr (cipher, c))))"

definition PrecomputeCommitmentWireSize :: "int \<Rightarrow> mpc_error + nat" where
  "PrecomputeCommitmentWireSize count =
     bindE (extensionPaddedCount count) (\<lambda>padded.
       Inr (8 + baseCipherMessageSize + extensionCommitmentHeaderSize + BaseOTCount * padded div 8))"

definition PrecomputeChallengeWireSize :: "int \<Rightarrow> mpc_error + nat" where
  "PrecomputeChallengeWireSize count =
     bindE (extensionPaddedCount count) (\<lambda>padded.
       Inr (extensionChallengeHeaderSize + extensionChallengeCount padded * 16))"

definition PrecomputeProofWireSize :: nat where
  "PrecomputeProofWireSize = extensionProofSize"

definition UnmarshalPrecomputeCommitmentFor ::
  "bytes \<Rightarrow> PrecomputeBegin \<Rightarrow> mpc_error + bytes \<times> ExtensionCommitment" where
  "UnmarshalPrecomputeCommitmentFor data expected =
     bindE (ValidatePrecomputeCount (int (unat (bCount expected)))) (\<lambda>_.
     bindE (checkedIndexEnd (bStartIndex expected) (int (unat (bCount expected)))) (\<lambda>_.
     bindE (PrecomputeCommitmentWireSize (int (unat (bCount expected)))) (\<lambda>wantLen.
     if length data \<noteq> wantLen then Inl (Wire InvalidLength)
     else let off = 8 + baseCipherMessageSize in
       if slice data 0 4 \<noteq> ascii ''KOF2'' \<or> unat (be_get (slice data 4 8) :: u32) \<noteq> baseCipherMessageSize \<or>
          slice data off (off + 4) \<noteq> ascii ''KOC2''
       then Inl (Wire InvalidFrame)
       else if slice data (off + 4) (off + 36) \<noteq> bSessionID expected \<or>
               be_get (slice data (off + 36) (off + 44)) \<noteq> bStartIndex expected \<or>
               be_get (slice data (off + 44) (off + 48)) \<noteq> bCount expected
       then Inl (Wire SessionMismatch)
       else bindE (UnmarshalPrecomputeCommitment data) (\<lambda>(cipher, c).
         if cSessionID c \<noteq> bSessionID expected \<or> cStartIndex c \<noteq> bStartIndex expected \<or>
            cCount c \<noteq> bCount expected
         then Inl (Wire SessionMismatch)
         else Inr (cipher, c)))))"

definition UnmarshalExtensionChallengeFor :: "bytes \<Rightarrow> bytes \<Rightarrow> int \<Rightarrow> mpc_error + ExtensionChallenge" where
  "UnmarshalExtensionChallengeFor data session otCount =
     bindE (ValidatePrecomputeCount otCount) (\<lambda>_.
     bindE (PrecomputeChallengeWireSize otCount) (\<lambda>wantLen.
     if length data \<noteq> wantLen then Inl (Wire InvalidLength)
     else if slice data 0 4 \<noteq> ascii ''KCH2'' \<or> slice data 4 36 \<noteq> session
     then Inl (Wire SessionMismatch)
     else bindE (extensionPaddedCount otCount) (\<lambda>padded.
       if be_get (slice data 100 104) \<noteq> (of_nat (extensionChallengeCount padded) :: u32)
       then Inl (Wire CountMismatch)
       else bindE (UnmarshalExtensionChallenge data) (\<lambda>ch.
         if chSessionID ch \<noteq> session then Inl (Wire SessionMismatch) else Inr ch))))"

definition UnmarshalExtensionProofFor :: "bytes \<Rightarrow> bytes \<Rightarrow> mpc_error + ExtensionProof" where
  "UnmarshalExtensionProofFor data session =
     (if length data \<noteq> extensionProofSize \<or> slice data 0 4 \<noteq> ascii ''KPR2'' \<or> slice data 4 36 \<noteq> session
      then Inl (Wire SessionMismatch)
      else UnmarshalExtensionProof data)"

section \<open>Canonical encodings\<close>

text \<open>Field shapes of the Go messages: hashes and session identifiers are 32-byte arrays.\<close>

definition commitment_shape :: "ExtensionCommitment \<Rightarrow> bool" where
  "commitment_shape c \<longleftrightarrow> length (cSessionID c) = 32 \<and> length (EpochHash c) = 32 \<and> length (cTranscript c) = 32"

definition challenge_shape :: "ExtensionChallenge \<Rightarrow> bool" where
  "challenge_shape ch \<longleftrightarrow> length (chSessionID ch) = 32 \<and> length (chCommitment ch) = 32 \<and> length (chTranscript ch) = 32"

definition proof_shape :: "ExtensionProof \<Rightarrow> bool" where
  "proof_shape p \<longleftrightarrow> length (prSessionID p) = 32 \<and> length (prTranscript p) = 32 \<and> length (proofT p) = BaseOTCount"

definition begin_shape :: "PrecomputeBegin \<Rightarrow> bool" where
  "begin_shape b \<longleftrightarrow> length (bSessionID b) = 32"

lemmas frame_sizes = extensionCommitmentHeaderSize_def extensionChallengeHeaderSize_def extensionProofSize_def
  baseCipherMessageSize_def baseSetupMessageSize_def baseChoiceMessageSize_def compressedP256PointSize_def

lemma drop_slice: "n \<le> length xs \<Longrightarrow> drop n xs = slice xs n (length xs)"
  by (simp add: slice_def)

lemma be_put_get_slice:
  "j = i + 8 \<Longrightarrow> j \<le> length data \<Longrightarrow> be_put 8 (be_get (slice data i j) :: u64) = slice data i j"
  "j = i + 4 \<Longrightarrow> j \<le> length data \<Longrightarrow> be_put 4 (be_get (slice data i j) :: u32) = slice data i j"
  "j = i + 2 \<Longrightarrow> j \<le> length data \<Longrightarrow> be_put 2 (be_get (slice data i j) :: u16) = slice data i j"
  by (simp_all add: be_put_64 be_put_32 be_put_16)

lemma commitment_frame_canonical:
  "commitment_shape c \<and> MarshalExtensionCommitment (Some c) = Inr data \<longleftrightarrow>
   UnmarshalExtensionCommitment data = Inr c"
proof
  assume a: "commitment_shape c \<and> MarshalExtensionCommitment (Some c) = Inr data"
  then obtain padded e where p: "extensionPaddedCount (int (unat (cCount c))) = Inr padded"
    "unat (PaddedCount c) = padded" "checkedIndexEnd (cStartIndex c) (int (unat (cCount c))) = Inr e"
    "length (matU c) = BaseOTCount * padded div 8"
    and data: "data = ascii ''KOC2'' @ cSessionID c @ be_put 8 (cStartIndex c) @ be_put 4 (cCount c) @
       be_put 4 (PaddedCount c) @ EpochHash c @ cTranscript c @ matU c"
    by (auto simp: MarshalExtensionCommitment_def split: if_splits)
  have l: "length (cSessionID c) = 32" "length (EpochHash c) = 32" "length (cTranscript c) = 32"
    using a by (simp_all add: commitment_shape_def)
  have s: "slice data 0 4 = ascii ''KOC2''" "slice data 4 36 = cSessionID c"
    "slice data 36 44 = be_put 8 (cStartIndex c)" "slice data 44 48 = be_put 4 (cCount c)"
    "slice data 48 52 = be_put 4 (PaddedCount c)" "slice data 52 84 = EpochHash c"
    "slice data 84 116 = cTranscript c" "drop 116 data = matU c" "length data = 116 + length (matU c)"
    unfolding data using l by (simp_all add: slice_def)
  have "of_nat padded = PaddedCount c" using p(2) by auto
  then show "UnmarshalExtensionCommitment data = Inr c"
    using s p by (simp add: UnmarshalExtensionCommitment_def frame_sizes)
next
  assume "UnmarshalExtensionCommitment data = Inr c"
  then obtain padded e where p: "extensionPaddedCount (int (unat (be_get (slice data 44 48) :: u32))) = Inr padded"
    "unat (be_get (slice data 48 52) :: u32) = padded"
    "checkedIndexEnd (be_get (slice data 36 44)) (int (unat (be_get (slice data 44 48) :: u32))) = Inr e"
    "length data = 116 + 128 * padded div 8" "slice data 0 4 = ascii ''KOC2''"
    and c: "c = \<lparr>cSessionID = slice data 4 36, cStartIndex = be_get (slice data 36 44),
        cCount = be_get (slice data 44 48), PaddedCount = be_get (slice data 48 52),
        EpochHash = slice data 52 84, cTranscript = slice data 84 116, matU = drop 116 data\<rparr>"
    by (auto simp: UnmarshalExtensionCommitment_def frame_sizes Let_def split: if_splits)
  have "ascii ''KOC2'' @ cSessionID c @ be_put 8 (cStartIndex c) @ be_put 4 (cCount c) @
      be_put 4 (PaddedCount c) @ EpochHash c @ cTranscript c @ matU c = slice data 0 (length data)"
    using p(4) by (simp add: c p(5) [symmetric] be_put_get_slice drop_slice slice_join del: slice_full)
  also have "\<dots> = data" by (rule slice_full)
  finally show "commitment_shape c \<and> MarshalExtensionCommitment (Some c) = Inr data"
    using p by (simp add: MarshalExtensionCommitment_def) (simp add: c commitment_shape_def)
qed

lemma challenge_bound: "extensionPaddedCount (int maxExtensionOTs) = Inr 16777344"
  "extensionChallengeCount 16777344 = 131072"
  using and_not_low_bits [of 16777471 7]
  by (simp_all add: extensionPaddedCount_def extensionChallengeCount_def Let_def)

lemma challenge_frame_iff:
  "challenge_shape ch \<and> length (Chi ch) \<le> 131072 \<and> MarshalExtensionChallenge (Some ch) = Inr data \<longleftrightarrow>
   UnmarshalExtensionChallenge data = Inr ch"
proof
  assume a: "challenge_shape ch \<and> length (Chi ch) \<le> 131072 \<and> MarshalExtensionChallenge (Some ch) = Inr data"
  define h where "h = ascii ''KCH2'' @ chSessionID ch @ chCommitment ch @ chTranscript ch @
      be_put 4 (of_nat (length (Chi ch)) :: u32)"
  from a have m: "length (Chi ch) \<noteq> 0" "chTranscript ch = extensionChallengeTranscript ch"
    "data = h @ encode_seq label_put (Chi ch)"
    by (auto simp: MarshalExtensionChallenge_def h_def split: if_splits)
  have l: "length (chSessionID ch) = 32" "length (chCommitment ch) = 32" "length (chTranscript ch) = 32"
    using a by (simp_all add: challenge_shape_def)
  have lh: "length h = 104" using l by (simp add: h_def)
  have s: "slice data 0 4 = ascii ''KCH2''" "slice data 4 36 = chSessionID ch" "slice data 36 68 = chCommitment ch"
    "slice data 68 100 = chTranscript ch" "slice data 100 104 = be_put 4 (of_nat (length (Chi ch)) :: u32)"
    unfolding m(3) h_def using l by (simp_all add: slice_def)
  have "unat (of_nat (length (Chi ch)) :: u32) = length (Chi ch)" using a by (simp add: unat_of_nat)
  moreover have "decode_seq labelFromBytes 16 data 104 (length (Chi ch)) = Chi ch"
    using lc.decode_encode [of h "Chi ch" "[]"] lh m(3) by simp
  moreover have "length data = 104 + 16 * length (Chi ch)" using lh m(3) by (simp add: lc.length_encode)
  moreover have "length (Chi ch) \<le> 131072" using a by blast
  ultimately show "UnmarshalExtensionChallenge data = Inr ch"
    using s m(1) m(2) [symmetric]
    by (cases ch)
      (simp add: UnmarshalExtensionChallenge_def frame_sizes challenge_bound Let_def del: maxExtensionOTs_val)
next
  assume "UnmarshalExtensionChallenge data = Inr ch"
  then obtain n where n: "n = unat (be_get (slice data 100 104) :: u32)" "n \<noteq> 0" "n \<le> 131072"
    "length data = 104 + n * 16" "slice data 0 4 = ascii ''KCH2''"
    and t: "chTranscript ch = extensionChallengeTranscript ch"
    and ch: "ch = \<lparr>chSessionID = slice data 4 36, chCommitment = slice data 36 68,
        chTranscript = slice data 68 100, Chi = decode_seq labelFromBytes 16 data 104 n\<rparr>"
    using challenge_bound
    by (auto simp: UnmarshalExtensionChallenge_def frame_sizes Let_def split: if_splits)
  have "be_put 4 (of_nat n :: u32) = slice data 100 104"
    using n(1,4) be_put_get_slice(2) [of 104 100 data] by simp
  moreover have "encode_seq label_put (Chi ch) = slice data 104 (length data)"
    using lc.encode_decode [of 104 n data] n(4) by (simp add: ch mult.commute)
  ultimately have "ascii ''KCH2'' @ chSessionID ch @ chCommitment ch @ chTranscript ch @
      be_put 4 (of_nat (length (Chi ch)) :: u32) @ encode_seq label_put (Chi ch) = slice data 0 (length data)"
    using n(4) by (simp add: ch n(5) [symmetric] slice_join del: slice_full)
  also have "\<dots> = data" by (rule slice_full)
  moreover have cn: "length (Chi ch) = n" by (simp add: ch)
  ultimately have "MarshalExtensionChallenge (Some ch) = Inr data"
    using n(2) t by (auto simp: MarshalExtensionChallenge_def)
  moreover have "challenge_shape ch" using n(4) by (simp add: ch challenge_shape_def)
  ultimately show "challenge_shape ch \<and> length (Chi ch) \<le> 131072 \<and> MarshalExtensionChallenge (Some ch) = Inr data"
    using n(3) cn by blast
qed

text \<open>C35. The challenge frame of the consistency check has one encoding: a challenge with
  full-length hashes and at most the permitted number of coefficients encodes to \<open>data\<close>
  exactly when \<open>data\<close> decodes to it; in particular the decoder accepts only a challenge
  whose transcript is the hash of its own contents.\<close>

theorem challenge_frame_canonical:
  "challenge_shape ch \<and> length (Chi ch) \<le> 131072 \<and> MarshalExtensionChallenge (Some ch) = Inr data \<longleftrightarrow>
   UnmarshalExtensionChallenge data = Inr ch"
  by (rule challenge_frame_iff)

lemma proof_frame_iff:
  "proof_shape p \<and> MarshalExtensionProof (Some p) = Inr data \<longleftrightarrow> UnmarshalExtensionProof data = Inr p"
proof
  assume a: "proof_shape p \<and> MarshalExtensionProof (Some p) = Inr data"
  define h where "h = ascii ''KPR2'' @ prSessionID p @ prTranscript p @ label_put (proofX p)"
  from a have m: "data = h @ encode_seq label_put (proofT p)"
    by (auto simp: MarshalExtensionProof_def h_def)
  have l: "length (prSessionID p) = 32" "length (prTranscript p) = 32" "length (proofT p) = 128"
    using a by (simp_all add: proof_shape_def)
  have lh: "length h = 84" using l by (simp add: h_def)
  have "slice data 0 4 = ascii ''KPR2''" "slice data 4 36 = prSessionID p" "slice data 36 68 = prTranscript p"
    "slice data 68 84 = label_put (proofX p)"
    unfolding m h_def using l by (simp_all add: slice_def)
  moreover have "decode_seq labelFromBytes 16 data 84 128 = proofT p"
    using lc.decode_encode [of h "proofT p" "[]"] lh m l by simp
  moreover have "length data = extensionProofSize"
    using lh m l by (simp add: lc.length_encode frame_sizes)
  ultimately show "UnmarshalExtensionProof data = Inr p" by (simp add: UnmarshalExtensionProof_def)
next
  assume "UnmarshalExtensionProof data = Inr p"
  then have l: "length data = 84 + 16 * 128" and t: "slice data 0 4 = ascii ''KPR2''"
    and p: "p = \<lparr>prSessionID = slice data 4 36, prTranscript = slice data 36 68,
      proofX = labelFromBytes (slice data 68 84), proofT = decode_seq labelFromBytes 16 data 84 128\<rparr>"
    by (auto simp: UnmarshalExtensionProof_def frame_sizes split: if_splits)
  have "encode_seq label_put (proofT p) = slice data 84 (length data)"
    using lc.encode_decode [of 84 128 data] l by (simp add: p)
  then have "ascii ''KPR2'' @ prSessionID p @ prTranscript p @ label_put (proofX p) @
      encode_seq label_put (proofT p) = slice data 0 (length data)"
    using l by (simp add: p t [symmetric] label_put_fromBytes slice_join del: slice_full)
  also have "\<dots> = data" by (rule slice_full)
  finally show "proof_shape p \<and> MarshalExtensionProof (Some p) = Inr data"
    using l by (simp add: MarshalExtensionProof_def) (simp add: p proof_shape_def)
qed

text \<open>The proof frame of the consistency check has one encoding, which the decoder
  inverts exactly.\<close>

theorem proof_frame_canonical:
  "proof_shape p \<and> MarshalExtensionProof (Some p) = Inr data \<longleftrightarrow> UnmarshalExtensionProof data = Inr p"
  by (rule proof_frame_iff)

lemma begin_frame_iff:
  "begin_shape b \<and> MarshalPrecomputeBegin b = Inr data \<longleftrightarrow> UnmarshalPrecomputeBegin data = Inr b"
proof
  assume a: "begin_shape b \<and> MarshalPrecomputeBegin b = Inr data"
  then have v: "validateExtensionEpoch (bEpoch b) = Inr ()"
    "\<exists>x. extensionPaddedCount (int (unat (bCount b))) = Inr x"
    "\<exists>x. checkedIndexEnd (bStartIndex b) (int (unat (bCount b))) = Inr x"
    and data: "data = ascii ''KOB2'' @ bSessionID b @ be_put 8 (bStartIndex b) @ be_put 4 (bCount b) @
          be_put 2 (of_nat (length (bEpoch b)) :: u16) @ bEpoch b"
    by (auto simp: MarshalPrecomputeBegin_def)
  have l: "length (bSessionID b) = 32" using a by (simp add: begin_shape_def)
  have ep: "0 < length (bEpoch b)" "length (bEpoch b) \<le> 256"
    using v(1) by (auto simp: validateExtensionEpoch_def maxEpochLength_def split: if_splits)
  have "slice data 0 4 = ascii ''KOB2''" "slice data 4 36 = bSessionID b" "slice data 36 44 = be_put 8 (bStartIndex b)"
    "slice data 44 48 = be_put 4 (bCount b)" "slice data 48 50 = be_put 2 (of_nat (length (bEpoch b)) :: u16)"
    "drop 50 data = bEpoch b" "length data = 50 + length (bEpoch b)"
    unfolding data using l by (simp_all add: slice_def)
  moreover have "unat (of_nat (length (bEpoch b)) :: u16) = length (bEpoch b)" using ep by (simp add: unat_of_nat)
  ultimately show "UnmarshalPrecomputeBegin data = Inr b"
    using v ep by (auto simp: UnmarshalPrecomputeBegin_def Let_def)
next
  assume "UnmarshalPrecomputeBegin data = Inr b"
  then have v: "validateExtensionEpoch (bEpoch b) = Inr ()"
    "\<exists>x. extensionPaddedCount (int (unat (bCount b))) = Inr x"
    "\<exists>x. checkedIndexEnd (bStartIndex b) (int (unat (bCount b))) = Inr x"
    and l: "length data = 50 + unat (be_get (slice data 48 50) :: u16)" and t: "slice data 0 4 = ascii ''KOB2''"
    and b: "b = \<lparr>bSessionID = slice data 4 36, bStartIndex = be_get (slice data 36 44),
                 bCount = be_get (slice data 44 48), bEpoch = drop 50 data\<rparr>"
    by (auto simp: UnmarshalPrecomputeBegin_def Let_def split: if_splits)
  have "be_put 2 (of_nat (length (bEpoch b)) :: u16) = slice data 48 50"
    using l be_put_get_slice(3) [of 50 48 data] by (simp add: b)
  then have "ascii ''KOB2'' @ bSessionID b @ be_put 8 (bStartIndex b) @ be_put 4 (bCount b) @
      be_put 2 (of_nat (length (bEpoch b)) :: u16) @ bEpoch b = slice data 0 (length data)"
    using l by (simp add: b t [symmetric] be_put_get_slice drop_slice slice_join del: slice_full)
  also have "\<dots> = data" by (rule slice_full)
  finally have "MarshalPrecomputeBegin b = Inr data" using v by (auto simp: MarshalPrecomputeBegin_def)
  moreover have "begin_shape b" using l by (simp add: b begin_shape_def)
  ultimately show "begin_shape b \<and> MarshalPrecomputeBegin b = Inr data" by blast
qed

text \<open>C36. The frame that opens a precomputation has one encoding: the decoder accepts exactly
  the frames of a supported count, a range of indices that does not wrap and a valid epoch.\<close>

theorem begin_frame_canonical:
  "begin_shape b \<and> MarshalPrecomputeBegin b = Inr data \<longleftrightarrow> UnmarshalPrecomputeBegin data = Inr b"
  by (rule begin_frame_iff)

lemma nested_frame_canonical:
  assumes "length session = 32" "length (ascii tag) = 4"
  shows "marshal_nested tag inner sz session msg = Inr data \<longleftrightarrow>
    unmarshal_nested tag inner sz data session = Inr msg"
proof
  assume "marshal_nested tag inner sz session msg = Inr data"
  then have m: "length msg = sz" "slice msg 0 4 = ascii inner" "slice msg 4 36 = session"
    "data = ascii tag @ session @ msg"
    by (auto simp: marshal_nested_def split: if_splits)
  have "slice data 0 4 = ascii tag" "slice data 4 36 = session" "drop 36 data = msg" "length data = 36 + sz"
    unfolding m(4) using assms m(1) by (simp_all add: slice_def)
  then show "unmarshal_nested tag inner sz data session = Inr msg"
    using m by (simp add: unmarshal_nested_def)
next
  assume "unmarshal_nested tag inner sz data session = Inr msg"
  then have m: "length data = 36 + sz" "slice data 0 4 = ascii tag" "slice data 4 36 = session"
    "msg = drop 36 data" "slice msg 0 4 = ascii inner" "slice msg 4 36 = session"
    by (auto simp: unmarshal_nested_def Let_def split: if_splits)
  have "ascii tag @ session @ msg = slice data 0 (length data)"
    using m(1) by (simp add: m(2,3) [symmetric] m(4) drop_slice slice_join del: slice_full)
  also have "\<dots> = data" by (rule slice_full)
  finally show "marshal_nested tag inner sz session msg = Inr data"
    using m by (simp add: marshal_nested_def)
qed

lemma cipher_size: "validateBaseCipherForTranscript cipher sid = Inr () \<Longrightarrow> length cipher = 4132"
  by (auto simp: validateBaseCipherForTranscript_def frame_sizes split: if_splits)

lemma commitment_data_size:
  assumes "UnmarshalExtensionCommitment data = Inr c"
  shows "\<exists>padded. extensionPaddedCount (int (unat (cCount c))) = Inr padded \<and>
    length data = extensionCommitmentHeaderSize + BaseOTCount * padded div 8"
    "slice data 0 4 = ascii ''KOC2''" "slice data 4 36 = cSessionID c"
    "be_get (slice data 36 44) = cStartIndex c" "be_get (slice data 44 48) = cCount c"
    "\<exists>e. checkedIndexEnd (cStartIndex c) (int (unat (cCount c))) = Inr e"
  using assms by (auto simp: UnmarshalExtensionCommitment_def Let_def split: if_splits)

lemma precompute_commitment_canonical:
  "commitment_shape c \<and> MarshalPrecomputeCommitment cipher (Some c) = Inr data \<longleftrightarrow>
   UnmarshalPrecomputeCommitment data = Inr (cipher, c)"
proof
  assume a: "commitment_shape c \<and> MarshalPrecomputeCommitment cipher (Some c) = Inr data"
  then obtain ext where v: "validateBaseCipherForTranscript cipher (cSessionID c) = Inr ()"
    and ext: "MarshalExtensionCommitment (Some c) = Inr ext"
    and data: "data = ascii ''KOF2'' @ be_put 4 (of_nat (length cipher) :: u32) @ cipher @ ext"
    by (auto simp: MarshalPrecomputeCommitment_def)
  have l: "length cipher = 4132" using v by (rule cipher_size)
  have "slice data 0 4 = ascii ''KOF2''" "slice data 4 8 = be_put 4 (4132 :: u32)"
    "slice data 8 (8 + 4132) = cipher" "drop (8 + 4132) data = ext" "8 + 4132 \<le> length data"
    unfolding data using l by (simp_all add: slice_def)
  moreover have "UnmarshalExtensionCommitment ext = Inr c"
    using a ext commitment_frame_canonical by blast
  moreover have "unat (4132 :: u32) = 4132" by simp
  ultimately show "UnmarshalPrecomputeCommitment data = Inr (cipher, c)"
    using v by (simp add: UnmarshalPrecomputeCommitment_def frame_sizes Let_def)
next
  assume "UnmarshalPrecomputeCommitment data = Inr (cipher, c)"
  then have n: "unat (be_get (slice data 4 8) :: u32) = 4132" and l: "8 + 4132 \<le> length data"
    and t: "slice data 0 4 = ascii ''KOF2''" and c: "UnmarshalExtensionCommitment (drop (8 + 4132) data) = Inr c"
    and v: "validateBaseCipherForTranscript cipher (cSessionID c) = Inr ()" and cipher: "cipher = slice data 8 (8 + 4132)"
    by (auto simp: UnmarshalPrecomputeCommitment_def frame_sizes Let_def split: if_splits)
  from c have ext: "commitment_shape c" "MarshalExtensionCommitment (Some c) = Inr (drop (8 + 4132) data)"
    using commitment_frame_canonical by blast+
  have "(be_get (slice data 4 8) :: u32) = of_nat 4132" using n by (metis of_nat_unat ucast_id)
  then have "be_put 4 (of_nat (length cipher) :: u32) = slice data 4 8"
    using l be_put_get_slice(2) [of 8 4 data] by (simp add: cipher)
  then have "ascii ''KOF2'' @ be_put 4 (of_nat (length cipher) :: u32) @ cipher @ drop (8 + 4132) data =
      slice data 0 (length data)"
    using l by (simp add: cipher t [symmetric] drop_slice slice_join del: slice_full)
  also have "\<dots> = data" by (rule slice_full)
  finally show "commitment_shape c \<and> MarshalPrecomputeCommitment cipher (Some c) = Inr data"
    using v ext by (simp add: MarshalPrecomputeCommitment_def)
qed

text \<open>The decoder of the pending batch checks nothing a decoded commitment does not satisfy
  anyway: the early checks only reject sooner.\<close>

lemma ValidatePrecomputeCount_iff:
  "ValidatePrecomputeCount (int n) = Inr () \<longleftrightarrow> 0 < n \<and> n \<le> MaxPrecomputeOTs"
  by (auto simp: ValidatePrecomputeCount_def)

lemma commitment_for_iff:
  "UnmarshalPrecomputeCommitmentFor data b = Inr (cipher, c) \<longleftrightarrow>
   UnmarshalPrecomputeCommitment data = Inr (cipher, c) \<and> cSessionID c = bSessionID b \<and>
   cStartIndex c = bStartIndex b \<and> cCount c = bCount b \<and> unat (bCount b) \<le> MaxPrecomputeOTs"
proof
  assume "UnmarshalPrecomputeCommitmentFor data b = Inr (cipher, c)"
  then have "ValidatePrecomputeCount (int (unat (bCount b))) = Inr ()"
    "UnmarshalPrecomputeCommitment data = Inr (cipher, c) \<and> cSessionID c = bSessionID b \<and>
      cStartIndex c = bStartIndex b \<and> cCount c = bCount b"
    by (auto simp: UnmarshalPrecomputeCommitmentFor_def Let_def split: if_splits)
  then show "UnmarshalPrecomputeCommitment data = Inr (cipher, c) \<and> cSessionID c = bSessionID b \<and>
   cStartIndex c = bStartIndex b \<and> cCount c = bCount b \<and> unat (bCount b) \<le> MaxPrecomputeOTs"
    unfolding ValidatePrecomputeCount_iff by blast
next
  assume a: "UnmarshalPrecomputeCommitment data = Inr (cipher, c) \<and> cSessionID c = bSessionID b \<and>
   cStartIndex c = bStartIndex b \<and> cCount c = bCount b \<and> unat (bCount b) \<le> MaxPrecomputeOTs"
  then have n: "unat (be_get (slice data 4 8) :: u32) = 4132" and l: "8 + 4132 \<le> length data"
    and t: "slice data 0 4 = ascii ''KOF2''" and c: "UnmarshalExtensionCommitment (drop (8 + 4132) data) = Inr c"
    by (auto simp: UnmarshalPrecomputeCommitment_def frame_sizes Let_def split: if_splits)
  note d = commitment_data_size [OF c]
  obtain padded where p: "extensionPaddedCount (int (unat (cCount c))) = Inr padded"
    "length (drop (8 + 4132) data) = extensionCommitmentHeaderSize + BaseOTCount * padded div 8"
    using d(1) by blast
  have sl: "slice (drop (8 + 4132) data) i j = slice data (4140 + i) (4140 + j)" for i j
    by (simp add: slice_def add.commute)
  obtain e where e: "checkedIndexEnd (cStartIndex c) (int (unat (cCount c))) = Inr e" using d(6) by blast
  have "0 < unat (cCount c)" using extensionPaddedCount_Inr(1) [OF p(1)] by linarith
  then have "ValidatePrecomputeCount (int (unat (cCount c))) = Inr ()"
    using a unfolding ValidatePrecomputeCount_iff by simp
  moreover have "length data = 8 + 4132 + extensionCommitmentHeaderSize + BaseOTCount * padded div 8"
    using p(2) l by simp
  ultimately show "UnmarshalPrecomputeCommitmentFor data b = Inr (cipher, c)"
    using a n t d(2-5) [unfolded sl] p(1) e
    by (simp add: UnmarshalPrecomputeCommitmentFor_def PrecomputeCommitmentWireSize_def
        baseCipherMessageSize_def Let_def)
qed

text \<open>C34. The decoder of a pending batch accepts exactly the encodings of the commitments to
  that batch: same session, start index and count, with a count the pools support.\<close>

theorem pending_commitment_exact:
  "UnmarshalPrecomputeCommitmentFor data b = Inr (cipher, c) \<longleftrightarrow>
   commitment_shape c \<and> MarshalPrecomputeCommitment cipher (Some c) = Inr data \<and> cSessionID c = bSessionID b \<and>
   cStartIndex c = bStartIndex b \<and> cCount c = bCount b \<and> unat (bCount b) \<le> MaxPrecomputeOTs"
  using commitment_for_iff [of data b cipher c] precompute_commitment_canonical [of c cipher data] by blast

end
