(* ===== verification/Base_Ot.thy ===== *)
theory Base_Ot
  imports Kos_Correct Precompute_Wire
begin

text \<open>
  The 128 base oblivious transfers of \<open>mpc/base_ot.go\<close>. The Chou-Orlandi transfer itself is
  the package \<open>markkurossi/mpc/ot\<close>: its four functions are the fields of the record
  \<open>co_api\<close>, an argument of every definition that calls them, and \<open>co_correct\<close> states the
  behaviour the code relies on. The compressed P-256 encodings of \<open>crypto/elliptic\<close> are
  definitions.
\<close>

section \<open>Compressed P-256 points\<close>

record ECPoint =
  PX :: int
  PY :: int

definition p256_p :: int where
  "p256_p = 0xffffffff00000001000000000000000000000000ffffffffffffffffffffffff"

definition p256_b :: int where
  "p256_b = 0x5ac635d8aa3a93e7b3ebbd55769886bc651d06b0cc53b0f63bce3c3e27d2604b"

definition p256_rhs :: "int \<Rightarrow> int" where
  "p256_rhs x = (x * x * x - 3 * x + p256_b) mod p256_p"

fun powmod :: "int \<Rightarrow> nat \<Rightarrow> int \<Rightarrow> int" where
  "powmod b e m =
     (if e = 0 then 1 mod m
      else let h = powmod (b * b mod m) (e div 2) m in if odd e then b * h mod m else h)"

declare powmod.simps [simp del]

definition bytes_to_int :: "bytes \<Rightarrow> int" where
  "bytes_to_int bs = foldl (\<lambda>acc b. 256 * acc + uint b) 0 bs"

definition int_to_bytes :: "nat \<Rightarrow> int \<Rightarrow> bytes" where
  "int_to_bytes n v = map (\<lambda>i. of_int (v div 256 ^ (n - 1 - i))) [0..<n]"

definition MarshalCompressed :: "ECPoint \<Rightarrow> bytes" where
  "MarshalCompressed pt = (if odd (PY pt) then 3 else 2) # int_to_bytes 32 (PX pt)"

definition UnmarshalCompressed :: "bytes \<Rightarrow> ECPoint option" where
  "UnmarshalCompressed data =
     (if length data \<noteq> compressedP256PointSize \<or> (data ! 0 \<noteq> 2 \<and> data ! 0 \<noteq> 3) then None
      else let x = bytes_to_int (drop 1 data) in
        if x \<ge> p256_p then None
        else let y = powmod (p256_rhs x) (nat ((p256_p + 1) div 4)) p256_p in
          if y * y mod p256_p \<noteq> p256_rhs x then None
          else Some \<lparr>PX = x, PY = (if odd y \<longleftrightarrow> data ! 0 = 3 then y else (- y) mod p256_p)\<rparr>)"

lemma length_MarshalCompressed [simp]: "length (MarshalCompressed pt) = 33"
  by (simp add: MarshalCompressed_def int_to_bytes_def)

section \<open>The transfer library\<close>

record ('s, 'b) co_api =
  GenerateCOSenderSetup :: "bytes \<Rightarrow> ('s \<times> bytes) option"
  setupPoint :: "'s \<Rightarrow> ECPoint"
  BuildCOChoices :: "bytes \<Rightarrow> ECPoint \<Rightarrow> bool list \<Rightarrow> ('b \<times> ECPoint list \<times> bytes) option"
  EncryptCOCiphertexts :: "'s \<Rightarrow> ECPoint list \<Rightarrow> (Label \<times> Label) list \<Rightarrow> (bytes \<times> bytes) list option"
  DecryptCOCiphertexts :: "'b \<Rightarrow> (bytes \<times> bytes) list \<Rightarrow> Label list option"

text \<open>
  A Chou-Orlandi transfer delivers, for each position, the label its choice bit names; a
  ciphertext is a pair of 16-byte blocks.
\<close>

definition co_correct :: "('s, 'b) co_api \<Rightarrow> bool" where
  "co_correct co \<longleftrightarrow>
     (\<forall>rng setup rest rng' cs bundle pts rest' ws.
        GenerateCOSenderSetup co rng = Some (setup, rest) \<and>
        BuildCOChoices co rng' (setupPoint co setup) cs = Some (bundle, pts, rest') \<and>
        length ws = length cs \<longrightarrow>
        length pts = length cs \<and>
        (\<exists>cts. EncryptCOCiphertexts co setup pts ws = Some cts \<and> length cts = length cs \<and>
           (\<forall>ct \<in> set cts. length (fst ct) = 16 \<and> length (snd ct) = 16) \<and>
           DecryptCOCiphertexts co bundle cts =
             Some (map2 (\<lambda>c w. if c then snd w else fst w) cs ws)))"

section \<open>States and messages\<close>

record 's BaseOTSenderState =
  bsSession :: bytes
  bsSetup :: "'s option"
  bsSeeds :: "BaseOTSeedPair list"
  bsUsed :: bool

record 'b BaseOTReceiverState =
  brSession :: bytes
  brBundle :: "'b option"
  brDelta :: Label
  brUsed :: bool

definition seed_pair_zero :: BaseOTSeedPair where
  "seed_pair_zero = \<lparr>SeedZero = label_zero, SeedOne = label_zero\<rparr>"

definition clearBaseOTSenderState :: "'s BaseOTSenderState \<Rightarrow> 's BaseOTSenderState" where
  "clearBaseOTSenderState s =
     s\<lparr>bsSession := replicate 32 0, bsSeeds := replicate BaseOTCount seed_pair_zero, bsSetup := None\<rparr>"

definition clearBaseOTReceiverState :: "'b BaseOTReceiverState \<Rightarrow> 'b BaseOTReceiverState" where
  "clearBaseOTReceiverState s = s\<lparr>brSession := replicate 32 0, brDelta := label_zero, brBundle := None\<rparr>"

definition base_sender_destroy :: "'s BaseOTSenderState \<Rightarrow> 's BaseOTSenderState" where
  "base_sender_destroy s = clearBaseOTSenderState (s\<lparr>bsUsed := True\<rparr>)"

definition base_receiver_destroy :: "'b BaseOTReceiverState \<Rightarrow> 'b BaseOTReceiverState" where
  "base_receiver_destroy s = clearBaseOTReceiverState (s\<lparr>brUsed := True\<rparr>)"

section \<open>Operations\<close>

text \<open>
  Writing a sequence into a fixed-size array of zero values: a longer sequence runs out of
  the array and panics, a shorter one leaves zeros behind.
\<close>

definition fill_array :: "nat \<Rightarrow> 'a \<Rightarrow> 'a list \<Rightarrow> mpc_error + 'a list" where
  "fill_array n z xs = (if length xs > n then Inl Panic else Inr (xs @ replicate (n - length xs) z))"

text \<open>The loop over \<open>state.seeds\<close>: \<open>n\<close> pairs are still to be read, the next at position \<open>i\<close>.\<close>

fun read_seeds :: "nat \<Rightarrow> nat \<Rightarrow> bytes \<Rightarrow> mpc_error + BaseOTSeedPair list \<times> bytes" where
  "read_seeds i 0 rng = Inr ([], rng)"
| "read_seeds i (Suc n) rng =
     bindE (readFull (Engine ShortRandomness) rng 32) (\<lambda>(seedBytes, rest).
       let pair = \<lparr>SeedZero = labelFromBytes (take 16 seedBytes), SeedOne = labelFromBytes (drop 16 seedBytes)\<rparr> in
       if SeedZero pair = SeedOne pair then Inl (Base (IdenticalSeeds i))
       else bindE (read_seeds (Suc i) n rest) (\<lambda>(ps, rest'). Inr (pair # ps, rest')))"

definition StartBaseOTSender ::
  "('s, 'b) co_api \<Rightarrow> bytes option \<Rightarrow> bytes \<Rightarrow> mpc_error + 's BaseOTSenderState \<times> bytes \<times> bytes" where
  "StartBaseOTSender co rng session =
     (case rng of
        None \<Rightarrow> Inl (Engine NilRandomness)
      | Some source \<Rightarrow>
          case GenerateCOSenderSetup co source of
            None \<Rightarrow> Inl (Base SetupFailed)
          | Some (setup, rest) \<Rightarrow>
              bindE (read_seeds 0 BaseOTCount rest) (\<lambda>(seeds, rest').
                Inr (\<lparr>bsSession = session, bsSetup = Some setup, bsSeeds = seeds, bsUsed = False\<rparr>,
                     ascii ''BOS1'' @ session @ MarshalCompressed (setupPoint co setup), rest')))"

definition StartBaseOTReceiver ::
  "('s, 'b) co_api \<Rightarrow> bytes option \<Rightarrow> bytes \<Rightarrow> bytes \<Rightarrow>
    mpc_error + 'b BaseOTReceiverState \<times> bytes \<times> bytes" where
  "StartBaseOTReceiver co rng session setupMessage =
     (case rng of
        None \<Rightarrow> Inl (Engine NilRandomness)
      | Some source \<Rightarrow>
          if length setupMessage \<noteq> baseSetupMessageSize \<or> slice setupMessage 0 4 \<noteq> ascii ''BOS1''
          then Inl (Base InvalidMessage)
          else if slice setupMessage 4 36 \<noteq> session then Inl (Base MessageSession)
          else case UnmarshalCompressed (drop 36 setupMessage) of
            None \<Rightarrow> Inl (Base InvalidPoint)
          | Some a \<Rightarrow>
              bindE (readFull (Engine ShortRandomness) source 16) (\<lambda>(deltaBytes, rest).
              let d = labelFromBytes deltaBytes in
              if d = label_zero then Inl (Extension ZeroDelta)
              else case BuildCOChoices co rest a (map (deltaBit d) [0..<BaseOTCount]) of
                None \<Rightarrow> Inl (Base SetupFailed)
              | Some (bundle, points, rest') \<Rightarrow>
                  bindE (fill_array (BaseOTCount * compressedP256PointSize) 0
                           (concat (map MarshalCompressed points))) (\<lambda>body.
                  Inr (\<lparr>brSession = session, brBundle = Some bundle, brDelta = d, brUsed = False\<rparr>,
                       ascii ''BOC1'' @ session @ body, rest'))))"

text \<open>The loop that decodes the choice points at offsets 36, 69, ...\<close>

fun decode_points :: "bytes \<Rightarrow> nat \<Rightarrow> nat \<Rightarrow> mpc_error + ECPoint list" where
  "decode_points msg off 0 = Inr []"
| "decode_points msg off (Suc n) =
     (case UnmarshalCompressed (slice msg off (off + compressedP256PointSize)) of
        None \<Rightarrow> Inl (Base InvalidPoint)
      | Some pt \<Rightarrow> bindE (decode_points msg (off + compressedP256PointSize) n) (\<lambda>pts. Inr (pt # pts)))"

definition FinishBaseOTSender ::
  "('s, 'b) co_api \<Rightarrow> 's BaseOTSenderState option \<Rightarrow> bytes \<Rightarrow>
    's BaseOTSenderState option \<times> (mpc_error + bytes \<times> BaseOTSeedPair list)" where
  "FinishBaseOTSender co so choiceMessage =
     (case so of
        None \<Rightarrow> (None, Inl (Extension NilState))
      | Some s \<Rightarrow>
          if bsUsed s then (Some s, Inl (Extension StateAlreadyUsed))
          else (Some (clearBaseOTSenderState (s\<lparr>bsUsed := True\<rparr>)),
            if length choiceMessage \<noteq> baseChoiceMessageSize \<or> slice choiceMessage 0 4 \<noteq> ascii ''BOC1''
            then Inl (Base InvalidMessage)
            else if slice choiceMessage 4 36 \<noteq> bsSession s then Inl (Base MessageSession)
            else bindE (decode_points choiceMessage 36 BaseOTCount) (\<lambda>points.
              case bsSetup s of
                None \<Rightarrow> Inl Panic
              | Some setup \<Rightarrow>
                  case EncryptCOCiphertexts co setup points (map (\<lambda>pr. (SeedZero pr, SeedOne pr)) (bsSeeds s)) of
                    None \<Rightarrow> Inl (Base CipherFailed)
                  | Some cts \<Rightarrow>
                      bindE (fill_array (BaseOTCount * 32) 0 (concat (map (\<lambda>(z, e). z @ e) cts))) (\<lambda>body.
                      Inr (ascii ''BOT1'' @ bsSession s @ body, bsSeeds s)))))"

fun decode_ciphertexts :: "bytes \<Rightarrow> nat \<Rightarrow> nat \<Rightarrow> (bytes \<times> bytes) list" where
  "decode_ciphertexts msg off 0 = []"
| "decode_ciphertexts msg off (Suc n) =
     (slice msg off (off + 16), slice msg (off + 16) (off + 32)) # decode_ciphertexts msg (off + 32) n"

definition FinishBaseOTReceiver ::
  "('s, 'b) co_api \<Rightarrow> 'b BaseOTReceiverState option \<Rightarrow> bytes \<Rightarrow>
    'b BaseOTReceiverState option \<times> (mpc_error + Label list \<times> Label)" where
  "FinishBaseOTReceiver co so cipherMessage =
     (case so of
        None \<Rightarrow> (None, Inl (Extension NilState))
      | Some s \<Rightarrow>
          if brUsed s then (Some s, Inl (Extension StateAlreadyUsed))
          else (Some (clearBaseOTReceiverState (s\<lparr>brUsed := True\<rparr>)),
            if length cipherMessage \<noteq> baseCipherMessageSize \<or> slice cipherMessage 0 4 \<noteq> ascii ''BOT1''
            then Inl (Base InvalidMessage)
            else if slice cipherMessage 4 36 \<noteq> brSession s then Inl (Base MessageSession)
            else case brBundle s of
              None \<Rightarrow> Inl Panic
            | Some bundle \<Rightarrow>
                case DecryptCOCiphertexts co bundle (decode_ciphertexts cipherMessage 36 BaseOTCount) of
                  None \<Rightarrow> Inl (Base CipherFailed)
                | Some ls \<Rightarrow> bindE (fill_array BaseOTCount label_zero ls) (\<lambda>selected. Inr (selected, brDelta s))))"

section \<open>Correctness\<close>

lemma read_seeds_length: "read_seeds i n rng = Inr (ps, rest) \<Longrightarrow> length ps = n"
proof (induction n arbitrary: i rng ps)
  case (Suc n)
  then obtain rng' ps' pair where "read_seeds (Suc i) n rng' = Inr (ps', rest)" "ps = pair # ps'"
    by (auto simp: Let_def split: if_splits)
  with Suc.IH show ?case by auto
qed simp

lemma read_seeds_distinct:
  "read_seeds i n rng = Inr (ps, rest) \<Longrightarrow> p \<in> set ps \<Longrightarrow> SeedZero p \<noteq> SeedOne p"
proof (induction n arbitrary: i rng ps)
  case (Suc n)
  then obtain rng' ps' pair where "read_seeds (Suc i) n rng' = Inr (ps', rest)" "ps = pair # ps'"
    "SeedZero pair \<noteq> SeedOne pair"
    by (auto simp: Let_def split: if_splits)
  with Suc show ?case by auto
qed simp

definition encodable :: "ECPoint \<Rightarrow> bool" where
  "encodable pt \<longleftrightarrow> UnmarshalCompressed (MarshalCompressed pt) = Some pt"

lemma decode_points_encode:
  "\<forall>pt \<in> set pts. encodable pt \<Longrightarrow>
    decode_points (pre @ concat (map MarshalCompressed pts)) (length pre) (length pts) = Inr pts"
proof (induction pts arbitrary: pre)
  case (Cons pt pts)
  have "slice (pre @ MarshalCompressed pt @ concat (map MarshalCompressed pts)) (length pre) (length pre + 33) =
      MarshalCompressed pt"
    by (simp add: slice_def)
  with Cons.prems Cons.IH [of "pre @ MarshalCompressed pt"] show ?case
    by (simp add: encodable_def compressedP256PointSize_def)
qed simp

lemma decode_ciphertexts_encode:
  "\<forall>ct \<in> set cts. length (fst ct) = 16 \<and> length (snd ct) = 16 \<Longrightarrow>
    decode_ciphertexts (pre @ concat (map (\<lambda>(z, e). z @ e) cts)) (length pre) (length cts) = cts"
proof (induction cts arbitrary: pre)
  case (Cons ct cts)
  obtain z e where ct: "ct = (z, e)" "length z = 16" "length e = 16" using Cons.prems by (cases ct) auto
  have "slice (pre @ z @ e @ concat (map (\<lambda>(z, e). z @ e) cts)) (length pre) (length pre + 16) = z"
    "slice (pre @ z @ e @ concat (map (\<lambda>(z, e). z @ e) cts)) (length pre + 16) (length pre + 32) = e"
    using ct by (simp_all add: slice_def)
  moreover have "decode_ciphertexts ((pre @ z @ e) @ concat (map (\<lambda>(z, e). z @ e) cts)) (length (pre @ z @ e)) (length cts) = cts"
    using Cons.prems by (intro Cons.IH) simp
  then have "decode_ciphertexts (pre @ z @ e @ concat (map (\<lambda>(z, e). z @ e) cts)) (length pre + 32) (length cts) = cts"
    using ct by simp
  ultimately show ?case by (simp add: ct(1))
qed simp

lemma fill_array_exact: "length xs = n \<Longrightarrow> fill_array n z xs = Inr xs"
  by (simp add: fill_array_def)

text \<open>Both parties' steps of the base transfers, in protocol order.\<close>

definition base_ot_run ::
  "('s, 'b) co_api \<Rightarrow> bytes \<Rightarrow> bytes \<Rightarrow> bytes \<Rightarrow>
    mpc_error + bytes \<times> BaseOTSeedPair list \<times> Label list \<times> Label" where
  "base_ot_run co rngS rngR session =
     bindE (StartBaseOTSender co (Some rngS) session) (\<lambda>(ss, setupMessage, _).
     bindE (StartBaseOTReceiver co (Some rngR) session setupMessage) (\<lambda>(rs, choiceMessage, _).
     bindE (snd (FinishBaseOTSender co (Some ss) choiceMessage)) (\<lambda>(cipherMessage, seeds).
     bindE (snd (FinishBaseOTReceiver co (Some rs) cipherMessage)) (\<lambda>(selected, d).
     Inr (cipherMessage, seeds, selected, d)))))"

definition base_ready :: "('s, 'b) co_api \<Rightarrow> bytes \<Rightarrow> bytes \<Rightarrow> bytes \<Rightarrow> bool" where
  "base_ready co rngS rngR session \<longleftrightarrow>
     length session = 32 \<and> 16 \<le> length rngR \<and> labelFromBytes (take 16 rngR) \<noteq> label_zero \<and>
     (case GenerateCOSenderSetup co rngS of
        None \<Rightarrow> False
      | Some (setup, rest) \<Rightarrow>
          encodable (setupPoint co setup) \<and>
          (case read_seeds 0 BaseOTCount rest of Inl _ \<Rightarrow> False | Inr _ \<Rightarrow> True) \<and>
          (case BuildCOChoices co (drop 16 rngR) (setupPoint co setup)
                  (map (deltaBit (labelFromBytes (take 16 rngR))) [0..<BaseOTCount]) of
             None \<Rightarrow> False
           | Some (bundle, pts, _) \<Rightarrow> \<forall>pt \<in> set pts. encodable pt))"

lemma base_ot_run_correct:
  assumes co: "co_correct co" and ready: "base_ready co rngS rngR session"
  shows "\<exists>cipherMessage seeds selected d. base_ot_run co rngS rngR session = Inr (cipherMessage, seeds, selected, d) \<and>
    d \<noteq> label_zero \<and> length seeds = BaseOTCount \<and> selects d seeds selected \<and>
    (\<forall>p \<in> set seeds. SeedZero p \<noteq> SeedOne p) \<and>
    validateBaseCipherForTranscript cipherMessage session = Inr ()"
proof -
  define d where "d = labelFromBytes (take 16 rngR)"
  obtain stp rest where gen: "GenerateCOSenderSetup co rngS = Some (stp, rest)" "encodable (setupPoint co stp)"
    using ready by (auto simp: base_ready_def split: option.splits)
  obtain seeds rest2 where seeds: "read_seeds 0 BaseOTCount rest = Inr (seeds, rest2)"
    using ready gen by (auto simp: base_ready_def split: sum.splits)
  define choices where "choices = map (deltaBit d) [0..<BaseOTCount]"
  obtain bndl pts rest3 where build: "BuildCOChoices co (drop 16 rngR) (setupPoint co stp) choices = Some (bndl, pts, rest3)"
    and enc: "\<forall>pt \<in> set pts. encodable pt"
    using ready gen by (auto simp: base_ready_def choices_def d_def split: option.splits)
  define ws where "ws = map (\<lambda>pr. (SeedZero pr, SeedOne pr)) seeds"
  have len: "length seeds = 128" "length ws = length choices" "length choices = 128"
    using read_seeds_length [OF seeds] by (simp_all add: ws_def choices_def)
  obtain cts where pts: "length pts = 128" and cts: "EncryptCOCiphertexts co stp pts ws = Some cts" "length cts = 128"
    "\<forall>ct \<in> set cts. length (fst ct) = 16 \<and> length (snd ct) = 16"
    and dec: "DecryptCOCiphertexts co bndl cts = Some (map2 (\<lambda>c w. if c then snd w else fst w) choices ws)"
    using co [unfolded co_correct_def, rule_format, of rngS stp rest "drop 16 rngR" choices bndl pts rest3 ws]
      gen(1) build len(2,3) by auto
  have ready': "length session = 32" "16 \<le> length rngR" "d \<noteq> label_zero"
    using ready by (simp_all add: base_ready_def d_def)
  have body: "length (concat (map (\<lambda>(z, e). z @ e) cts)) = 128 * 32"
  proof -
    have "map length (map (\<lambda>(z, e). z @ e) cts) = replicate (length cts) 32"
      using cts(3) by (intro replicate_eqI) auto
    then show ?thesis using cts(2) unfolding length_concat by (simp add: sum_list_replicate)
  qed
  have pbody: "length (concat (map MarshalCompressed pts)) = 128 * 33"
    using pts by (simp add: length_concat comp_def sum_list_triv)
  let ?setupMsg = "ascii ''BOS1'' @ session @ MarshalCompressed (setupPoint co stp)"
  let ?choiceMsg = "ascii ''BOC1'' @ session @ concat (map MarshalCompressed pts)"
  let ?cipherMsg = "ascii ''BOT1'' @ session @ concat (map (\<lambda>(z, e). z @ e) cts)"
  have r1: "StartBaseOTReceiver co (Some rngR) session ?setupMsg =
      Inr (\<lparr>brSession = session, brBundle = Some bndl, brDelta = d, brUsed = False\<rparr>, ?choiceMsg, rest3)"
    using ready' build gen(2) pbody
    by (simp add: StartBaseOTReceiver_def frame_sizes slice_def encodable_def readFull_def d_def choices_def
        fill_array_exact)
  have "decode_points ?choiceMsg 36 128 = Inr pts"
    using decode_points_encode [OF enc, of "ascii ''BOC1'' @ session"] ready'(1) pts by simp
  then have s2: "snd (FinishBaseOTSender co (Some \<lparr>bsSession = session, bsSetup = Some stp, bsSeeds = seeds, bsUsed = False\<rparr>) ?choiceMsg) =
      Inr (?cipherMsg, seeds)"
    using ready' pbody cts(1) body
    by (simp add: FinishBaseOTSender_def frame_sizes slice_def ws_def fill_array_exact)
  have "decode_ciphertexts ?cipherMsg 36 128 = cts"
    using decode_ciphertexts_encode [OF cts(3), of "ascii ''BOT1'' @ session"] ready'(1) cts(2) by simp
  then have r2: "snd (FinishBaseOTReceiver co (Some \<lparr>brSession = session, brBundle = Some bndl, brDelta = d, brUsed = False\<rparr>) ?cipherMsg) =
      Inr (map2 (\<lambda>c w. if c then snd w else fst w) choices ws, d)"
    using ready' body dec len
    by (simp add: FinishBaseOTReceiver_def frame_sizes slice_def fill_array_exact)
  have "base_ot_run co rngS rngR session =
      Inr (?cipherMsg, seeds, map2 (\<lambda>c w. if c then snd w else fst w) choices ws, d)"
    unfolding base_ot_run_def using gen(1) seeds r1 s2 r2 by (simp add: StartBaseOTSender_def)
  moreover have "selects d seeds (map2 (\<lambda>c w. if c then snd w else fst w) choices ws)"
    using len by (simp add: selects_def choices_def ws_def)
  moreover have "validateBaseCipherForTranscript ?cipherMsg session = Inr ()"
    using ready' body by (simp add: validateBaseCipherForTranscript_def frame_sizes slice_def)
  moreover have "\<forall>p \<in> set seeds. SeedZero p \<noteq> SeedOne p"
    using read_seeds_distinct [OF seeds] by blast
  ultimately show ?thesis using ready'(3) len(1) by auto
qed

section \<open>A concrete transfer\<close>

text \<open>
  A transfer library that puts one fixed curve point on the wire and sends both labels in
  the clear satisfies the contract; its point has y = 1, so its compressed form decodes.
\<close>

definition sample_point :: ECPoint where
  "sample_point = \<lparr>PX = 0x9e78d4ef60d05f750f6636209092bc43cbdd6b47e11a9de20a9feb2a50bb96c, PY = 1\<rparr>"

definition clear_api :: "(unit, bool list) co_api" where
  "clear_api =
     \<lparr>GenerateCOSenderSetup = (\<lambda>rng. Some ((), rng)),
      setupPoint = (\<lambda>_. sample_point),
      BuildCOChoices = (\<lambda>rng _ cs. Some (cs, map (\<lambda>_. sample_point) cs, rng)),
      EncryptCOCiphertexts = (\<lambda>_ _ ws. Some (map (\<lambda>(a, b). (label_put a, label_put b)) ws)),
      DecryptCOCiphertexts = (\<lambda>cs cts. Some (map2 (\<lambda>c (z, e). labelFromBytes (if c then e else z)) cs cts))\<rparr>"

lemma clear_api_correct: "co_correct clear_api"
proof -
  have "map2 (\<lambda>c (z, e). labelFromBytes (if c then e else z)) cs (map (\<lambda>(a, b). (label_put a, label_put b)) ws) =
      map2 (\<lambda>c w. if c then snd w else fst w) cs ws" if "length ws = length cs" for cs and ws :: "(Label \<times> Label) list"
    using that by (intro nth_equalityI) (auto split: prod.splits)
  then show ?thesis by (auto simp: co_correct_def clear_api_def)
qed

lemma powmod_one: "1 < m \<Longrightarrow> powmod 1 e m = 1"
proof (induction e rule: less_induct)
  case (less e)
  then show ?case by (subst powmod.simps) (simp add: Let_def)
qed

lemma int_to_bytes_Suc: "int_to_bytes (Suc n) v = int_to_bytes n (v div 256) @ [of_int v]"
proof -
  have "v div 256 ^ (n - i) = v div 256 div 256 ^ (n - 1 - i)" if "i < n" for i
    using that by (simp add: zdiv_zmult2_eq [symmetric] flip: power_Suc) (metis Suc_diff_Suc diff_Suc_eq_diff_pred)
  then show ?thesis by (simp add: int_to_bytes_def)
qed

lemma bytes_to_int_roundtrip: "0 \<le> v \<Longrightarrow> v < 256 ^ n \<Longrightarrow> bytes_to_int (int_to_bytes n v) = v"
proof (induction n arbitrary: v)
  case (Suc n)
  then have "bytes_to_int (int_to_bytes n (v div 256)) = v div 256"
    by (intro Suc.IH) (simp_all add: pos_imp_zdiv_nonneg_iff div_less_iff_less_mult mult.commute)
  moreover have "uint (of_int v :: u8) = v mod 256" by (simp add: uint_word_of_int_eq take_bit_eq_mod)
  ultimately show ?case by (simp add: int_to_bytes_Suc bytes_to_int_def)
qed (simp add: bytes_to_int_def int_to_bytes_def)

lemma sample_curve:
  "PX sample_point * PX sample_point * PX sample_point - 3 * PX sample_point + p256_b =
    0x3cb9f6aa0c5d082197ebc2632caa770ccddb6872b3252623fe39a756a8d899275f00551d3fd8da693f1d30f4cbe25901897bae7e4a0589f46c697dfe2633a
      * p256_p + 1"
  by code_simp

lemma sample_point_encodable: "encodable sample_point"
proof -
  have "bytes_to_int (int_to_bytes 32 (PX sample_point)) = PX sample_point"
    by (rule bytes_to_int_roundtrip) (simp_all add: sample_point_def)
  moreover have "p256_rhs (PX sample_point) = 1"
    unfolding p256_rhs_def sample_curve mod_mult_self3 by (simp add: p256_p_def)
  moreover have "PX sample_point < p256_p" "1 < p256_p" by (simp_all add: sample_point_def p256_p_def)
  ultimately show ?thesis
    by (simp add: encodable_def UnmarshalCompressed_def MarshalCompressed_def compressedP256PointSize_def
        powmod_one Let_def) (simp add: int_to_bytes_def sample_point_def)
qed

definition sample_seed_bytes :: bytes where
  "sample_seed_bytes = replicate 31 0 @ [1]"

definition sample_rng_seeds :: bytes where
  "sample_rng_seeds = concat (replicate 128 sample_seed_bytes)"

definition sample_rng_delta :: bytes where
  "sample_rng_delta = replicate 16 1"

lemma sample_seeds_differ:
  "labelFromBytes (take 16 sample_seed_bytes) \<noteq> labelFromBytes (drop 16 sample_seed_bytes)"
  by (simp add: sample_seed_bytes_def labelFromBytes_def slice_def be_get_def numeral_eq_Suc)

lemma read_sample_seeds:
  "\<exists>ps. read_seeds i n (concat (replicate n sample_seed_bytes)) = Inr (ps, [])"
proof (induction n arbitrary: i)
  case (Suc n)
  obtain ps where ps: "read_seeds (Suc i) n (concat (replicate n sample_seed_bytes)) = Inr (ps, [])"
    using Suc by blast
  have "readFull (Engine ShortRandomness) (concat (replicate (Suc n) sample_seed_bytes)) 32 =
      Inr (sample_seed_bytes, concat (replicate n sample_seed_bytes))"
    by (simp add: readFull_def sample_seed_bytes_def)
  then show ?case using ps sample_seeds_differ by simp
qed simp

lemma sample_base_ready: "length sid = 32 \<Longrightarrow> base_ready clear_api sample_rng_seeds sample_rng_delta sid"
proof -
  assume sid: "length sid = 32"
  obtain ps where "read_seeds 0 128 sample_rng_seeds = Inr (ps, [])"
    using read_sample_seeds [of 0 128] by (auto simp: sample_rng_seeds_def)
  moreover have "labelFromBytes sample_rng_delta \<noteq> label_zero"
    by code_simp
  ultimately show ?thesis
    using sid sample_point_encodable
    by (auto simp: base_ready_def clear_api_def sample_rng_delta_def)
qed

section \<open>Properties\<close>

text \<open>C24. Base transfers deliver: when the transfer library keeps its contract, an honest run
  of the four steps succeeds, the receiver's correlation is not zero, it holds exactly the
  seeds its correlation selects, the two seeds of every pair differ, and the ciphertext
  message is the one the extension transcript accepts for this session.\<close>

theorem base_ot_delivers:
  assumes co: "co_correct co" and ready: "base_ready co rngS rngR session"
  shows "\<exists>cipherMessage seeds selected d. base_ot_run co rngS rngR session = Inr (cipherMessage, seeds, selected, d) \<and>
    d \<noteq> label_zero \<and> length seeds = BaseOTCount \<and> selects d seeds selected \<and>
    (\<forall>p \<in> set seeds. SeedZero p \<noteq> SeedOne p) \<and>
    validateBaseCipherForTranscript cipherMessage session = Inr ()"
  using base_ot_run_correct [OF co ready] .

theorem base_ot_delivers_witness:
  "co_correct clear_api \<and> base_ready clear_api sample_rng_seeds sample_rng_delta sample_sid \<and>
   (\<exists>cipherMessage seeds selected d.
      base_ot_run clear_api sample_rng_seeds sample_rng_delta sample_sid = Inr (cipherMessage, seeds, selected, d) \<and>
      selects d seeds selected)"
proof -
  have "length sample_sid = 32" by (simp add: sample_sid_def)
  note ready = sample_base_ready [OF this]
  show ?thesis using base_ot_delivers [OF clear_api_correct ready] clear_api_correct ready by blast
qed

text \<open>C32. Base-transfer states are single-use: after a finish, successful or not, the session
  identifier, the seeds and the correlation are zero, the library's secret state is dropped, the
  state is marked used, and every later finish on it fails.\<close>

theorem base_states_single_use:
  "snd (FinishBaseOTSender co (fst (FinishBaseOTSender co (Some ss) m)) m') = Inl (Extension StateAlreadyUsed) \<and>
   snd (FinishBaseOTReceiver co (fst (FinishBaseOTReceiver co (Some rs) m)) m') = Inl (Extension StateAlreadyUsed) \<and>
   (\<not> bsUsed ss \<longrightarrow> (\<exists>ss'. fst (FinishBaseOTSender co (Some ss) m) = Some ss' \<and> bsUsed ss' \<and> bsSetup ss' = None \<and>
      bsSession ss' = replicate 32 0 \<and> bsSeeds ss' = replicate 128 \<lparr>SeedZero = label_zero, SeedOne = label_zero\<rparr>)) \<and>
   (\<not> brUsed rs \<longrightarrow> (\<exists>rs'. fst (FinishBaseOTReceiver co (Some rs) m) = Some rs' \<and> brUsed rs' \<and> brBundle rs' = None \<and>
      brSession rs' = replicate 32 0 \<and> brDelta rs' = label_zero))"
  by (simp add: FinishBaseOTSender_def FinishBaseOTReceiver_def clearBaseOTSenderState_def
      clearBaseOTReceiverState_def seed_pair_zero_def)

theorem base_states_single_use_witness:
  "\<exists>(ss :: unit BaseOTSenderState) (rs :: bool list BaseOTReceiverState) ss' rs'.
     \<not> bsUsed ss \<and> bsSetup ss = Some () \<and> bsSession ss = replicate 32 7 \<and> \<not> brUsed rs \<and> brDelta rs \<noteq> label_zero \<and>
     fst (FinishBaseOTSender clear_api (Some ss) []) = Some ss' \<and> bsSetup ss' = None \<and> bsSession ss' = replicate 32 0 \<and>
     fst (FinishBaseOTReceiver clear_api (Some rs) []) = Some rs' \<and> brBundle rs' = None \<and> brDelta rs' = label_zero"
proof -
  let ?ss = "\<lparr>bsSession = replicate 32 7, bsSetup = Some (), bsSeeds = [], bsUsed = False\<rparr> :: unit BaseOTSenderState"
  let ?rs = "\<lparr>brSession = replicate 32 7, brBundle = Some [True], brDelta = \<lparr>D0 = 1, D1 = 0\<rparr>, brUsed = False\<rparr>"
  have "\<lparr>D0 = 1, D1 = 0\<rparr> \<noteq> label_zero" by (simp add: label_zero_def)
  moreover obtain ss' rs' where
    "fst (FinishBaseOTSender clear_api (Some ?ss) []) = Some ss'" "bsSetup ss' = None" "bsSession ss' = replicate 32 0"
    "fst (FinishBaseOTReceiver clear_api (Some ?rs) []) = Some rs'" "brBundle rs' = None" "brDelta rs' = label_zero"
    using base_states_single_use [of clear_api ?ss "[]" "[]" ?rs] by auto
  ultimately show ?thesis
    by - (rule exI [of _ ?ss], rule exI [of _ ?rs], rule exI [of _ ss'], rule exI [of _ rs'], simp)
qed

end
