(* ===== verification/Online_Properties.thy ===== *)
theory Online_Properties
  imports Oprf_Online
begin

text \<open>
  Properties of the circuit engine and of the online phase, stated against the meaning of
  the compiled circuit itself, with a concrete circuit on which they apply.
\<close>

section \<open>The meaning of a compiled circuit\<close>

fun mark_bit :: "mark_op \<Rightarrow> bool \<Rightarrow> bool \<Rightarrow> bool" where
  "mark_bit MXOR x y = (x \<noteq> y)"
| "mark_bit MXNOR x y = (x = y)"
| "mark_bit MAND x y = (x \<and> y)"
| "mark_bit MINV x y = (\<not> x)"
| "mark_bit (MOther _) x y = False"

definition mark_eval :: "mark_circuit \<Rightarrow> bool list \<Rightarrow> bool list" where
  "mark_eval c inputs =
     fold (\<lambda>g v. v[unat (Output g) := mark_bit (Op g) (v ! unat (Input0 g)) (v ! unat (Input1 g))])
       (cGates c) (inputs @ replicate (cNumWires c - length inputs) False)"

definition mark_output :: "mark_circuit \<Rightarrow> bool list \<Rightarrow> bool list" where
  "mark_output c inputs = drop (cNumWires c - OutputBits) (mark_eval c inputs)"

lemma newGates_fold:
  "newGates i srcs tc = Inr (gs, tc') \<Longrightarrow>
    fold plain_gate gs v =
    fold (\<lambda>g v. v[unat (Output g) := mark_bit (Op g) (v ! unat (Input0 g)) (v ! unat (Input1 g))]) srcs v"
proof (induction srcs arbitrary: i tc gs v)
  case (Cons src srcs)
  then obtain g gs' tc1 where g: "newGate i src tc = Inr (g, tc1)" "newGates (Suc i) srcs tc1 = Inr (gs', tc')"
    "gs = g # gs'" by auto
  have "plain_gate g v = v[unat (Output src) := mark_bit (Op src) (v ! unat (Input0 src)) (v ! unat (Input1 src))]"
    using g(1) by (cases "Op src") (auto simp: newGate_def plain_gate_def)
  then show ?case using Cons.IH [OF g(2)] g(3) by simp
qed simp

lemma newEngine_meaning:
  assumes "newEngine (Some c) = Inr e"
  shows "plain_eval e inputs = mark_eval c inputs" "circuit_output e inputs = mark_output c inputs"
    "numWires e = cNumWires c"
proof -
  from assms obtain gs tc where gs: "newGates 0 (cGates c) 0 = Inr (gs, tc)"
    and e: "e = \<lparr>gates = gs, numWires = cNumWires c, tableCount = tc\<rparr>"
    by (auto simp: newEngine_def split: if_splits)
  show p: "plain_eval e inputs = mark_eval c inputs"
    using newGates_fold [OF gs] by (simp add: plain_eval_def mark_eval_def e)
  show "numWires e = cNumWires c" by (simp add: e)
  with p show "circuit_output e inputs = mark_output c inputs"
    by (simp add: circuit_output_def mark_output_def)
qed

lemma length_mark_eval: "length inputs \<le> cNumWires c \<Longrightarrow> length (mark_eval c inputs) = cNumWires c"
proof -
  have "length (fold (\<lambda>g v. v[unat (Output g) := mark_bit (Op g) (v ! unat (Input0 g)) (v ! unat (Input1 g))]) gs v) =
      length v" for gs :: "mark_gate list" and v
    by (induction gs arbitrary: v) simp_all
  then show "length inputs \<le> cNumWires c \<Longrightarrow> length (mark_eval c inputs) = cNumWires c"
    by (simp add: mark_eval_def)
qed

section \<open>A concrete circuit\<close>

definition sample_gate :: "nat \<Rightarrow> mark_gate" where
  "sample_gate i = \<lparr>Input0 = of_nat i, Input1 = of_nat (640 + i), Output = of_nat (1280 + i),
     Op = [MXOR, MAND, MXNOR, MINV] ! (i mod 4)\<rparr>"

definition sample_circuit :: mark_circuit where
  "sample_circuit = \<lparr>cGates = map sample_gate [0..<128], cNumWires = 1408, cNumParties = 2,
     cInputsSize = 1280, cOutputsSize = 128\<rparr>"

lemma sample_gate_wires:
  "i < 128 \<Longrightarrow> unat (Input0 (sample_gate i)) = i" "i < 128 \<Longrightarrow> unat (Input1 (sample_gate i)) = 640 + i"
  "i < 128 \<Longrightarrow> unat (Output (sample_gate i)) = 1280 + i"
  by (simp_all add: sample_gate_def unat_of_nat del: of_nat_add)

lemma mark_topo_inputs_only:
  assumes "\<forall>g \<in> set gs. mark_inputs g \<subseteq> D \<and> 2 * InputBits \<le> unat (Output g) \<and> unat (Output g) < n"
  shows "mark_topo n D gs"
  using assms
proof (induction gs arbitrary: D)
  case (Cons g gs)
  then have "mark_topo n (insert (unat (Output g)) D) gs" by (intro Cons.IH) auto
  with Cons.prems show ?case by simp
qed simp

lemma sample_circuit_wf: "wf_compiled sample_circuit"
proof -
  have "mark_topo 1408 {..<2 * InputBits} (map sample_gate [0..<128])"
    by (rule mark_topo_inputs_only) (auto simp: mark_inputs_def sample_gate_wires)
  moreover have "{1408 - OutputBits..<1408} \<subseteq> (\<lambda>g. unat (Output g)) ` set (map sample_gate [0..<128])"
  proof
    fix w assume "w \<in> {1408 - OutputBits..<1408 :: nat}"
    then have "w - 1280 < 128" "w = 1280 + (w - 1280)" by auto
    then show "w \<in> (\<lambda>g. unat (Output g)) ` set (map sample_gate [0..<128])"
      using sample_gate_wires(3) [of "w - 1280"] by (auto simp: image_image intro!: rev_image_eqI)
  qed
  ultimately show ?thesis by (simp add: wf_compiled_def sample_circuit_def)
qed

lemma newGates_ok: "\<forall>g \<in> set gs. Op g \<in> {MXOR, MXNOR, MAND, MINV} \<Longrightarrow> \<exists>r. newGates i gs tc = Inr r"
proof (induction gs arbitrary: i tc)
  case (Cons g gs)
  obtain g' tc' where g: "newGate i g tc = Inr (g', tc')"
    using Cons.prems by (auto simp: newGate_def)
  obtain gs' tc'' where "newGates (Suc i) gs tc' = Inr (gs', tc'')"
    using Cons.IH [of "Suc i" tc'] Cons.prems by auto
  with g show ?case by simp
qed simp

lemma sample_engine: "\<exists>e. newEngine (Some sample_circuit) = Inr e"
proof -
  have "Op (sample_gate i) \<in> {MXOR, MXNOR, MAND, MINV}" for i
  proof -
    have "i mod 4 = 0 \<or> i mod 4 = 1 \<or> i mod 4 = 2 \<or> i mod 4 = 3" by linarith
    then show ?thesis by (elim disjE) (simp_all add: sample_gate_def)
  qed
  then have "\<forall>g \<in> set (map sample_gate [0..<128]). Op g \<in> {MXOR, MXNOR, MAND, MINV}" by auto
  then obtain gs tc where "newGates 0 (map sample_gate [0..<128]) 0 = Inr (gs, tc)"
    using newGates_ok by (metis surj_pair)
  then show ?thesis by (simp add: newEngine_def sample_circuit_def)
qed

definition sample_sender_ots :: "SenderOT list" where
  "sample_sender_ots = map (\<lambda>i. \<lparr>R0 = \<lparr>D0 = of_nat i, D1 = 1\<rparr>, R1 = \<lparr>D0 = of_nat i, D1 = 2\<rparr>,
     sIndex = of_nat i\<rparr>) [0..<640]"

definition sample_receiver_ots :: "ReceiverOT list" where
  "sample_receiver_ots = map (\<lambda>i. \<lparr>R = \<lparr>D0 = of_nat i, D1 = (if odd i then 2 else 1)\<rparr>,
     rIndex = of_nat i, Choice = odd i\<rparr>) [0..<640]"

lemma sample_ots_agree: "ots_agree 0 sample_sender_ots sample_receiver_ots"
  by (simp add: ots_agree_def sample_sender_ots_def sample_receiver_ots_def consecutive_def
      list_all2_conv_all_nth ot_match_def)

section \<open>Garbling\<close>

lemma free_xor_distinct: "free_xor r w \<Longrightarrow> permutationBit r \<Longrightarrow> l0 w \<noteq> l1 w"
  by (metis free_xor_def lx.xor_eq_self_iff permutationBit_zero)

lemma circuit_output_nth:
  "i < OutputBits \<Longrightarrow> OutputBits \<le> n \<Longrightarrow> length v = n \<Longrightarrow> drop (n - OutputBits) v ! i = v ! (n - OutputBits + i)"
  by simp

text \<open>C2. Garbled evaluation computes the compiled circuit: for every circuit the engine
  accepts whose gates are in evaluation order and every input, garbling succeeds, evaluation
  on the labels of the input bits succeeds, and each output wire carries the label of the
  bit the circuit computes, which differs from the label of its negation.\<close>

theorem garbled_circuit_correct:
  assumes eng: "newEngine (Some c) = Inr e" and wf: "wf_compiled c"
    and inputs: "length inputs = 2 * InputBits" and rng: "16 + 2 * InputBits * 16 \<le> length rng"
  shows "\<exists>gb ls. garble e (Some rng) key = Inr (gb, drop (16 + 2 * InputBits * 16) rng) \<and>
    evaluate e key (input_labels e gb inputs) (gtables gb) = Inr ls \<and>
    (\<forall>i < OutputBits. let w = cNumWires c - OutputBits + i in
       ls ! w = wire_label (gwires gb ! w) (mark_output c inputs ! i) \<and>
       l0 (gwires gb ! w) \<noteq> l1 (gwires gb ! w))"
proof -
  obtain gb r ls where g: "garble e (Some rng) key = Inr (gb, drop (16 + 2 * InputBits * 16) rng)"
    "length (gwires gb) = numWires e" "permutationBit r"
    "evaluate e key (input_labels e gb inputs) (gtables gb) = Inr ls"
    "sim r ({..<2 * InputBits} \<union> {numWires e - OutputBits..<numWires e}) (gwires gb) ls (plain_eval e inputs)"
    using garble_evaluate [OF newEngine_wf [OF eng wf] inputs rng] .
  have n: "2 * InputBits + OutputBits \<le> cNumWires c" using wf by (simp add: wf_compiled_def)
  have "ls ! w = wire_label (gwires gb ! w) (mark_output c inputs ! i) \<and> l0 (gwires gb ! w) \<noteq> l1 (gwires gb ! w)"
    if i: "i < OutputBits" and w: "w = cNumWires c - OutputBits + i" for i w
  proof -
    have "numWires e - OutputBits \<le> w" "w < numWires e"
      using i w n newEngine_meaning(3) [OF eng] by linarith+
    then have "w \<in> {..<2 * InputBits} \<union> {numWires e - OutputBits..<numWires e}" by simp
    note sw = simD [OF g(5) this]
    have "mark_output c inputs ! i = plain_eval e inputs ! w"
      using i n length_mark_eval [of inputs c] inputs
      by (simp add: mark_output_def newEngine_meaning(1) [OF eng] w)
    then show ?thesis using sw free_xor_distinct [OF sw(4) g(3)] by simp
  qed
  then show ?thesis using g(1,4) by (auto simp: Let_def)
qed

theorem garbled_circuit_correct_witness:
  "\<exists>e gb ls. newEngine (Some sample_circuit) = Inr e \<and>
     garble e (Some (replicate 20496 0)) (replicate 16 9) = Inr (gb, []) \<and>
     evaluate e (replicate 16 9) (input_labels e gb (replicate 1280 True)) (gtables gb) = Inr ls \<and>
     ls ! 1281 = wire_label (gwires gb ! 1281) (mark_output sample_circuit (replicate 1280 True) ! 1)"
proof -
  obtain e where e: "newEngine (Some sample_circuit) = Inr e" using sample_engine by blast
  have l: "length (replicate 1280 True) = 2 * InputBits" "16 + 2 * InputBits * 16 \<le> length (replicate 20496 (0 :: u8))"
    by simp_all
  obtain gb ls where g: "garble e (Some (replicate 20496 0)) (replicate 16 9) = Inr (gb, drop (16 + 2 * InputBits * 16) (replicate 20496 0))"
    "evaluate e (replicate 16 9) (input_labels e gb (replicate 1280 True)) (gtables gb) = Inr ls"
    "\<forall>i < OutputBits. let w = cNumWires sample_circuit - OutputBits + i in
       ls ! w = wire_label (gwires gb ! w) (mark_output sample_circuit (replicate 1280 True) ! i) \<and>
       l0 (gwires gb ! w) \<noteq> l1 (gwires gb ! w)"
    using garbled_circuit_correct [OF e sample_circuit_wf l, of "replicate 16 9"] by blast
  have "ls ! 1281 = wire_label (gwires gb ! 1281) (mark_output sample_circuit (replicate 1280 True) ! 1)"
    using g(3) [rule_format, of 1] by (simp add: sample_circuit_def Let_def)
  then show ?thesis using e g(1,2) by auto
qed

section \<open>The online phase\<close>

text \<open>C9. An honest run of the online phase, from the garbler's payload to its verification
  of the returned labels, succeeds with 640 matching transfers, and both parties end with
  the bytes the compiled circuit computes from their joint inputs.\<close>

theorem oprf_run_computes_circuit:
  assumes eng: "newEngine (Some c) = Inr e" and wf: "wf_compiled c" and ots: "ots_agree start sots rots"
    and len: "length gin = 80" "length ein = 80" and rng: "24 + (16 + 2 * InputBits * 16) \<le> length rng"
  shows "honest_run (newEngine (Some c)) rng gin ein sots rots start =
    Inr (bitsToBytes (mark_output c (bytesToBits gin @ bytesToBits ein)) 16,
         bitsToBytes (mark_output c (bytesToBits gin @ bytesToBits ein)) 16)"
  using honest_run_correct [OF newEngine_wf [OF eng wf] ots len rng]
  by (simp add: eng newEngine_meaning(2) [OF eng])

theorem oprf_run_computes_circuit_witness:
  "\<exists>e. newEngine (Some sample_circuit) = Inr e \<and>
     honest_run (newEngine (Some sample_circuit)) (replicate 20520 3) (replicate 80 5) (replicate 80 6)
       sample_sender_ots sample_receiver_ots 0 =
     Inr (bitsToBytes (mark_output sample_circuit (bytesToBits (replicate 80 5) @ bytesToBits (replicate 80 6))) 16,
          bitsToBytes (mark_output sample_circuit (bytesToBits (replicate 80 5) @ bytesToBits (replicate 80 6))) 16)"
proof -
  obtain e where e: "newEngine (Some sample_circuit) = Inr e" using sample_engine by blast
  have "24 + (16 + 2 * InputBits * 16) \<le> length (replicate 20520 (3 :: u8))" by simp
  from oprf_run_computes_circuit [OF e sample_circuit_wf sample_ots_agree _ _ this, of "replicate 80 5" "replicate 80 6"]
  show ?thesis using e by simp
qed

text \<open>C29. A garbler session yields at most one set of masks and then at most one verified
  output, over any sequence of corrections, verifications and destructions, in any order.\<close>

theorem garbler_session_single_use:
  assumes "\<not> corrected s" "\<not> verified s"
  shows "garbler_run s ps = [] \<or> (\<exists>ms. garbler_run s ps = [Corrected ms]) \<or>
    (\<exists>ms cmac. garbler_run s ps = [Corrected ms, Verified cmac])"
  by (rule garbler_run_fresh [OF assms])

theorem garbler_session_single_use_witness:
  "\<exists>s. \<not> corrected s \<and> \<not> verified s \<and>
     ((\<exists>ms. garbler_run s [Verify [], Correct (replicate 640 True), Correct (replicate 640 False)] = [Corrected ms]) \<or>
      (\<exists>ms cmac. garbler_run s [Verify [], Correct (replicate 640 True), Correct (replicate 640 False)] =
         [Corrected ms, Verified cmac]))"
proof -
  let ?s = "\<lparr>gSessionID = 1, evaluatorWires = replicate 640 wire_zero, otPads = sample_sender_ots,
      outputWires = [], corrected = False, verified = False\<rparr>"
  let ?ops = "[Verify [], Correct (replicate 640 True), Correct (replicate 640 False)]"
  have s: "\<not> corrected ?s" "\<not> verified ?s" by simp_all
  have "garbler_run ?s ?ops \<noteq> []"
    by (simp add: garbler_ops sample_sender_ots_def)
  with s garbler_session_single_use [OF s, of ?ops] show ?thesis by blast
qed

text \<open>C28. The garbler accepts 128 output labels exactly when each of them is one of the two
  labels of its wire, and then returns the bytes whose bits they encode.\<close>

theorem verify_output_exact:
  assumes s: "corrected s" "\<not> verified s" "length (outputWires s) = OutputBits" "length ls = OutputBits"
  shows "((\<exists>cmac. snd (VerifyOutput (Some s) ls) = Inr cmac) \<longleftrightarrow>
      (\<forall>k < OutputBits. ls ! k = l0 (outputWires s ! k) \<or> ls ! k = l1 (outputWires s ! k))) \<and>
    (\<forall>cmac. snd (VerifyOutput (Some s) ls) = Inr cmac \<longrightarrow> length cmac = 16 \<and>
      (\<forall>k < OutputBits. ls ! k = wire_label (outputWires s ! k) (bytesToBits cmac ! k)))"
proof -
  have accepted: "length cmac = 16 \<and> (\<forall>k < OutputBits. ls ! k = wire_label (outputWires s ! k) (bytesToBits cmac ! k))"
    if "snd (VerifyOutput (Some s) ls) = Inr cmac" for cmac
    using VerifyOutput_Inr [of s ls _ cmac] that by (metis prod.collapse)
  have "\<exists>cmac. snd (VerifyOutput (Some s) ls) = Inr cmac"
    if ok: "\<forall>k < OutputBits. ls ! k = l0 (outputWires s ! k) \<or> ls ! k = l1 (outputWires s ! k)"
  proof -
    define bs where "bs = map (\<lambda>k. ls ! k \<noteq> l0 (outputWires s ! k)) [0..<OutputBits]"
    have "decode_outputs 0 (outputWires s) ls = Inr bs"
      using s(3,4) ok by (subst decode_outputs_Inr) (auto simp: bs_def wire_label_def)
    then show ?thesis using s by (simp add: VerifyOutput_def)
  qed
  moreover have "ls ! k = l0 (outputWires s ! k) \<or> ls ! k = l1 (outputWires s ! k)"
    if "snd (VerifyOutput (Some s) ls) = Inr cmac" "k < OutputBits" for cmac k
    using accepted [OF that(1)] that(2) by (auto simp: wire_label_def)
  ultimately show ?thesis using accepted by blast
qed

theorem verify_output_exact_witness:
  "\<exists>s cmac. corrected s \<and> \<not> verified s \<and> snd (VerifyOutput (Some s) (replicate 128 label_zero)) = Inr cmac \<and>
     length cmac = 16"
proof -
  let ?s = "\<lparr>gSessionID = 1, evaluatorWires = [], otPads = [], outputWires = replicate 128 wire_zero,
      corrected = True, verified = False\<rparr>"
  have s: "corrected ?s" "\<not> verified ?s" "length (outputWires ?s) = OutputBits"
    "length (replicate 128 label_zero) = OutputBits" by simp_all
  have "\<forall>k < OutputBits. replicate 128 label_zero ! k = l0 (outputWires ?s ! k) \<or>
      replicate 128 label_zero ! k = l1 (outputWires ?s ! k)" by (simp add: wire_zero_def)
  with verify_output_exact [OF s] obtain cmac where
    "snd (VerifyOutput (Some ?s) (replicate 128 label_zero)) = Inr cmac" "length cmac = 16" by blast
  with s show ?thesis by blast
qed

end
