(* ===== verification/Receiver_Pool.thy ===== *)
theory Receiver_Pool
  imports Ot_Pools
begin

text \<open>
  The evaluator's pool refines a finite map from absolute indices to unused entries:
  \<open>Consume\<close> removes a range of it, \<open>AdvanceTo\<close> everything below a frontier, \<open>Add\<close> extends
  it, and compaction leaves it alone. An index that was consumed is never delivered again.
\<close>

section \<open>Abstract state and invariant\<close>

definition receiver_end :: "ReceiverPool \<Rightarrow> nat" where
  "receiver_end p = unat (rBase p) + length (rEntries p)"

definition unused :: "ReceiverPool \<Rightarrow> nat \<rightharpoonup> ReceiverOT" where
  "unused p i =
     (if unat (rBase p) \<le> i \<and> i < receiver_end p \<and> \<not> used p ! (i - unat (rBase p))
      then Some (rEntries p ! (i - unat (rBase p))) else None)"

definition receiver_inv :: "ReceiverPool \<Rightarrow> bool" where
  "receiver_inv p \<longleftrightarrow>
     length (used p) = length (rEntries p) \<and> receiver_end p < 2 ^ 64 \<and>
     length (rEntries p) \<le> 2 ^ 62 \<and>
     unat (rBase p) \<le> unat (highWater p) \<and> unat (highWater p) \<le> receiver_end p \<and>
     availableCount p = int (length (filter Not (used p))) \<and>
     (\<forall>k < length (rEntries p). if used p ! k
        then unat (rBase p) + k < unat (highWater p) \<and> rEntries p ! k = receiver_ot_zero
        else rIndex (rEntries p ! k) = rBase p + of_nat k)"

lemma unused_at:
  assumes "k < length (rEntries p)"
  shows "unused p (unat (rBase p) + k) = (if used p ! k then None else Some (rEntries p ! k))"
  using assms by (simp add: unused_def receiver_end_def)

lemma unused_dom: "i \<in> dom (unused p) \<longleftrightarrow>
    (\<exists>k < length (rEntries p). i = unat (rBase p) + k \<and> \<not> used p ! k)"
proof
  assume "i \<in> dom (unused p)"
  then have "unat (rBase p) \<le> i" "i < receiver_end p" "\<not> used p ! (i - unat (rBase p))"
    by (auto simp: unused_def split: if_splits)
  then show "\<exists>k < length (rEntries p). i = unat (rBase p) + k \<and> \<not> used p ! k"
    by (intro exI [of _ "i - unat (rBase p)"]) (auto simp: receiver_end_def)
qed (auto simp: unused_at)

lemma NewReceiverPool_inv: "receiver_inv NewReceiverPool" "unused NewReceiverPool = Map.empty"
  by (auto simp: receiver_inv_def NewReceiverPool_def receiver_end_def unused_def)

lemma receiver_clear_inv: "receiver_inv (receiver_clear p)" "unused (receiver_clear p) = Map.empty"
  by (auto simp: receiver_inv_def receiver_clear_def receiver_end_def unused_def)

lemma receiver_total_inv:
  assumes "receiver_inv p"
  shows "receiver_total p = Inr (rBase p + of_nat (length (rEntries p)))"
    and "unat (rBase p + of_nat (length (rEntries p))) = receiver_end p"
proof -
  have b: "receiver_end p < 2 ^ 64" "length (rEntries p) \<le> 2 ^ 62" using assms by (simp_all add: receiver_inv_def)
  then show u: "unat (rBase p + of_nat (length (rEntries p))) = receiver_end p"
    by (simp add: unat_word_ariths unat_of_nat receiver_end_def)
  have "checkedIndexEnd (rBase p) (int (length (rEntries p))) = Inr (rBase p + of_nat (length (rEntries p)))"
    using b u is_go_int_small [OF b(2)] by (simp add: checkedIndexEnd_Inr receiver_end_def)
  moreover have "length (filter Not (used p)) \<le> length (rEntries p)"
    using assms length_filter_le [of Not "used p"] by (simp add: receiver_inv_def)
  ultimately show "receiver_total p = Inr (rBase p + of_nat (length (rEntries p)))"
    using assms u by (simp add: receiver_total_def receiver_inv_def word_less_nat_alt)
qed

section \<open>Validation\<close>

lemma first_used_None:
  "first_used us offset count = None \<longleftrightarrow> (\<forall>i. offset \<le> i \<and> i < offset + count \<longrightarrow> \<not> us ! i)"
  by (auto simp: first_used_def find_None_iff)

lemma receiver_validate_iff:
  assumes inv: "receiver_inv p" and go: "is_go_int count"
  shows "receiver_validate_consumable p start count = Inr () \<longleftrightarrow>
    0 < count \<and> {unat start..<unat start + nat count} \<subseteq> dom (unused p)"
proof (cases "0 < count \<and> unat (rBase p) \<le> unat start \<and> unat start + nat count \<le> receiver_end p")
  case True
  note t = receiver_total_inv [OF inv]
  have lt: "unat start + nat count < 2 ^ 64" using True inv by (simp add: receiver_inv_def)
  obtain e where e: "checkedIndexEnd start count = Inr e" "unat e = unat start + nat count"
    using lt True go checkedIndexEnd_Inr checkedIndexEnd_ok by (metis less_imp_le)
  define off where "off = unat start - unat (rBase p)"
  have off: "unat (start - rBase p) = off" "unat start = unat (rBase p) + off"
    using True by (simp_all add: off_def unat_sub word_le_nat_alt)
  have "receiver_validate_consumable p start count = Inr () \<longleftrightarrow> first_used (used p) off (nat count) = None"
    using True t e off(1)
    by (auto simp: receiver_validate_consumable_def word_less_nat_alt Let_def split: option.splits)
  also have "\<dots> \<longleftrightarrow> {unat start..<unat start + nat count} \<subseteq> dom (unused p)"
  proof
    assume n: "first_used (used p) off (nat count) = None"
    show "{unat start..<unat start + nat count} \<subseteq> dom (unused p)"
    proof
      fix i assume "i \<in> {unat start..<unat start + nat count}"
      then have i: "unat (rBase p) + off \<le> i" "i < unat (rBase p) + off + nat count"
        by (simp_all add: off(2) [symmetric])
      define k where "k = i - unat (rBase p)"
      have k: "i = unat (rBase p) + k" "off \<le> k" "k < off + nat count"
        using i unfolding k_def by linarith+
      then have "k < length (rEntries p)" "\<not> used p ! k"
        using True off(2) n by (auto simp: first_used_None receiver_end_def)
      with k show "i \<in> dom (unused p)" unfolding unused_dom by blast
    qed
  next
    assume sub: "{unat start..<unat start + nat count} \<subseteq> dom (unused p)"
    have "\<not> used p ! i" if "off \<le> i" "i < off + nat count" for i
    proof -
      have "unat (rBase p) + i \<in> dom (unused p)" using sub that off(2) by (auto simp: subset_eq)
      then show ?thesis by (auto simp: unused_dom)
    qed
    then show "first_used (used p) off (nat count) = None" by (simp add: first_used_None)
  qed
  finally show ?thesis using True by simp
next
  case False
  note t = receiver_total_inv [OF inv]
  have l: "receiver_validate_consumable p start count \<noteq> Inr ()"
  proof
    assume v: "receiver_validate_consumable p start count = Inr ()"
    then obtain e where "0 < count" "unat (rBase p) \<le> unat start"
      "checkedIndexEnd start count = Inr e" "\<not> e > rBase p + of_nat (length (rEntries p))"
      by (auto simp: receiver_validate_consumable_def t(1) word_less_nat_alt not_less
          split: if_splits)
    with False go t(2) show False by (simp add: checkedIndexEnd_Inr word_less_nat_alt)
  qed
  have "\<not> {unat start..<unat start + nat count} \<subseteq> dom (unused p)" if c: "0 < count"
  proof
    assume sub: "{unat start..<unat start + nat count} \<subseteq> dom (unused p)"
    have "unat start \<in> dom (unused p)" "unat start + nat count - 1 \<in> dom (unused p)"
      using sub c by (auto simp: subset_eq)
    then show False using False c by (auto simp: unused_dom receiver_end_def)
  qed
  with l show ?thesis by blast
qed

section \<open>Compaction\<close>

lemma leading_used_le: "leading_used us \<le> length us"
  by (induction us rule: leading_used.induct) simp_all

lemma leading_used_nth: "k < leading_used us \<Longrightarrow> us ! k"
proof (induction us arbitrary: k rule: leading_used.induct)
  case (1 us)
  then show ?case by (cases k) simp_all
qed simp_all

lemma filter_leading_used: "filter Not (drop (leading_used us) us) = filter Not us"
  by (induction us rule: leading_used.induct) simp_all

lemma receiver_compact_same:
  assumes inv: "receiver_inv p"
  shows "receiver_inv (receiver_compact p)" "unused (receiver_compact p) = unused p"
    "receiver_end (receiver_compact p) = receiver_end p"
    "highWater (receiver_compact p) = highWater p"
    "length (rEntries (receiver_compact p)) \<le> length (rEntries p)"
proof -
  define c where "c = leading_used (used p)"
  define q where "q = p\<lparr>rEntries := drop c (rEntries p), used := drop c (used p),
      rBase := rBase p + of_nat c\<rparr>"
  have cases: "receiver_compact p = p \<or> receiver_compact p = q"
    by (simp add: receiver_compact_def Let_def q_def c_def)
  have c: "c \<le> length (rEntries p)" "\<And>k. k < c \<Longrightarrow> used p ! k"
    using inv leading_used_le [of "used p"] leading_used_nth [of _ "used p"]
    by (simp_all add: c_def receiver_inv_def)
  have "unat (rBase p) + c < 2 ^ 64" using c(1) inv by (simp add: receiver_inv_def receiver_end_def)
  then have base: "unat (rBase q) = unat (rBase p) + c"
    by (simp add: q_def unat_word_ariths unat_of_nat)
  have eq: "receiver_end q = receiver_end p"
    unfolding receiver_end_def base using c(1) by (simp add: q_def)
  have un: "unused q = unused p"
  proof
    fix i show "unused q i = unused p i"
    proof (cases "unat (rBase p) + c \<le> i \<and> i < receiver_end p")
      case True
      then have "i - unat (rBase p) = c + (i - (unat (rBase p) + c))" by simp
      with True c(1) inv show ?thesis
        unfolding unused_def eq base by (simp add: q_def receiver_inv_def receiver_end_def)
    next
      case False
      then have "unused q i = None" unfolding unused_def eq base by auto
      moreover have "unused p i = None" using False c(2) [of "i - unat (rBase p)"]
        unfolding unused_def by auto
      ultimately show ?thesis by simp
    qed
  qed
  have "unat (rBase q) \<le> unat (highWater p)"
  proof (cases c)
    case (Suc k)
    then have "unat (rBase p) + k < unat (highWater p)"
      using inv c by (simp add: receiver_inv_def)
    with Suc base show ?thesis by simp
  qed (use inv base in \<open>simp add: receiver_inv_def\<close>)
  moreover have idx: "if used q ! k
      then unat (rBase q) + k < unat (highWater q) \<and> rEntries q ! k = receiver_ot_zero
      else rIndex (rEntries q ! k) = rBase q + of_nat k" if "k < length (rEntries q)" for k
  proof -
    have "c + k < length (rEntries p)" using that by (simp add: q_def)
    with inv have "if used p ! (c + k)
        then unat (rBase p) + (c + k) < unat (highWater p) \<and> rEntries p ! (c + k) = receiver_ot_zero
        else rIndex (rEntries p ! (c + k)) = rBase p + of_nat (c + k)"
      unfolding receiver_inv_def by blast
    moreover have "used q ! k = used p ! (c + k)" "rEntries q ! k = rEntries p ! (c + k)"
      using c(1) inv by (simp_all add: q_def receiver_inv_def)
    ultimately show ?thesis unfolding base by (simp add: q_def add.assoc split: if_splits)
  qed
  moreover have "availableCount q = int (length (filter Not (used q)))"
    using inv by (simp add: q_def c_def filter_leading_used receiver_inv_def)
  moreover have "length (used q) = length (rEntries q)" "length (rEntries q) \<le> length (rEntries p)"
    "highWater q = highWater p"
    using inv by (simp_all add: q_def receiver_inv_def)
  moreover have "receiver_end p < 2 ^ 64" "length (rEntries p) \<le> 2 ^ 62"
    "unat (highWater p) \<le> receiver_end p"
    using inv unfolding receiver_inv_def by blast+
  ultimately have q: "receiver_inv q"
    unfolding receiver_inv_def eq by (intro conjI allI impI idx) simp_all
  show "receiver_inv (receiver_compact p)" "unused (receiver_compact p) = unused p"
    "receiver_end (receiver_compact p) = receiver_end p"
    "highWater (receiver_compact p) = highWater p"
    "length (rEntries (receiver_compact p)) \<le> length (rEntries p)"
    using cases q un eq inv by (auto simp: q_def)
qed

section \<open>Marking a window used\<close>

definition mark_used :: "ReceiverPool \<Rightarrow> nat \<Rightarrow> nat \<Rightarrow> u64 \<Rightarrow> ReceiverPool" where
  "mark_used p off m h =
     p\<lparr>used := clear_range True (used p) off m,
       rEntries := clear_range receiver_ot_zero (rEntries p) off m,
       availableCount := availableCount p - int (length (filter Not (slice (used p) off (off + m)))),
       highWater := h\<rparr>"

lemma filter_clear_range:
  assumes "off + m \<le> length us"
  shows "int (length (filter Not (clear_range True us off m))) =
    int (length (filter Not us)) - int (length (filter Not (slice us off (off + m))))"
proof -
  have "us = take off us @ slice us off (off + m) @ drop (off + m) us"
    by (simp add: slice_def add.commute flip: drop_drop)
  then have "filter Not us = filter Not (take off us) @ filter Not (slice us off (off + m))
      @ filter Not (drop (off + m) us)"
    by (metis filter_append)
  then show ?thesis by (simp add: clear_range_def)
qed

lemma mark_used_unused:
  assumes "receiver_inv p" "off + m \<le> length (rEntries p)"
  shows "unused (mark_used p off m h) =
    unused p |` (- {unat (rBase p) + off..<unat (rBase p) + off + m})"
proof
  fix i
  have len: "length (used p) = length (rEntries p)" using assms(1) by (simp add: receiver_inv_def)
  have e: "receiver_end (mark_used p off m h) = receiver_end p" "rBase (mark_used p off m h) = rBase p"
    using assms(2) by (simp_all add: mark_used_def receiver_end_def)
  show "unused (mark_used p off m h) i =
      (unused p |` (- {unat (rBase p) + off..<unat (rBase p) + off + m})) i"
  proof (cases "unat (rBase p) \<le> i \<and> i < receiver_end p")
    case True
    define k where "k = i - unat (rBase p)"
    have k: "i = unat (rBase p) + k" "k < length (rEntries p)"
      using True by (auto simp: k_def receiver_end_def)
    have "unused (mark_used p off m h) (unat (rBase p) + k) =
        (if off \<le> k \<and> k < off + m then None else unused p (unat (rBase p) + k))"
      using k(2) assms(2) len unfolding unused_def e
      by (auto simp: mark_used_def receiver_end_def nth_clear_range)
    then show ?thesis unfolding k(1) by (auto simp: restrict_map_def)
  next
    case False
    then have "unused p i = None" "unused (mark_used p off m h) i = None"
      unfolding unused_def e by auto
    then show ?thesis by (simp add: restrict_map_def)
  qed
qed

lemma mark_used_inv:
  assumes inv: "receiver_inv p" and win: "off + m \<le> length (rEntries p)"
    and h: "unat (highWater p) \<le> unat h" "unat (rBase p) + off + m \<le> unat h" "unat h \<le> receiver_end p"
  shows "receiver_inv (mark_used p off m h)" "receiver_end (mark_used p off m h) = receiver_end p"
proof -
  let ?q = "mark_used p off m h"
  have len: "length (used p) = length (rEntries p)" using inv by (simp add: receiver_inv_def)
  show e: "receiver_end ?q = receiver_end p" using win by (simp add: mark_used_def receiver_end_def)
  have q: "rBase ?q = rBase p" "highWater ?q = h" "length (rEntries ?q) = length (rEntries p)"
    "length (used ?q) = length (rEntries p)"
    using win len by (simp_all add: mark_used_def)
  have "if used ?q ! k
      then unat (rBase p) + k < unat h \<and> rEntries ?q ! k = receiver_ot_zero
      else rIndex (rEntries ?q ! k) = rBase p + of_nat k" if k: "k < length (rEntries p)" for k
  proof -
    from inv k have "if used p ! k
        then unat (rBase p) + k < unat (highWater p) \<and> rEntries p ! k = receiver_ot_zero
        else rIndex (rEntries p ! k) = rBase p + of_nat k"
      unfolding receiver_inv_def by blast
    with h k win len show ?thesis by (auto simp: mark_used_def nth_clear_range split: if_splits)
  qed
  moreover have "availableCount ?q = int (length (filter Not (used ?q)))"
    using inv win len filter_clear_range [of off m "used p"]
    by (simp add: mark_used_def receiver_inv_def)
  ultimately show "receiver_inv ?q"
    using inv h unfolding receiver_inv_def e q by (simp add: q)
qed

section \<open>Consume, advance, add\<close>

lemma receiver_consume_cases:
  assumes inv: "receiver_inv p" and go: "is_go_int count"
    and c: "receiver_consume p start count = (p', Inr es)"
  shows "receiver_inv p'" "0 < count"
    "map Some es = map (unused p) [unat start..<unat start + nat count]"
    "unused p' = unused p |` (- {unat start..<unat start + nat count})"
    "receiver_end p' = receiver_end p"
    "unat (highWater p') = max (unat (highWater p)) (unat start + nat count)"
    "length (rEntries p') \<le> length (rEntries p)"
proof -
  define m where "m = nat count"
  have v: "receiver_validate_consumable p start count = Inr ()"
    using c by (auto simp: receiver_consume_def split: sum.splits)
  with receiver_validate_iff [OF inv go] have pos: "0 < count"
    and dom: "{unat start..<unat start + m} \<subseteq> dom (unused p)"
    by (simp_all add: m_def)
  define off where "off = unat start - unat (rBase p)"
  have "unat start \<in> dom (unused p)" "unat start + m - 1 \<in> dom (unused p)"
    using dom pos by (auto simp: m_def subset_eq)
  then have b: "unat (rBase p) \<le> unat start" "unat start + m \<le> receiver_end p"
    using pos by (auto simp: unused_dom receiver_end_def m_def)
  then have off: "unat (start - rBase p) = off" "unat start = unat (rBase p) + off"
    "off + m \<le> length (rEntries p)"
    by (simp_all add: off_def unat_sub word_le_nat_alt receiver_end_def)
  have free: "\<not> used p ! (off + k)" if "k < m" for k
  proof -
    have "unat (rBase p) + (off + k) \<in> dom (unused p)" using dom that off(2) by (auto simp: subset_eq)
    then show ?thesis by (auto simp: unused_dom)
  qed
  have len: "length (used p) = length (rEntries p)" using inv by (simp add: receiver_inv_def)
  have "filter Not (slice (used p) off (off + m)) = slice (used p) off (off + m)"
    using free off(3) len by (auto simp: filter_id_conv in_set_conv_nth nth_slice)
  then have cnt: "length (filter Not (slice (used p) off (off + m))) = m" using off(3) len by simp
  define e where "e = start + of_int count"
  have lt: "unat start + m < 2 ^ 64" using b(2) inv by (simp add: receiver_inv_def)
  then have ue: "unat e = unat start + m"
    using pos go unfolding e_def m_def by (simp add: unat_word_ariths unat_of_go_int)
  define h where "h = (if e > highWater p then e else highWater p)"
  have uh: "unat h = max (unat (highWater p)) (unat start + m)"
    using ue by (auto simp: h_def word_less_nat_alt)
  have eq: "receiver_consume p start count =
      (receiver_compact (mark_used p off m h), Inr (slice (rEntries p) off (off + m)))"
    using v cnt pos by (simp add: receiver_consume_def Let_def off(1) mark_used_def h_def e_def m_def)
  have h: "unat (highWater p) \<le> unat h" "unat (rBase p) + off + m \<le> unat h" "unat h \<le> receiver_end p"
    using uh off(2) b(2) inv by (simp_all add: receiver_inv_def)
  note mk = mark_used_inv [OF inv off(3) h] mark_used_unused [OF inv off(3), of h]
  note rc = receiver_compact_same [OF mk(1)]
  have p': "p' = receiver_compact (mark_used p off m h)" and es: "es = slice (rEntries p) off (off + m)"
    using c unfolding eq by simp_all
  show "0 < count" by (rule pos)
  show "receiver_inv p'" "receiver_end p' = receiver_end p" unfolding p' using rc mk(2) by simp_all
  show "unused p' = unused p |` (- {unat start..<unat start + nat count})"
    unfolding p' rc(2) mk(3) m_def [symmetric] off(2) ..
  have "highWater p' = h" unfolding p' rc(4) by (simp add: mark_used_def)
  then show "unat (highWater p') = max (unat (highWater p)) (unat start + nat count)"
    using uh by (simp add: m_def)
  have "length (rEntries (mark_used p off m h)) = length (rEntries p)"
    using off(3) by (simp add: mark_used_def)
  then show "length (rEntries p') \<le> length (rEntries p)" using rc(5) unfolding p' by simp
  show "map Some es = map (unused p) [unat start..<unat start + nat count]"
    unfolding es off(2) m_def [symmetric]
  proof (rule nth_equalityI)
    fix k assume k: "k < length (map Some (slice (rEntries p) off (off + m)))"
    then have "k < m" "off + k < length (rEntries p)" using off(3) by simp_all
    then show "map Some (slice (rEntries p) off (off + m)) ! k =
        map (unused p) [unat (rBase p) + off..<unat (rBase p) + off + m] ! k"
      using unused_at [of "off + k" p] free [of k] off(3) by (simp add: nth_slice add.assoc)
  qed (use off(3) in simp)
qed

lemma receiver_advance_cases:
  assumes inv: "receiver_inv p" and a: "receiver_advance_to p nxt = (p', Inr ())"
  shows "receiver_inv p'" "unused p' = unused p |` {unat nxt..}" "highWater p' = nxt"
    "unat (highWater p) \<le> unat nxt" "unat nxt \<le> receiver_end p"
    "receiver_end p' = receiver_end p" "length (rEntries p') \<le> length (rEntries p)"
proof -
  note t = receiver_total_inv [OF inv]
  have g: "\<not> (nxt < highWater p \<or> nxt > rBase p + of_nat (length (rEntries p)))"
    using a by (auto simp: receiver_advance_to_def t(1))
  then show b: "unat (highWater p) \<le> unat nxt" "unat nxt \<le> receiver_end p"
    using t(2) by (auto simp: word_less_nat_alt)
  define m where "m = unat nxt - unat (rBase p)"
  have base: "unat (rBase p) \<le> unat nxt" using b(1) inv by (simp add: receiver_inv_def)
  then have off: "unat (nxt - rBase p) = m" "unat nxt = unat (rBase p) + m" "0 + m \<le> length (rEntries p)"
    using b(2) by (simp_all add: m_def unat_sub word_le_nat_alt receiver_end_def)
  have mark: "p\<lparr>used := clear_range True (used p) 0 m,
      availableCount := availableCount p - int (length (filter Not (take m (used p)))),
      rEntries := clear_range receiver_ot_zero (rEntries p) 0 m, highWater := nxt\<rparr> = mark_used p 0 m nxt"
    by (simp add: mark_used_def slice_def)
  have p': "p' = receiver_compact (mark_used p 0 m nxt)"
    using a g t(1) by (auto simp: receiver_advance_to_def off(1) mark Let_def)
  have h: "unat (rBase p) + 0 + m \<le> unat nxt" using off(2) by simp
  note mk = mark_used_inv [OF inv off(3) b(1) h b(2)] mark_used_unused [OF inv off(3), of nxt]
  note rc = receiver_compact_same [OF mk(1)]
  show "receiver_inv p'" "receiver_end p' = receiver_end p" unfolding p' using rc mk(2) by simp_all
  show "unused p' = unused p |` {unat nxt..}"
  proof
    fix i
    have "unused p i = None" if "i < unat (rBase p)" using that by (simp add: unused_def)
    then show "unused p' i = (unused p |` {unat nxt..}) i"
      unfolding p' rc(2) mk(3) off(2) by (auto simp: restrict_map_def)
  qed
  show "highWater p' = nxt" unfolding p' rc(4) by (simp add: mark_used_def)
  have "length (rEntries (mark_used p 0 m nxt)) = length (rEntries p)"
    using off(3) by (simp add: mark_used_def)
  then show "length (rEntries p') \<le> length (rEntries p)" using rc(5) unfolding p' by simp
qed

lemma receiver_add_cases:
  assumes inv: "receiver_inv p" and fits: "length (rEntries p) + length es \<le> 2 ^ 62"
    and a: "receiver_add p es = (p', Inr ())"
  shows "receiver_inv p'" "receiver_end p' = receiver_end p + length es"
    "unused p' = unused p ++ (\<lambda>i. if receiver_end p \<le> i \<and> i < receiver_end p + length es
       then Some (es ! (i - receiver_end p)) else None)"
    "highWater p' = highWater p" "length (rEntries p') = length (rEntries p) + length es"
proof -
  note t = receiver_total_inv [OF inv]
  let ?n = "length (rEntries p)"
  have small: "length es \<le> 2 ^ 62" using fits by simp
  have c: "consecutive (rBase p + of_nat ?n) (map rIndex es)"
    and p': "p' = p\<lparr>rEntries := rEntries p @ es, used := used p @ replicate (length es) False,
         availableCount := availableCount p + int (length es)\<rparr>"
    using a validateReceiverOTIndices_Inr [OF small]
    by (auto simp: receiver_add_def t(1) split: sum.splits)
  have len: "length (used p) = ?n" using inv by (simp add: receiver_inv_def)
  show l: "length (rEntries p') = ?n + length es" by (simp add: p')
  show e: "receiver_end p' = receiver_end p + length es" by (simp add: p' receiver_end_def)
  show hw: "highWater p' = highWater p" by (simp add: p')
  show "unused p' = unused p ++ (\<lambda>i. if receiver_end p \<le> i \<and> i < receiver_end p + length es
       then Some (es ! (i - receiver_end p)) else None)"
  proof
    fix i show "unused p' i = (unused p ++ (\<lambda>i. if receiver_end p \<le> i \<and> i < receiver_end p + length es
       then Some (es ! (i - receiver_end p)) else None)) i"
      unfolding unused_def e map_add_def using len
      by (auto simp: p' nth_append receiver_end_def)
  qed
  have "if used p' ! k
      then unat (rBase p) + k < unat (highWater p) \<and> rEntries p' ! k = receiver_ot_zero
      else rIndex (rEntries p' ! k) = rBase p + of_nat k" if k: "k < ?n + length es" for k
  proof (cases "k < ?n")
    case True
    with inv have "if used p ! k
        then unat (rBase p) + k < unat (highWater p) \<and> rEntries p ! k = receiver_ot_zero
        else rIndex (rEntries p ! k) = rBase p + of_nat k"
      unfolding receiver_inv_def by blast
    with True len show ?thesis by (simp add: p' nth_append)
  next
    case False
    then have "rIndex (es ! (k - ?n)) = rBase p + of_nat ?n + of_nat (k - ?n)"
      using c k by (simp add: consecutive_def)
    also have "\<dots> = rBase p + of_nat k" using False by (simp flip: of_nat_add)
    finally show ?thesis using False k len by (simp add: p' nth_append)
  qed
  moreover have "receiver_end p' < 2 ^ 64" using c t(2) e by (simp add: consecutive_def)
  moreover have "rBase p' = rBase p" "length (used p') = ?n + length es"
    "availableCount p' = int (length (filter Not (used p')))"
    using inv len by (simp_all add: p' receiver_inv_def)
  ultimately show "receiver_inv p'"
    using inv fits unfolding receiver_inv_def l hw e by simp
qed

section \<open>Runs of the pool\<close>

datatype receiver_op = RAdd "ReceiverOT list" | RConsume u64 int | RAdvance u64 | RClear

text \<open>A run of the mutexed methods in the order the lock serialises them. \<open>Clear\<close> ends a life of
  the pool: the index space starts again at zero. The lives are counted, and the trace holds the
  batches the successful \<open>Consume\<close> calls delivered, each with its life and its first index.\<close>

fun receiver_run ::
  "nat \<Rightarrow> ReceiverPool \<Rightarrow> receiver_op list \<Rightarrow> nat \<times> ReceiverPool \<times> (nat \<times> nat \<times> ReceiverOT list) list" where
  "receiver_run n p [] = (n, p, [])"
| "receiver_run n p (RAdd es # os) = receiver_run n (fst (receiver_add p es)) os"
| "receiver_run n p (RAdvance nxt # os) = receiver_run n (fst (receiver_advance_to p nxt)) os"
| "receiver_run n p (RClear # os) = receiver_run (Suc n) (receiver_clear p) os"
| "receiver_run n p (RConsume start count # os) =
     (case receiver_consume p start count of
        (p', Inl _) \<Rightarrow> receiver_run n p' os
      | (p', Inr es) \<Rightarrow> (case receiver_run n p' os of (n', p'', d) \<Rightarrow> (n', p'', (n, unat start, es) # d)))"

fun receiver_op_size :: "receiver_op \<Rightarrow> nat" where
  "receiver_op_size (RAdd es) = length es"
| "receiver_op_size _ = 0"

fun receiver_op_ok :: "receiver_op \<Rightarrow> bool" where
  "receiver_op_ok (RConsume _ count) \<longleftrightarrow> is_go_int count"
| "receiver_op_ok _ \<longleftrightarrow> True"

definition delivered_indices :: "(nat \<times> nat \<times> ReceiverOT list) list \<Rightarrow> (nat \<times> nat) list" where
  "delivered_indices d = concat (map (\<lambda>(n, s, es). map (Pair n) [s..<s + length es]) d)"

lemma receiver_add_failed: "receiver_add p es = (p', Inl e) \<Longrightarrow> p' = p"
  by (auto simp: receiver_add_def split: sum.splits)

lemma receiver_advance_failed: "receiver_advance_to p nxt = (p', Inl e) \<Longrightarrow> p' = p"
  by (auto simp: receiver_advance_to_def Let_def split: sum.splits if_splits)

lemma receiver_consume_failed: "receiver_consume p start count = (p', Inl e) \<Longrightarrow> p' = p"
  by (auto simp: receiver_consume_def Let_def split: sum.splits)

text \<open>What one operation may change: the end of the pool only grows, and no index below the
  old end becomes deliverable.\<close>

definition shrinks :: "ReceiverPool \<Rightarrow> ReceiverPool \<Rightarrow> nat \<Rightarrow> bool" where
  "shrinks p p' n \<longleftrightarrow> receiver_inv p' \<and> length (rEntries p') \<le> length (rEntries p) + n \<and>
     receiver_end p \<le> receiver_end p' \<and> dom (unused p') \<subseteq> dom (unused p) \<union> {receiver_end p..}"

lemma receiver_add_shrinks:
  assumes "receiver_inv p" "length (rEntries p) + length es \<le> 2 ^ 62"
  shows "shrinks p (fst (receiver_add p es)) (length es)"
proof (cases "receiver_add p es")
  case (Pair p' r)
  show ?thesis
  proof (cases r)
    case (Inl e)
    then show ?thesis using assms Pair receiver_add_failed by (fastforce simp: shrinks_def)
  next
    case (Inr u)
    have "receiver_add p es = (p', Inr ())" using Pair Inr by simp
    note a = receiver_add_cases [OF assms this]
    show ?thesis using a(1,2,5) by (auto simp: shrinks_def Pair a(3) split: if_splits)
  qed
qed

lemma receiver_advance_shrinks:
  assumes "receiver_inv p"
  shows "shrinks p (fst (receiver_advance_to p nxt)) 0"
proof (cases "receiver_advance_to p nxt")
  case (Pair p' r)
  show ?thesis
  proof (cases r)
    case (Inl e)
    then show ?thesis using assms Pair receiver_advance_failed by (fastforce simp: shrinks_def)
  next
    case (Inr u)
    have "receiver_advance_to p nxt = (p', Inr ())" using Pair Inr by simp
    note a = receiver_advance_cases [OF assms this]
    show ?thesis using a(1,6,7) by (auto simp: shrinks_def Pair a(2))
  qed
qed

text \<open>What a run from life \<open>n\<close> and pool \<open>p\<close> to life \<open>n'\<close> and pool \<open>p'\<close> may have delivered.\<close>

definition delivers_once :: "nat \<Rightarrow> ReceiverPool \<Rightarrow> nat \<Rightarrow> ReceiverPool \<Rightarrow> (nat \<times> nat) list \<Rightarrow> bool" where
  "delivers_once n p n' p' D \<longleftrightarrow>
     receiver_inv p' \<and> n \<le> n' \<and> distinct D \<and> fst ` set D \<subseteq> {n..n'} \<and>
     (\<forall>i. (n, i) \<in> set D \<longrightarrow> i < receiver_end p \<longrightarrow> i \<in> dom (unused p)) \<and>
     (\<forall>i. (n', i) \<in> set D \<longrightarrow> i \<notin> dom (unused p')) \<and>
     (n' = n \<longrightarrow> receiver_end p \<le> receiver_end p' \<and> dom (unused p') \<subseteq> dom (unused p) \<union> {receiver_end p..})"

lemma delivers_onceD:
  assumes "delivers_once n p n' p' D"
  shows "receiver_inv p'" "n \<le> n'" "distinct D" "fst ` set D \<subseteq> {n..n'}"
    "\<And>i. (n, i) \<in> set D \<Longrightarrow> i < receiver_end p \<Longrightarrow> i \<in> dom (unused p)"
    "\<And>i. (n', i) \<in> set D \<Longrightarrow> i \<notin> dom (unused p')"
    "n' = n \<Longrightarrow> receiver_end p \<le> receiver_end p'"
    "\<And>i. n' = n \<Longrightarrow> i \<in> dom (unused p') \<Longrightarrow> i \<in> dom (unused p) \<or> receiver_end p \<le> i"
  using assms unfolding delivers_once_def by blast+

lemma delivers_onceI:
  assumes "receiver_inv p'" "n \<le> n'" "distinct D" "fst ` set D \<subseteq> {n..n'}"
    "\<And>i. (n, i) \<in> set D \<Longrightarrow> i < receiver_end p \<Longrightarrow> i \<in> dom (unused p)"
    "\<And>i. (n', i) \<in> set D \<Longrightarrow> i \<notin> dom (unused p')"
    "n' = n \<Longrightarrow> receiver_end p \<le> receiver_end p'"
    "\<And>i. n' = n \<Longrightarrow> i \<in> dom (unused p') \<Longrightarrow> i \<in> dom (unused p) \<or> receiver_end p \<le> i"
  shows "delivers_once n p n' p' D"
  using assms unfolding delivers_once_def by blast

lemma delivers_once_shrinks:
  assumes sh: "shrinks p q k" and run: "delivers_once n q n' p' D"
  shows "delivers_once n p n' p' D"
proof -
  note d = delivers_onceD [OF run]
  have e: "receiver_end p \<le> receiver_end q" using sh unfolding shrinks_def by blast
  have u: "i \<in> dom (unused p) \<or> receiver_end p \<le> i" if "i \<in> dom (unused q)" for i
    using sh that unfolding shrinks_def by blast
  show ?thesis
  proof (rule delivers_onceI [OF d(1-4)])
    show "i \<in> dom (unused p)" if "(n, i) \<in> set D" "i < receiver_end p" for i
      using u [OF d(5) [OF that(1)]] that(2) e by linarith
    show "receiver_end p \<le> receiver_end p'" if "n' = n" using d(7) [OF that] e by linarith
    show "i \<in> dom (unused p) \<or> receiver_end p \<le> i" if "n' = n" "i \<in> dom (unused p')" for i
      using d(8) [OF that] u [of i] e by linarith
  qed (rule d(6))
qed

lemma delivers_once_clear:
  assumes "delivers_once (Suc n) q n' p' D"
  shows "delivers_once n p n' p' D"
proof -
  note d = delivers_onceD [OF assms]
  have "(n, i) \<notin> set D" for i
  proof
    assume "(n, i) \<in> set D"
    then have "n \<in> fst ` set D" by (rule image_eqI [rotated]) simp
    then show False using d(4) by auto
  qed
  moreover have "fst ` set D \<subseteq> {n..n'}" using d(4) by (rule order_trans) simp
  ultimately show ?thesis using d(1-3,6) by (intro delivers_onceI) simp_all
qed

lemma delivers_once_extend:
  assumes run: "delivers_once n p n' p' D" and dist: "distinct (map (Pair n) ws @ D)"
    and old: "\<And>i. i \<in> set ws \<Longrightarrow> i \<in> dom (unused p)" and new: "\<And>i. n' = n \<Longrightarrow> i \<in> set ws \<Longrightarrow> i \<notin> dom (unused p')"
  shows "delivers_once n p n' p' (map (Pair n) ws @ D)"
proof -
  note d = delivers_onceD [OF run]
  have m: "(m, i) \<in> set (map (Pair n) ws @ D) \<longleftrightarrow> m = n \<and> i \<in> set ws \<or> (m, i) \<in> set D" for m i by auto
  have f: "fst ` set (map (Pair n) ws @ D) \<subseteq> {n} \<union> fst ` set D" by auto
  show ?thesis
  proof (rule delivers_onceI [OF d(1,2) dist])
    show "fst ` set (map (Pair n) ws @ D) \<subseteq> {n..n'}" by (rule order_trans [OF f]) (use d(2,4) in simp)
    show "i \<in> dom (unused p)" if "(n, i) \<in> set (map (Pair n) ws @ D)" "i < receiver_end p" for i
      using that(1) unfolding m using old d(5) that(2) by blast
    show "i \<notin> dom (unused p')" if "(n', i) \<in> set (map (Pair n) ws @ D)" for i
      using that unfolding m using new d(6) by blast
  qed (use d(7,8) in blast)+
qed

lemma delivers_once_consume:
  assumes inv: "receiver_inv p" and go: "is_go_int count" and c: "receiver_consume p start count = (q, Inr es)"
    and run: "delivers_once n q n' p' D"
  shows "delivers_once n p n' p' (map (Pair n) [unat start..<unat start + length es] @ D)"
proof -
  note a = receiver_consume_cases [OF inv go c]
  define W where "W = {unat start..<unat start + length es}"
  have "length es = nat count" using arg_cong [OF a(3), of length] by simp
  then have q: "dom (unused q) = dom (unused p) - W" and dom: "W \<subseteq> dom (unused p)"
    using receiver_validate_iff [OF inv go] c
    by (auto simp: W_def a(4) receiver_consume_def split: sum.splits)
  then have below: "W \<subseteq> {..<receiver_end q}" unfolding a(5) by (force simp: unused_def split: if_splits)
  have "shrinks p q 0" using a(1,5,7) unfolding shrinks_def q by auto
  note all = delivers_once_shrinks [OF this run]
  have "W \<inter> {i. (n, i) \<in> set D} = {}" using delivers_onceD(5) [OF run] below q by blast
  moreover have "distinct D" by (rule delivers_onceD(3) [OF run])
  ultimately have dist: "distinct (map (Pair n) [unat start..<unat start + length es] @ D)"
    unfolding W_def by (auto simp: distinct_map inj_on_def)
  have new: "i \<notin> dom (unused p')" if "i \<in> W" "n' = n" for i
  proof
    assume "i \<in> dom (unused p')"
    then have "i \<in> dom (unused q) \<or> receiver_end q \<le> i" using delivers_onceD(8) [OF run that(2)] by blast
    then show False using that(1) below q by auto
  qed
  show ?thesis
    by (rule delivers_once_extend [OF all dist]; unfold set_upt W_def [symmetric]) (use dom new in blast)+
qed

lemma receiver_run_once:
  assumes "receiver_inv p" "\<forall>oper \<in> set os. receiver_op_ok oper"
    "length (rEntries p) + sum_list (map receiver_op_size os) \<le> 2 ^ 62"
    "receiver_run n p os = (n', p', d)"
  shows "delivers_once n p n' p' (delivered_indices d)"
  using assms
proof (induction n p os arbitrary: n' p' d rule: receiver_run.induct)
  case (1 n p)
  then show ?case by (auto simp: delivered_indices_def delivers_once_def)
next
  case (2 n p es os)
  have sh: "shrinks p (fst (receiver_add p es)) (length es)" using 2(2,4) by (intro receiver_add_shrinks) simp_all
  have "delivers_once n (fst (receiver_add p es)) n' p' (delivered_indices d)"
    using 2(3-5) sh by (intro 2(1)) (simp_all add: shrinks_def)
  then show ?case by (rule delivers_once_shrinks [OF sh])
next
  case (3 n p nxt os)
  have sh: "shrinks p (fst (receiver_advance_to p nxt)) 0" using 3(2) by (rule receiver_advance_shrinks)
  have "delivers_once n (fst (receiver_advance_to p nxt)) n' p' (delivered_indices d)"
    using 3(3-5) sh by (intro 3(1)) (simp_all add: shrinks_def)
  then show ?case by (rule delivers_once_shrinks [OF sh])
next
  case (4 n p os)
  have "delivers_once (Suc n) (receiver_clear p) n' p' (delivered_indices d)"
    using 4(3-5) receiver_clear_inv(1) [of p] by (intro 4(1)) (simp_all add: receiver_clear_def)
  then show ?case by (rule delivers_once_clear)
next
  case (5 n p start count os)
  obtain q r where c: "receiver_consume p start count = (q, r)" by force
  show ?case
  proof (cases r)
    case (Inl e)
    have "q = p" using c unfolding Inl by (rule receiver_consume_failed)
    then show ?thesis using 5(1) [OF c [symmetric] Inl] 5(3-6) c Inl by simp
  next
    case (Inr es)
    have go: "is_go_int count" using 5(4) by simp
    note a = receiver_consume_cases [OF 5(3) go c [unfolded Inr]]
    obtain d' where run: "receiver_run n q os = (n', p', d')" and d: "d = (n, unat start, es) # d'"
      using 5(6) c Inr by (auto split: prod.splits)
    have "delivers_once n q n' p' (delivered_indices d')"
      using 5(2) [OF c [symmetric] Inr a(1) _ _ run] 5(4,5) a(7) by simp
    from delivers_once_consume [OF 5(3) go c [unfolded Inr] this] show ?thesis by (simp add: d delivered_indices_def)
  qed
qed

end
