(* ===== verification/Pool_Properties.thy ===== *)
theory Pool_Properties
  imports Receiver_Pool
begin

text \<open>
  Properties of the two transfer pools over arbitrary sequences of their operations, and of
  the index arithmetic they share.
\<close>

section \<open>Sample transfers\<close>

definition sample_sots :: "nat \<Rightarrow> nat \<Rightarrow> SenderOT list" where
  "sample_sots start n = map (\<lambda>i. \<lparr>R0 = \<lparr>D0 = of_nat i, D1 = 1\<rparr>, R1 = \<lparr>D0 = of_nat i, D1 = 2\<rparr>,
     sIndex = of_nat (start + i)\<rparr>) [0..<n]"

definition sample_rots :: "nat \<Rightarrow> nat \<Rightarrow> ReceiverOT list" where
  "sample_rots start n = map (\<lambda>i. \<lparr>R = \<lparr>D0 = of_nat i, D1 = 1\<rparr>, rIndex = of_nat (start + i),
     Choice = False\<rparr>) [0..<n]"

section \<open>Sender pool\<close>

text \<open>C8. The sender pool hands every transfer out exactly once and in order: over any
  sequence of additions and reservations on a new pool, successful or refused, the
  reserved transfers followed by those still in the pool are the accepted ones.\<close>

theorem sender_pool_exactly_once:
  assumes run: "queue_run sender_add sender_reserve NewSenderPool ops = (p, added, reserved)"
    and size: "sum_list (map op_size ops) \<le> 2 ^ 62" and ok: "list_all op_ok ops"
  shows "added = reserved @ remaining p \<and> sender_inv p"
  using sq.exactly_once [OF NewSenderPool_inv(1) _ ok run] size NewSenderPool_inv(2)
  by (simp add: NewSenderPool_def)

theorem sender_pool_exactly_once_witness:
  "case queue_run sender_add sender_reserve NewSenderPool
      [QAdd (sample_sots 0 3), QReserve 2, QAdd (sample_sots 7 1), QReserve 2, QReserve 1]
   of (p, added, reserved) \<Rightarrow> added = reserved @ remaining p \<and> sender_inv p"
proof -
  let ?ops = "[QAdd (sample_sots 0 3), QReserve 2, QAdd (sample_sots 7 1), QReserve 2, QReserve 1]"
  obtain p added reserved where run: "queue_run sender_add sender_reserve NewSenderPool ?ops = (p, added, reserved)"
    by (cases "queue_run sender_add sender_reserve NewSenderPool ?ops") blast
  have "sum_list (map op_size ?ops) \<le> 2 ^ 62" "list_all op_ok ?ops"
    by (simp_all add: sample_sots_def is_go_int_def)
  from sender_pool_exactly_once [OF run this] show ?thesis unfolding run prod.case .
qed

text \<open>C27. On a pool that satisfies its invariant a reservation succeeds exactly for a
  positive count within the remaining transfers; it then returns the frontier index with
  that many transfers, which carry consecutive indices from the frontier, and wipes and
  advances past them. A refused reservation leaves the pool as it was.\<close>

theorem sender_reserve_exact:
  assumes inv: "sender_inv p" and go: "is_go_int count"
  shows "if 0 < count \<and> count \<le> int (length (remaining p))
    then \<exists>p'. sender_reserve p count = (p', Inr (sNext p, take (nat count) (remaining p))) \<and> sender_inv p' \<and>
      remaining p' = drop (nat count) (remaining p) \<and> sNext p' = sNext p + of_nat (nat count) \<and>
      consecutive (sNext p) (map sIndex (take (nat count) (remaining p)))
    else \<exists>e. sender_reserve p count = (p, Inl e)"
proof (cases "0 < count \<and> count \<le> int (length (remaining p))")
  case True
  obtain p' where r: "sender_reserve p count = (p', Inr (sNext p, take (nat count) (remaining p)))"
    "sender_inv p'" "remaining p' = drop (nat count) (remaining p)" "sNext p' = sNext p + of_nat (nat count)"
    by (rule sender_reserve_refines [OF inv conjunct1 [OF True] go conjunct2 [OF True]])
  have "consecutive (sNext p) (map sIndex (remaining p))" using inv by (simp add: sender_inv_def)
  from consecutive_take [OF this, of "nat count"]
  have "consecutive (sNext p) (map sIndex (take (nat count) (remaining p)))" by (simp only: take_map)
  then show ?thesis unfolding if_P [OF True] using r by blast
next
  case False
  have "\<exists>e. sender_reserve p count = (p, Inl e)"
  proof (cases "0 < count")
    case True
    with False show ?thesis by (intro sender_reserve_insufficient [OF inv go]) simp
  qed (simp add: sender_reserve_def)
  then show ?thesis unfolding if_not_P [OF False] .
qed

lemma sample_sender_pool:
  "\<exists>p. sender_add NewSenderPool (sample_sots 0 3) = (p, Inr ()) \<and> sender_inv p \<and> remaining p = sample_sots 0 3"
proof -
  have "consecutive 0 (map sIndex (sample_sots 0 3))" by (simp add: consecutive_def sample_sots_def)
  then have "sender_validate_add NewSenderPool (sample_sots 0 3) = Inr ()"
    using sender_validate_add_iff [OF NewSenderPool_inv(1), of "sample_sots 0 3"] NewSenderPool_inv(2)
    by (simp add: sample_sots_def NewSenderPool_def)
  then have add: "sender_add NewSenderPool (sample_sots 0 3) =
      (NewSenderPool\<lparr>sEntries := sEntries NewSenderPool @ sample_sots 0 3\<rparr>, Inr ())"
    by (simp add: sender_add_def)
  have "length (sEntries NewSenderPool) + length (sample_sots 0 3) \<le> 2 ^ 62"
    by (simp add: NewSenderPool_def sample_sots_def)
  from sender_add_refines [OF NewSenderPool_inv(1) this add] show ?thesis
    using add NewSenderPool_inv(2) by simp
qed

theorem sender_reserve_exact_witness:
  "\<exists>p p'. sender_inv p \<and> sender_reserve p 2 = (p', Inr (sNext p, take 2 (sample_sots 0 3))) \<and>
     remaining p' = drop 2 (sample_sots 0 3)"
proof -
  obtain p where p: "sender_inv p" "remaining p = sample_sots 0 3" using sample_sender_pool by blast
  have go: "is_go_int 2" by (simp add: is_go_int_def)
  show ?thesis
    using sender_reserve_exact [OF p(1) go] p by (auto simp: sample_sots_def)
qed

text \<open>C30. An extension claim has one owner: a claim that was issued and is no longer held,
  because it was released, invalidated or cleared away, never owns the pool again, and can
  neither be released nor clear the pool, whatever claims are issued later.\<close>

theorem stale_claim_powerless:
  assumes issued: "c < claimSupply p" and lost: "extendClaim p \<noteq> Some c"
  shows "\<not> sender_owns_claim (foldl claim_step p ops) (Some c) \<and>
    sender_release_claim (foldl claim_step p ops) (Some c) = (foldl claim_step p ops, False) \<and>
    sender_clear_for_extend_failure (foldl claim_step p ops) (Some c) = (foldl claim_step p ops, False)"
  using claim_run_owner [OF assms]
  by (simp add: sender_owns_claim_def sender_release_claim_def sender_clear_for_extend_failure_def)

theorem stale_claim_powerless_witness:
  "\<exists>p c p'. sender_claim_extend NewSenderPool = (p, Some c) \<and> sender_release_claim p (Some c) = (p', True) \<and>
     \<not> sender_owns_claim (foldl claim_step p' [CClaim, CInvalidate, CClaim]) (Some c)"
proof -
  let ?p = "NewSenderPool\<lparr>extendClaim := Some 0, claimSupply := 1\<rparr>"
  have c: "sender_claim_extend NewSenderPool = (?p, Some 0)"
    by (simp add: sender_claim_extend_def sender_total_def NewSenderPool_def OTPoolWatermark_def
        checkedIndexEnd_def Let_def)
  have r: "sender_release_claim ?p (Some 0) = (?p\<lparr>extendClaim := None\<rparr>, True)"
    by (simp add: sender_release_claim_def)
  have "0 < claimSupply (?p\<lparr>extendClaim := None\<rparr>)" "extendClaim (?p\<lparr>extendClaim := None\<rparr>) \<noteq> Some 0"
    by simp_all
  from stale_claim_powerless [OF this, of "[CClaim, CInvalidate, CClaim]"] c r show ?thesis by blast
qed

section \<open>Receiver pool\<close>

text \<open>C7. No transfer is delivered twice: over any sequence of additions, consumptions, resume
  advances and clears of a new receiver pool, no index is delivered twice within one life of the
  pool, where \<open>Clear\<close> ends a life because it restarts the index space at zero. What the current life
  has delivered is not consumable any more.\<close>

theorem receiver_never_replays:
  assumes run: "receiver_run 0 NewReceiverPool ops = (n, p, d)"
    and ok: "\<forall>oper \<in> set ops. receiver_op_ok oper" and size: "sum_list (map receiver_op_size ops) \<le> 2 ^ 62"
  shows "distinct (delivered_indices d) \<and>
    (\<forall>i. (n, i) \<in> set (delivered_indices d) \<longrightarrow> i \<notin> dom (unused p)) \<and> receiver_inv p"
  using receiver_run_once [OF NewReceiverPool_inv(1) ok _ run] size
  by (simp add: NewReceiverPool_def delivers_once_def)

theorem receiver_never_replays_witness:
  "case receiver_run 0 NewReceiverPool
      [RAdd (sample_rots 0 4), RConsume 2 2, RConsume 2 1, RConsume 0 2, RAdvance 4, RClear, RAdd (sample_rots 0 1),
       RConsume 0 1]
   of (n, p, d) \<Rightarrow> distinct (delivered_indices d) \<and>
     (\<forall>i. (n, i) \<in> set (delivered_indices d) \<longrightarrow> i \<notin> dom (unused p)) \<and> receiver_inv p"
proof -
  let ?ops = "[RAdd (sample_rots 0 4), RConsume 2 2, RConsume 2 1, RConsume 0 2, RAdvance 4, RClear,
    RAdd (sample_rots 0 1), RConsume 0 1]"
  obtain n p d where run: "receiver_run 0 NewReceiverPool ?ops = (n, p, d)"
    by (cases "receiver_run 0 NewReceiverPool ?ops") blast
  have "\<forall>oper \<in> set ?ops. receiver_op_ok oper" "sum_list (map receiver_op_size ?ops) \<le> 2 ^ 62"
    by (simp_all add: is_go_int_def sample_rots_def)
  from receiver_never_replays [OF run this] show ?thesis unfolding run prod.case .
qed

text \<open>C26. On a pool that satisfies its invariant, consumption of \<open>count\<close> transfers at
  \<open>start\<close> succeeds exactly when the range is not empty and holds unused transfers only; it
  delivers those transfers in index order, removes exactly that range from the unused map
  and keeps the end of the pool. A refused consumption changes nothing.\<close>

theorem receiver_consume_exact:
  assumes inv: "receiver_inv p" and go: "is_go_int count"
  shows "if 0 < count \<and> {unat start..<unat start + nat count} \<subseteq> dom (unused p)
    then \<exists>p' es. receiver_consume p start count = (p', Inr es) \<and> receiver_inv p' \<and>
      map Some es = map (unused p) [unat start..<unat start + nat count] \<and>
      unused p' = unused p |` (- {unat start..<unat start + nat count}) \<and> receiver_end p' = receiver_end p
    else \<exists>e. receiver_consume p start count = (p, Inl e)"
proof (cases "0 < count \<and> {unat start..<unat start + nat count} \<subseteq> dom (unused p)")
  case True
  then have "receiver_validate_consumable p start count = Inr ()"
    using receiver_validate_iff [OF inv go] by simp
  then obtain p' es where c: "receiver_consume p start count = (p', Inr es)"
    by (simp add: receiver_consume_def Let_def)
  note r = receiver_consume_cases [OF inv go c]
  show ?thesis unfolding if_P [OF True] using c r by blast
next
  case False
  then have "receiver_validate_consumable p start count \<noteq> Inr ()"
    using receiver_validate_iff [OF inv go] by simp
  then have "\<exists>e. receiver_consume p start count = (p, Inl e)"
    by (cases "receiver_validate_consumable p start count") (simp_all add: receiver_consume_def)
  then show ?thesis unfolding if_not_P [OF False] .
qed

lemma sample_receiver_pool:
  "\<exists>p. receiver_add NewReceiverPool (sample_rots 0 4) = (p, Inr ()) \<and> receiver_inv p \<and> dom (unused p) = {0..<4}"
proof -
  have "consecutive 0 (map rIndex (sample_rots 0 4))" by (simp add: consecutive_def sample_rots_def)
  then have "validateReceiverOTIndices (sample_rots 0 4) 0 = Inr ()"
    using validateReceiverOTIndices_Inr [of "sample_rots 0 4" 0 "()"] by (simp add: sample_rots_def)
  moreover have "length (sample_rots 0 4) = 4" by (simp add: sample_rots_def)
  ultimately obtain p where add: "receiver_add NewReceiverPool (sample_rots 0 4) = (p, Inr ())"
    by (simp add: receiver_add_def receiver_total_def NewReceiverPool_def checkedIndexEnd_def)
  have "length (rEntries NewReceiverPool) + length (sample_rots 0 4) \<le> 2 ^ 62"
    by (simp add: NewReceiverPool_def sample_rots_def)
  note a = receiver_add_cases [OF NewReceiverPool_inv(1) this add]
  have "receiver_end NewReceiverPool = 0" by (simp add: receiver_end_def NewReceiverPool_def)
  then have "dom (unused p) = {0..<4}"
    unfolding a(3) NewReceiverPool_inv(2) by (auto simp: sample_rots_def split: if_splits)
  with add a(1) show ?thesis by blast
qed

theorem receiver_consume_exact_witness:
  "\<exists>p p' es. receiver_inv p \<and> receiver_consume p 1 2 = (p', Inr es) \<and> dom (unused p') = {0, 3}"
proof -
  obtain p where p: "receiver_inv p" "dom (unused p) = {0..<4}" using sample_receiver_pool by blast
  have go: "is_go_int 2" by (simp add: is_go_int_def)
  have "{unat (1 :: u64)..<unat (1 :: u64) + nat 2} \<subseteq> dom (unused p)" using p by auto
  then obtain p' es where r: "receiver_consume p 1 2 = (p', Inr es)"
    "unused p' = unused p |` (- {unat (1 :: u64)..<unat (1 :: u64) + nat 2})"
    using receiver_consume_exact [OF p(1) go, of 1] by auto
  have "dom (unused p') = {0, 3}" unfolding r(2) dom_restrict p(2) by auto
  with p r(1) show ?thesis by blast
qed

section \<open>Shared helpers\<close>

text \<open>C37. Index arithmetic is exact: \<open>checkedIndexEnd\<close> returns the end of a range exactly
  when the count is not negative and the end fits in 64 bits, and then without wrap-around.\<close>

theorem checked_index_exact:
  assumes "is_go_int count"
  shows "checkedIndexEnd start count =
    (if count < 0 then Inl (Index NegativeOTCount)
     else if unat start + nat count < 2 ^ 64 then Inr (start + of_int count) else Inl (Index OTIndexOverflow)) \<and>
    (0 \<le> count \<and> unat start + nat count < 2 ^ 64 \<longrightarrow> unat (start + of_int count) = unat start + nat count)"
proof (cases "0 \<le> count \<and> unat start + nat count < 2 ^ 64")
  case True
  then have "checkedIndexEnd start count = Inr (start + of_int count)"
    using checkedIndexEnd_sum assms by blast
  with True checkedIndexEnd_Inr [OF assms, of start "start + of_int count"] show ?thesis by simp
next
  case False
  then have "checkedIndexEnd start count \<noteq> Inr e" for e using checkedIndexEnd_Inr [OF assms] by blast
  then have "\<not> count < 0 \<Longrightarrow> checkedIndexEnd start count = Inl (Index OTIndexOverflow)"
    unfolding checkedIndexEnd_def Let_def by (metis (no_types))
  with False show ?thesis by (cases "count < 0") (simp_all add: checkedIndexEnd_def)
qed

theorem checked_index_exact_witness:
  "is_go_int 5 \<and> checkedIndexEnd 18446744073709551611 5 = Inl (Index OTIndexOverflow) \<and>
   checkedIndexEnd 18446744073709551610 5 = Inr 18446744073709551615"
proof -
  have go: "is_go_int 5" by (simp add: is_go_int_def)
  have u: "unat (18446744073709551611 :: u64) = 18446744073709551611"
    "unat (18446744073709551610 :: u64) = 18446744073709551610" by simp_all
  have "checkedIndexEnd 18446744073709551611 5 = Inl (Index OTIndexOverflow)"
    using checked_index_exact [OF go, of 18446744073709551611] unfolding u by simp
  moreover have "checkedIndexEnd 18446744073709551610 5 = Inr (18446744073709551610 + of_int 5)"
    using checked_index_exact [OF go, of 18446744073709551610] unfolding u by simp
  moreover have "(18446744073709551610 :: u64) + of_int 5 = 18446744073709551615" by simp
  ultimately show ?thesis using go by metis
qed

text \<open>Growing a secret slice appends in place or moves to a larger array; after a move the
  abandoned array holds only zero values.\<close>

theorem wiped_growth:
  assumes "len dst \<le> length (backing dst)"
  shows "elems (fst (appendWithWipedGrowth z dst src)) = elems dst @ src \<and>
    (\<forall>old. snd (appendWithWipedGrowth z dst src) = Some old \<longrightarrow> set old \<subseteq> {z}) \<and>
    len (fst (appendWithWipedGrowth z dst src)) \<le> length (backing (fst (appendWithWipedGrowth z dst src)))"
proof (intro conjI allI impI)
  show "elems (fst (appendWithWipedGrowth z dst src)) = elems dst @ src"
    by (rule wiped_growth_elems(1) [OF assms])
  show "set old \<subseteq> {z}" if "snd (appendWithWipedGrowth z dst src) = Some old" for old
    unfolding wiped_growth_elems(2) [OF assms that] by (simp add: set_replicate_conv_if)
  show "len (fst (appendWithWipedGrowth z dst src)) \<le> length (backing (fst (appendWithWipedGrowth z dst src)))"
    using assms by (cases "length src \<le> length (backing dst) - len dst")
      (simp_all add: appendWithWipedGrowth_def elems_def Let_def)
qed

theorem wiped_growth_witness:
  "snd (appendWithWipedGrowth (0 :: nat) \<lparr>backing = [7, 8], len = 2\<rparr> [9]) = Some [0, 0] \<and>
   elems (fst (appendWithWipedGrowth (0 :: nat) \<lparr>backing = [7, 8], len = 2\<rparr> [9])) = [7, 8, 9]"
  using wiped_growth [of "\<lparr>backing = [7, 8], len = 2\<rparr>" "0 :: nat" "[9]"]
  by (simp add: appendWithWipedGrowth_def elems_def)

end
