(* ===== verification/Mpc_Pipeline.thy ===== *)
theory Mpc_Pipeline
  imports Base_Ot Online_Properties Pool_Properties
begin

text \<open>
  The components together: base transfers feed a correlated extension, the extension feeds
  both pools, and a range reserved from them feeds one run of the online phase.
\<close>

section \<open>Precomputation\<close>

definition precompute_batch ::
  "('s, 'b) co_api \<Rightarrow> bytes \<Rightarrow> bytes \<Rightarrow> bytes \<Rightarrow> bytes \<Rightarrow> bytes \<Rightarrow> bytes \<Rightarrow> u64 \<Rightarrow> int \<Rightarrow>
    mpc_error + SenderOT list \<times> ReceiverOT list" where
  "precompute_batch co baseRngS baseRngR rngR rngS epoch sid start count =
     bindE (base_ot_run co baseRngS baseRngR sid) (\<lambda>(cipherMessage, seeds, selected, d).
       kos_batch rngR rngS seeds selected d epoch cipherMessage sid start count)"

definition precompute_ready ::
  "('s, 'b) co_api \<Rightarrow> bytes \<Rightarrow> bytes \<Rightarrow> bytes \<Rightarrow> bytes \<Rightarrow> bytes \<Rightarrow> bytes \<Rightarrow> u64 \<Rightarrow> int \<Rightarrow> bool" where
  "precompute_ready co baseRngS baseRngR rngR rngS epoch sid start count \<longleftrightarrow>
     base_ready co baseRngS baseRngR sid \<and> validateExtensionEpoch epoch = Inr () \<and>
     0 < count \<and> count \<le> int maxExtensionOTs \<and> unat start + nat count < 2 ^ 64 \<and>
     nat count + 255 \<le> 8 * length rngR \<and> nat count + 255 \<le> 8 * length rngS"

lemma precompute_batch_run:
  assumes co: "co_correct co" and ready: "precompute_ready co baseRngS baseRngR rngR rngS epoch sid start count"
  obtains sots rots where
    "precompute_batch co baseRngS baseRngR rngR rngS epoch sid start count = Inr (sots, rots)"
    "length sots = nat count" "consecutive start (map sIndex sots)" "consecutive start (map rIndex rots)"
    "list_all2 ot_match sots rots"
proof -
  have "base_ready co baseRngS baseRngR sid" using ready by (simp add: precompute_ready_def)
  from base_ot_run_correct [OF co this] obtain cm seeds selected d where
    b: "base_ot_run co baseRngS baseRngR sid = Inr (cm, seeds, selected, d)" "d \<noteq> label_zero"
      "selects d seeds selected" "validateBaseCipherForTranscript cm sid = Inr ()" by blast
  have "batch_ready rngR rngS epoch cm sid start count"
    using ready b(4) by (simp add: precompute_ready_def batch_ready_def)
  from kos_batch_run [OF this b(2,3)] obtain sots rots where
    k: "kos_batch rngR rngS seeds selected d epoch cm sid start count = Inr (sots, rots)"
      "length sots = nat count" "consecutive start (map sIndex sots)" "consecutive start (map rIndex rots)"
      "list_all2 ot_match sots rots" by blast
  show ?thesis by (rule that [OF _ k(2-5)]) (simp add: precompute_batch_def b(1) k(1))
qed

section \<open>Matching pools\<close>

text \<open>The pools agree: same frontier and end, and the transfers still in the sender pool match
  the unused ones of the receiver pool index by index.\<close>

definition pools_match :: "SenderPool \<Rightarrow> ReceiverPool \<Rightarrow> bool" where
  "pools_match sp rp \<longleftrightarrow> sender_inv sp \<and> receiver_inv rp \<and> sNext sp = highWater rp \<and>
     unat (sNext sp) + length (remaining sp) = receiver_end rp \<and>
     (\<forall>k < length (remaining sp). \<exists>r. unused rp (unat (sNext sp) + k) = Some r \<and>
        rIndex r = sNext sp + of_nat k \<and> ot_match (remaining sp ! k) r)"

lemma pools_matchD:
  assumes "pools_match sp rp"
  shows "sender_inv sp" "receiver_inv rp" "sNext sp = highWater rp"
    "unat (sNext sp) + length (remaining sp) = receiver_end rp"
    "k < length (remaining sp) \<Longrightarrow> \<exists>r. unused rp (unat (sNext sp) + k) = Some r \<and>
        rIndex r = sNext sp + of_nat k \<and> ot_match (remaining sp ! k) r"
  using assms unfolding pools_match_def by blast+

lemma pools_match_new: "pools_match NewSenderPool NewReceiverPool"
  using NewSenderPool_inv NewReceiverPool_inv
  by (simp add: pools_match_def) (simp add: NewSenderPool_def NewReceiverPool_def receiver_end_def)

lemma pools_match_total:
  assumes "pools_match sp rp"
  shows "sender_total_count sp = receiver_total_count rp"
    "sender_total_count sp = sNext sp + of_nat (length (remaining sp))"
    "unat (sender_total_count sp) = receiver_end rp"
proof -
  note d = pools_matchD [OF assms]
  note s = sender_total_inv [OF d(1)] and r = receiver_total_inv [OF d(2)]
  show t: "sender_total_count sp = sNext sp + of_nat (length (remaining sp))"
    by (simp add: sender_total_count_def s(1))
  then show u: "unat (sender_total_count sp) = receiver_end rp" using s(2) d(4) by simp
  show "sender_total_count sp = receiver_total_count rp"
    using u r by (simp add: receiver_total_count_def word_unat_eq_iff)
qed

lemma pools_match_agreement: "pools_match sp rp \<Longrightarrow> ValidatePoolAgreement (Some sp) (Some rp) = Inr ()"
  using pools_match_total pools_matchD(3) by (simp add: ValidatePoolAgreement_def)

lemma pools_match_reserve:
  assumes m: "pools_match sp rp" and n: "0 < n" "n \<le> length (remaining sp)"
  obtains sp' rp' rots where
    "sender_reserve sp (int n) = (sp', Inr (sNext sp, take n (remaining sp)))"
    "receiver_consume rp (sNext sp) (int n) = (rp', Inr rots)" "pools_match sp' rp'"
    "list_all2 ot_match (take n (remaining sp)) rots" "remaining sp' = drop n (remaining sp)"
    "consecutive (sNext sp) (map sIndex (take n (remaining sp)))" "consecutive (sNext sp) (map rIndex rots)"
proof -
  note d = pools_matchD [OF m]
  let ?u = "unat (sNext sp)"
  have go: "is_go_int (int n)" using is_go_int_small sender_invD(6) [OF d(1)] n(2) by simp
  obtain sp' where s: "sender_reserve sp (int n) = (sp', Inr (sNext sp, take n (remaining sp)))"
    "sender_inv sp'" "remaining sp' = drop n (remaining sp)" "sNext sp' = sNext sp + of_nat n"
    by (rule sender_reserve_refines [OF d(1) _ go]) (use n in simp_all)
  have lt: "?u + n < 2 ^ 64" using sender_invD(5) [OF d(1)] n(2) by linarith
  then have un: "unat (sNext sp + of_nat k) = ?u + k" if "k \<le> n" for k
    using that by (simp add: unat_word_ariths unat_of_nat)
  have "{?u..<?u + n} \<subseteq> dom (unused rp)"
  proof
    fix i assume that: "i \<in> {?u..<?u + n}"
    have "i - ?u < length (remaining sp)" using that n(2) by auto
    from d(5) [OF this] that show "i \<in> dom (unused rp)" by auto
  qed
  then have "receiver_validate_consumable rp (sNext sp) (int n) = Inr ()"
    unfolding receiver_validate_iff [OF d(2) go] nat_int using n(1) by simp
  then obtain rp' rots where r: "receiver_consume rp (sNext sp) (int n) = (rp', Inr rots)"
    by (simp add: receiver_consume_def Let_def)
  note c = receiver_consume_cases [OF d(2) go r, unfolded nat_int]
  have len: "length rots = n" using arg_cong [OF c(3), of length] by simp
  have rot: "unused rp (?u + k) = Some (rots ! k)" if "k < n" for k
    using arg_cong [OF c(3), of "\<lambda>xs. xs ! k"] that len by simp
  have each: "rIndex (rots ! k) = sNext sp + of_nat k \<and> ot_match (remaining sp ! k) (rots ! k)" if "k < n" for k
    using d(5) [of k] rot [OF that] that n(2) by auto
  have "unat (highWater rp') = unat (sNext sp')"
    using c(6) d(3) s(4) un [of n] by simp
  then have hw: "sNext sp' = highWater rp'" by (simp add: word_unat_eq_iff)
  have rest: "\<exists>r. unused rp' (unat (sNext sp') + k) = Some r \<and> rIndex r = sNext sp' + of_nat k \<and>
      ot_match (remaining sp' ! k) r" if "k < length (remaining sp')" for k
    using d(5) [of "n + k"] that n(2) unfolding c(4) s(3) s(4) un [OF order_refl]
    by (auto simp: add.assoc restrict_map_def)
  have "unat (sNext sp') + length (remaining sp') = receiver_end rp'"
    using d(4) n(2) un [of n] unfolding c(5) s(3,4) by simp
  with s(2) c(1) hw rest have m': "pools_match sp' rp'" unfolding pools_match_def by blast
  have "list_all2 ot_match (take n (remaining sp)) rots"
    using each n(2) len by (simp add: list_all2_conv_all_nth)
  moreover have "consecutive (sNext sp) (map sIndex (take n (remaining sp)))"
    using d(1) consecutive_take [of "sNext sp" "map sIndex (remaining sp)" n]
    by (simp add: sender_inv_def take_map)
  moreover have "consecutive (sNext sp) (map rIndex rots)" using each lt len by (simp add: consecutive_def)
  ultimately show ?thesis using that [OF s(1) r m' _ s(3)] by blast
qed

lemma consecutive_total:
  assumes m: "pools_match sp rp" and c: "consecutive (sender_total_count sp) (map sIndex sots)"
  shows "consecutive (sNext sp) (map sIndex (remaining sp @ sots))"
  using c pools_matchD(1) [OF m] unfolding pools_match_total(2) [OF m] map_append consecutive_append
  by (simp add: sender_inv_def)

lemma pools_match_add:
  assumes m: "pools_match sp rp" and l: "list_all2 ot_match sots rots"
    and c: "consecutive (sender_total_count sp) (map sIndex sots)" "consecutive (sender_total_count sp) (map rIndex rots)"
    and fits: "length (sEntries sp) + length sots \<le> 2 ^ 62" "length (rEntries rp) + length rots \<le> 2 ^ 62"
  obtains sp' rp' where "sender_add sp sots = (sp', Inr ())" "receiver_add rp rots = (rp', Inr ())"
    "pools_match sp' rp'" "remaining sp' = remaining sp @ sots"
proof -
  note d = pools_matchD [OF m] and t = pools_match_total [OF m]
  have len: "length sots = length rots" using l by (rule list_all2_lengthD)
  have small: "length sots \<le> 2 ^ 62" "length rots \<le> 2 ^ 62" using fits by simp_all
  have "sender_validate_add sp sots = Inr ()"
    unfolding sender_validate_add_iff [OF d(1) small(1)] using consecutive_total [OF m c(1)] .
  then obtain sp' where s: "sender_add sp sots = (sp', Inr ())" by (simp add: sender_add_def)
  note s' = sender_add_refines [OF d(1) fits(1) s]
  have "checkedIndexEnd (receiver_total_count rp) (int (length rots)) =
      Inr (receiver_total_count rp + of_int (int (length rots)))"
    using checkedIndexEnd_sum [of "int (length rots)" "receiver_total_count rp"] is_go_int_small [OF small(2)] c(2)
    unfolding t(1) by (simp add: consecutive_def)
  moreover have "validateReceiverOTIndices rots (receiver_total_count rp) = Inr ()"
    unfolding validateReceiverOTIndices_Inr [OF small(2)] using c(2) t(1) by simp
  moreover have "receiver_total rp = Inr (receiver_total_count rp)"
    by (simp add: receiver_total_count_def receiver_total_inv(1) [OF d(2)])
  ultimately obtain rp' where r: "receiver_add rp rots = (rp', Inr ())" by (simp add: receiver_add_def)
  note r' = receiver_add_cases [OF d(2) fits(2) r]
  have ix: "rIndex (rots ! k) = sNext sp + of_nat (length (remaining sp) + k) \<and>
      ot_match (sots ! k) (rots ! k)" if "k < length sots" for k
    using that c(2) l len unfolding t(2) by (simp add: consecutive_def list_all2_conv_all_nth add.assoc)
  have "\<exists>r. unused rp' (unat (sNext sp') + k) = Some r \<and> rIndex r = sNext sp' + of_nat k \<and>
      ot_match (remaining sp' ! k) r" if k: "k < length (remaining sp')" for k
  proof (cases "k < length (remaining sp)")
    case True
    then have "unat (sNext sp) + k < receiver_end rp" using d(4) by linarith
    with True d(5) [OF True] show ?thesis unfolding r'(3) s'(2,3) by (auto simp: map_add_def nth_append)
  next
    case False
    define j where "j = k - length (remaining sp)"
    have j: "k = length (remaining sp) + j" "j < length sots" using False k s'(2) by (simp_all add: j_def)
    have e: "unat (sNext sp) + k = receiver_end rp + j" using j(1) d(4) by simp
    show ?thesis
      unfolding r'(3) s'(2,3) e using ix [OF j(2)] j len by (simp add: map_add_def nth_append)
  qed
  moreover have "unat (sNext sp') + length (remaining sp') = receiver_end rp'"
    using d(4) len unfolding r'(2) s'(2,3) by simp
  moreover have "sNext sp' = highWater rp'" using d(3) unfolding r'(4) s'(3) .
  ultimately have "pools_match sp' rp'" using s'(1) r'(1) unfolding pools_match_def by blast
  with that [OF s r _ s'(2)] show ?thesis by blast
qed

section \<open>Reachable pools\<close>

text \<open>
  The joint history of the two pools of an epoch: they start empty, grow by completed
  precomputations that continue at the sender's total count, and shrink by evaluations that
  take the range the sender reserved.
\<close>

inductive mpc_reach :: "('s, 'b) co_api \<Rightarrow> SenderPool \<Rightarrow> ReceiverPool \<Rightarrow> bool" for co where
  new_pools: "mpc_reach co NewSenderPool NewReceiverPool"
| fill: "mpc_reach co sp rp \<Longrightarrow> ValidatePrecomputeCount count = Inr () \<Longrightarrow>
    precompute_ready co baseRngS baseRngR rngR rngS epoch sid (sender_total_count sp) count \<Longrightarrow>
    precompute_batch co baseRngS baseRngR rngR rngS epoch sid (sender_total_count sp) count = Inr (sots, rots) \<Longrightarrow>
    length (sEntries sp) \<le> 2 ^ 61 \<Longrightarrow> length (rEntries rp) \<le> 2 ^ 61 \<Longrightarrow>
    sender_add sp sots = (sp', Inr ()) \<Longrightarrow> receiver_add rp rots = (rp', Inr ()) \<Longrightarrow> mpc_reach co sp' rp'"
| evaluation: "mpc_reach co sp rp \<Longrightarrow> sender_reserve sp (int InputBits) = (sp', Inr (start, sots)) \<Longrightarrow>
    receiver_consume rp start (int InputBits) = (rp', Inr rots) \<Longrightarrow> mpc_reach co sp' rp'"

lemma precompute_count_small: "ValidatePrecomputeCount count = Inr () \<Longrightarrow> nat count \<le> 100000"
  by (auto simp: ValidatePrecomputeCount_def MaxPrecomputeOTs_def OTPoolInitialSize_def split: if_splits)

lemma mpc_reach_match:
  assumes co: "co_correct co"
  shows "mpc_reach co sp rp \<Longrightarrow> pools_match sp rp"
proof (induction rule: mpc_reach.induct)
  case new_pools
  show ?case by (rule pools_match_new)
next
  case (fill sp rp count baseRngS baseRngR rngR rngS epoch sid sots rots sp' rp')
  obtain so ro where b: "precompute_batch co baseRngS baseRngR rngR rngS epoch sid (sender_total_count sp) count = Inr (so, ro)"
    "length so = nat count" "consecutive (sender_total_count sp) (map sIndex so)"
    "consecutive (sender_total_count sp) (map rIndex ro)" "list_all2 ot_match so ro"
    by (rule precompute_batch_run [OF co fill.hyps(3)])
  have e: "so = sots" "ro = rots" using b(1) fill.hyps(4) by simp_all
  have "length so \<le> 100000" "length ro \<le> 100000"
    using precompute_count_small [OF fill.hyps(2)] b(2) list_all2_lengthD [OF b(5)] by simp_all
  then have "length (sEntries sp) + length so \<le> 2 ^ 62" "length (rEntries rp) + length ro \<le> 2 ^ 62"
    using fill.hyps(5,6) by simp_all
  from pools_match_add [OF fill.IH b(5,3,4) this] show ?case
    using fill.hyps(7,8) unfolding e by (metis prod.inject)
next
  case (evaluation sp rp sp' start sots rp' rots)
  note d = pools_matchD(1) [OF evaluation.IH]
  have go: "is_go_int (int InputBits)" by (rule is_go_int_small) simp
  have n: "InputBits \<le> length (remaining sp)" "start = sNext sp"
    using sender_reserve_cases [OF d go evaluation.hyps(2)] by simp_all
  show ?case
    by (rule pools_match_reserve [OF evaluation.IH _ n(1)])
      (use evaluation.hyps(2,3) n(2) in auto)
qed

end
