(* ===== verification/Exchange_Frames.thy ===== *)
theory Exchange_Frames
  imports Mpc_Pipeline Precompute_Wire
begin

text \<open>
  The messages of one honest precomputation between the two services: every step of both
  protocols succeeds, every message has a frame, and the peer's decoder reads it back.
\<close>

section \<open>An honest run\<close>

record ('s, 'b) honest_run =
  hSS :: "'s BaseOTSenderState"
  hSetup :: bytes
  hRS :: "'b BaseOTReceiverState"
  hChoices :: bytes
  hCipher :: bytes
  hSeeds :: "BaseOTSeedPair list"
  hSelected :: "Label list"
  hDelta :: Label
  hRX :: ExtensionReceiverState
  hCom :: ExtensionCommitment
  hRots :: "ReceiverOT list"
  hSX :: ExtensionSenderState
  hCh :: ExtensionChallenge
  hProof :: ExtensionProof
  hSots :: "SenderOT list"

definition begin_of :: "bytes \<Rightarrow> u64 \<Rightarrow> int \<Rightarrow> bytes \<Rightarrow> PrecomputeBegin" where
  "begin_of sid start count epoch = \<lparr>bSessionID = sid, bStartIndex = start, bCount = of_int count, bEpoch = epoch\<rparr>"

text \<open>The steps of both parties, each on the other's messages, with its randomness.\<close>

definition run_steps ::
  "('s, 'b) co_api \<Rightarrow> bytes \<Rightarrow> bytes \<Rightarrow> bytes \<Rightarrow> bytes \<Rightarrow> bytes \<Rightarrow> bytes \<Rightarrow> u64 \<Rightarrow> int \<Rightarrow> ('s, 'b) honest_run \<Rightarrow> bool" where
  "run_steps co rS rR rngR rngS epoch sid start count h \<longleftrightarrow>
     (\<exists>r. StartBaseOTSender co (Some rS) sid = Inr (hSS h, hSetup h, r)) \<and>
     (\<exists>r. StartBaseOTReceiver co (Some rR) sid (hSetup h) = Inr (hRS h, hChoices h, r)) \<and>
     snd (FinishBaseOTSender co (Some (hSS h)) (hChoices h)) = Inr (hCipher h, hSeeds h) \<and>
     snd (FinishBaseOTReceiver co (Some (hRS h)) (hCipher h)) = Inr (hSelected h, hDelta h) \<and>
     (\<exists>r. StartExtensionReceiver (Some rngR) (hSeeds h) epoch (hCipher h) sid start count =
        Inr (hRX h, hCom h, hRots h, r)) \<and>
     (\<exists>r. StartExtensionSender (Some rngS) (hSelected h) (hDelta h) epoch (hCipher h) (Some (hCom h)) =
        Inr (hSX h, hCh h, r)) \<and>
     snd (FinishExtensionReceiver (Some (hRX h)) (Some (hCh h))) = Inr (hProof h) \<and>
     snd (FinishExtensionSender (Some (hSX h)) (Some (hProof h))) = Inr (hSots h)"

text \<open>Every message has a frame, and the frames decode to the messages.\<close>

definition run_frames :: "bytes \<Rightarrow> u64 \<Rightarrow> int \<Rightarrow> bytes \<Rightarrow> ('s, 'b) honest_run \<Rightarrow> bool" where
  "run_frames sid start count epoch h \<longleftrightarrow>
     (\<exists>f. MarshalPrecomputeBegin (begin_of sid start count epoch) = Inr f \<and>
        UnmarshalPrecomputeBegin f = Inr (begin_of sid start count epoch) \<and> PrecomputeRequestPhase f = PrecomputePhaseBegin) \<and>
     (\<exists>f. MarshalPrecomputeBaseSetup sid (hSetup h) = Inr f \<and> UnmarshalPrecomputeBaseSetup f sid = Inr (hSetup h)) \<and>
     (\<exists>f. MarshalPrecomputeBaseChoices sid (hChoices h) = Inr f \<and> UnmarshalPrecomputeBaseChoices f sid = Inr (hChoices h) \<and>
        PrecomputeRequestPhase f = PrecomputePhaseBaseChoices) \<and>
     (\<exists>f. MarshalPrecomputeCommitment (hCipher h) (Some (hCom h)) = Inr f \<and>
        UnmarshalPrecomputeCommitmentFor f (begin_of sid start count epoch) = Inr (hCipher h, hCom h)) \<and>
     (\<exists>f. MarshalExtensionChallenge (Some (hCh h)) = Inr f \<and> UnmarshalExtensionChallengeFor f sid count = Inr (hCh h) \<and>
        PrecomputeRequestPhase f = PrecomputePhaseChallenge) \<and>
     (\<exists>f. MarshalExtensionProof (Some (hProof h)) = Inr f \<and> UnmarshalExtensionProofFor f sid = Inr (hProof h))"

definition run_matches :: "u64 \<Rightarrow> int \<Rightarrow> ('s, 'b) honest_run \<Rightarrow> bool" where
  "run_matches start count h \<longleftrightarrow> length (hSots h) = nat count \<and> length (hRots h) = nat count \<and>
     consecutive start (map sIndex (hSots h)) \<and> consecutive start (map rIndex (hRots h)) \<and>
     list_all2 ot_match (hSots h) (hRots h)"

lemma honest_run_steps:
  assumes co: "co_correct co" and ready: "precompute_ready co rS rR rngR rngS epoch sid start count"
  obtains h where "run_steps co rS rR rngR rngS epoch sid start count h" "run_matches start count h"
    "batch_ready rngR rngS epoch (hCipher h) sid start count"
proof -
  have base: "base_ready co rS rR sid" using ready by (simp add: precompute_ready_def)
  from base_ot_run_correct [OF co base] obtain cm seeds selected d where
    b: "base_ot_run co rS rR sid = Inr (cm, seeds, selected, d)" "d \<noteq> label_zero"
      "selects d seeds selected" "validateBaseCipherForTranscript cm sid = Inr ()" by blast
  have br: "batch_ready rngR rngS epoch cm sid start count"
    using ready b(4) by (simp add: precompute_ready_def batch_ready_def)
  from kos_batch_run [OF br b(2,3)] obtain sots rots where
    k: "kos_batch rngR rngS seeds selected d epoch cm sid start count = Inr (sots, rots)"
      "length sots = nat count" "consecutive start (map sIndex sots)" "consecutive start (map rIndex rots)"
      "list_all2 ot_match sots rots" by blast
  obtain ss stp r1 rs choices r2 where s: "StartBaseOTSender co (Some rS) sid = Inr (ss, stp, r1)"
    "StartBaseOTReceiver co (Some rR) sid stp = Inr (rs, choices, r2)"
    "snd (FinishBaseOTSender co (Some ss) choices) = Inr (cm, seeds)"
    "snd (FinishBaseOTReceiver co (Some rs) cm) = Inr (selected, d)"
    using b(1) by (auto simp: base_ot_run_def)
  obtain rx com r3 sx ch r4 pf where e: "StartExtensionReceiver (Some rngR) seeds epoch cm sid start count = Inr (rx, com, rots, r3)"
    "StartExtensionSender (Some rngS) selected d epoch cm (Some com) = Inr (sx, ch, r4)"
    "snd (FinishExtensionReceiver (Some rx) (Some ch)) = Inr pf" "snd (FinishExtensionSender (Some sx) (Some pf)) = Inr sots"
    using k(1) by (auto simp: kos_batch_def)
  let ?h = "\<lparr>hSS = ss, hSetup = stp, hRS = rs, hChoices = choices, hCipher = cm, hSeeds = seeds, hSelected = selected,
      hDelta = d, hRX = rx, hCom = com, hRots = rots, hSX = sx, hCh = ch, hProof = pf, hSots = sots\<rparr>"
  show ?thesis
    by (rule that [of ?h])
      (use s e k br in \<open>simp_all add: run_steps_def run_matches_def list_all2_lengthD [symmetric]\<close>)
qed

lemma tags_differ: "ascii ''KBC2'' \<noteq> ascii ''KOB2''" "ascii ''KCH2'' \<noteq> ascii ''KOB2''" "ascii ''KCH2'' \<noteq> ascii ''KBC2''"
  by code_simp+

lemma slice_prefix: "length a = 4 \<Longrightarrow> slice (a @ xs) 0 4 = a"
  by (simp add: slice_def)

lemma begin_frame_ready:
  assumes "precompute_ready co rS rR rngR rngS epoch sid start count" "count \<le> int MaxPrecomputeOTs"
  shows "\<exists>f. MarshalPrecomputeBegin (begin_of sid start count epoch) = Inr f \<and>
    UnmarshalPrecomputeBegin f = Inr (begin_of sid start count epoch) \<and> PrecomputeRequestPhase f = PrecomputePhaseBegin"
proof -
  let ?b = "begin_of sid start count epoch"
  have r: "validateExtensionEpoch epoch = Inr ()" "0 < count" "count \<le> 16777216" "unat start + nat count < 2 ^ 64"
    "length sid = 32"
    using assms by (simp_all add: precompute_ready_def base_ready_def)
  obtain padded where pad: "extensionPaddedCount count = Inr padded" using extensionPaddedCount_ok [of count] r by auto
  have c: "int (unat (bCount ?b)) = count" using padded_words(1) [OF pad] r(2) by (simp add: begin_of_def)
  have "checkedIndexEnd start count = Inr (start + of_int count)"
    using r by (intro checkedIndexEnd_sum) (simp_all add: is_go_int_def)
  then obtain f where f: "MarshalPrecomputeBegin ?b = Inr f"
    "f = ascii ''KOB2'' @ bSessionID ?b @ be_put 8 (bStartIndex ?b) @ be_put 4 (bCount ?b) @
          be_put 2 (of_nat (length (bEpoch ?b)) :: u16) @ bEpoch ?b"
    using pad r(1) unfolding MarshalPrecomputeBegin_def c by (simp add: begin_of_def)
  moreover have "begin_shape ?b" using r(5) by (simp add: begin_shape_def begin_of_def)
  ultimately have "UnmarshalPrecomputeBegin f = Inr ?b" using begin_frame_iff by blast
  moreover have "PrecomputeRequestPhase f = PrecomputePhaseBegin" unfolding f(2) PrecomputeRequestPhase_def
    using slice_prefix [of "ascii ''KOB2''"] by simp
  ultimately show ?thesis using f(1) by blast
qed

lemma base_frames_ready:
  assumes sid: "length sid = 32"
    and s: "StartBaseOTSender co (Some rS) sid = Inr (ss, stp, r1)"
    and r: "StartBaseOTReceiver co (Some rR) sid stp = Inr (rs, choices, r2)"
    and f: "snd (FinishBaseOTSender co (Some ss) choices) = Inr x"
  shows "\<exists>f. MarshalPrecomputeBaseSetup sid stp = Inr f \<and> UnmarshalPrecomputeBaseSetup f sid = Inr stp"
    "\<exists>f. MarshalPrecomputeBaseChoices sid choices = Inr f \<and> UnmarshalPrecomputeBaseChoices f sid = Inr choices \<and>
       PrecomputeRequestPhase f = PrecomputePhaseBaseChoices"
proof -
  have l: "length stp = baseSetupMessageSize" "slice stp 0 4 = ascii ''BOS1''" "slice stp 4 36 = sid"
    using r by (auto simp: StartBaseOTReceiver_def split: if_splits)
  then have "MarshalPrecomputeBaseSetup sid stp = Inr (ascii ''KBS2'' @ sid @ stp)"
    by (simp add: MarshalPrecomputeBaseSetup_def marshal_nested_def)
  then show "\<exists>f. MarshalPrecomputeBaseSetup sid stp = Inr f \<and> UnmarshalPrecomputeBaseSetup f sid = Inr stp"
    using nested_frame_canonical [OF sid, of "''KBS2''" "''BOS1''" baseSetupMessageSize stp "ascii ''KBS2'' @ sid @ stp"]
    by (simp add: MarshalPrecomputeBaseSetup_def UnmarshalPrecomputeBaseSetup_def)
  have "length choices = baseChoiceMessageSize \<and> slice choices 0 4 = ascii ''BOC1'' \<and> slice choices 4 36 = bsSession ss"
    using f by (auto simp: FinishBaseOTSender_def split: if_splits)
  moreover have "bsSession ss = sid" using s by (auto simp: StartBaseOTSender_def split: option.splits)
  ultimately have m: "MarshalPrecomputeBaseChoices sid choices = Inr (ascii ''KBC2'' @ sid @ choices)"
    by (simp add: MarshalPrecomputeBaseChoices_def marshal_nested_def)
  then have "UnmarshalPrecomputeBaseChoices (ascii ''KBC2'' @ sid @ choices) sid = Inr choices"
    using nested_frame_canonical [OF sid, of "''KBC2''" "''BOC1''" baseChoiceMessageSize choices "ascii ''KBC2'' @ sid @ choices"]
    by (simp add: MarshalPrecomputeBaseChoices_def UnmarshalPrecomputeBaseChoices_def)
  moreover have "PrecomputeRequestPhase (ascii ''KBC2'' @ sid @ choices) = PrecomputePhaseBaseChoices"
    unfolding PrecomputeRequestPhase_def using slice_prefix [of "ascii ''KBC2''"] tags_differ by simp
  ultimately show "\<exists>f. MarshalPrecomputeBaseChoices sid choices = Inr f \<and> UnmarshalPrecomputeBaseChoices f sid = Inr choices \<and>
       PrecomputeRequestPhase f = PrecomputePhaseBaseChoices" using m by blast
qed

text \<open>The extension messages of an honest run, in closed form.\<close>

lemma extension_messages:
  assumes br: "batch_ready rngR rngS epoch cm sid start count" and d: "d \<noteq> label_zero"
    and pad: "extensionPaddedCount count = Inr padded"
    and r: "StartExtensionReceiver (Some rngR) seeds epoch cm sid start count = Inr (rx, com, rots, r3)"
    and s: "StartExtensionSender (Some rngS) selected d epoch cm (Some com) = Inr (sx, ch, r4)"
    and p: "snd (FinishExtensionReceiver (Some rx) (Some ch)) = Inr pf"
  shows "com = honest_commitment seeds epoch cm sid start count padded (take (padded div 8) rngR)"
    "ch = honest_challenge com (honest_chi rngS (extensionChallengeCount padded))"
    "prSessionID pf = sid" "prTranscript pf = chTranscript ch" "length (proofT pf) = BaseOTCount"
proof -
  let ?cs = "take (padded div 8) rngR"
  note start = honest_receiver_start(1) [OF br pad, of seeds] honest_receiver_start(2) [OF br pad]
  show com: "com = honest_commitment seeds epoch cm sid start count padded ?cs" using start(1) r by simp
  show ch: "ch = honest_challenge com (honest_chi rngS (extensionChallengeCount padded))"
    using honest_sender_start [OF br pad start(2) d, where base = seeds and selected = selected] s com by simp
  have rx: "rx = honest_receiver seeds com padded ?cs" using start(1) r com by simp
  have "unat (PaddedCount com) = padded"
    using padded_words(2) [OF pad] honest_commitment_fields(4) [of seeds epoch cm sid start count padded ?cs] com by simp
  then have "pf = \<lparr>prSessionID = cSessionID com, prTranscript = chTranscript ch,
         proofX = repetition_check ?cs ((padded - 128) div 8) (honest_chi rngS (extensionChallengeCount padded)),
         proofT = repetitionColumnChecks (receiver_matrix seeds (cSessionID com) (padded div 8)) padded
           (honest_chi rngS (extensionChallengeCount padded))\<rparr>"
    using honest_receiver_finish [of com padded "honest_chi rngS (extensionChallengeCount padded)" seeds ?cs] p rx ch
    by (simp add: honest_chi_def)
  moreover have "cSessionID com = sid" using honest_commitment_fields(1) com by simp
  ultimately show "prSessionID pf = sid" "prTranscript pf = chTranscript ch" "length (proofT pf) = BaseOTCount"
    by (simp_all add: repetitionColumnChecks_def Let_def)
qed

lemma commitment_frame_ready:
  assumes br: "batch_ready rngR rngS epoch cm sid start count" and sid: "length sid = 32"
    and m: "count \<le> int MaxPrecomputeOTs" and pad: "extensionPaddedCount count = Inr padded"
    and com: "com = honest_commitment seeds epoch cm sid start count padded (take (padded div 8) rngR)"
  shows "\<exists>f. MarshalPrecomputeCommitment cm (Some com) = Inr f \<and>
    UnmarshalPrecomputeCommitmentFor f (begin_of sid start count epoch) = Inr (cm, com)"
proof -
  note c = honest_commitment_fields [of seeds epoch cm sid start count padded "take (padded div 8) rngR", folded com]
    and w = padded_words [OF pad] and p = extensionPaddedCount_Inr [OF pad] and b = padded_bytes [OF pad]
  have cs: "length (take (padded div 8) rngR) = padded div 8" by (rule honest_receiver_start(2) [OF br pad])
  have cnt: "int (unat (cCount com)) = count" using w(1) p(1) by (simp add: c)
  have "checkedIndexEnd start count = Inr (start + of_int count)"
    using br p(1,2) by (intro checkedIndexEnd_sum) (simp_all add: batch_ready_def is_go_int_def)
  moreover have "length (matU com) = BaseOTCount * padded div 8"
    using cs b(3) by (simp add: c commitment_matrix_def Let_def length_concat comp_def sum_list_triv)
  ultimately obtain ext where ext: "MarshalExtensionCommitment (Some com) = Inr ext"
    using pad w(2) unfolding MarshalExtensionCommitment_def option.case cnt by (simp add: c)
  have v: "validateBaseCipherForTranscript cm sid = Inr ()" using br by (simp add: batch_ready_def)
  then obtain f where f: "MarshalPrecomputeCommitment cm (Some com) = Inr f"
    using ext by (simp add: MarshalPrecomputeCommitment_def c)
  have shape: "commitment_shape com"
    using sid by (simp add: commitment_shape_def com honest_commitment_def Let_def extensionEpochHash_def extensionTranscript_def)
  have "UnmarshalPrecomputeCommitment f = Inr (cm, com)" using precompute_commitment_canonical shape f by blast
  moreover have "unat (of_int count :: u32) \<le> MaxPrecomputeOTs" using w(1) m p(1) by simp
  ultimately have "UnmarshalPrecomputeCommitmentFor f (begin_of sid start count epoch) = Inr (cm, com)"
    unfolding commitment_for_iff by (simp add: begin_of_def c)
  then show ?thesis using f by blast
qed

lemma challenge_frame_ready:
  assumes pad: "extensionPaddedCount count = Inr padded" and m: "count \<le> int MaxPrecomputeOTs" and sid: "length sid = 32"
    and ch: "chSessionID ch = sid" "length (chCommitment ch) = 32" "chTranscript ch = extensionChallengeTranscript ch"
      "length (Chi ch) = extensionChallengeCount padded"
  shows "\<exists>f. MarshalExtensionChallenge (Some ch) = Inr f \<and> UnmarshalExtensionChallengeFor f sid count = Inr ch \<and>
    PrecomputeRequestPhase f = PrecomputePhaseChallenge"
proof -
  let ?f = "ascii ''KCH2'' @ chSessionID ch @ chCommitment ch @ chTranscript ch @
      be_put 4 (of_nat (length (Chi ch)) :: u32) @ encode_seq label_put (Chi ch)"
  note p = extensionPaddedCount_Inr [OF pad]
  obtain k where k: "padded = 128 * k" using p(3) by (auto simp: mod_eq_0_iff_dvd)
  have "2 \<le> k" using p(1,4) k by simp
  moreover have "length (Chi ch) = k - 1"
    using k ch(4) by (simp add: extensionChallengeCount_def diff_mult_distrib2 [symmetric])
  ultimately have n: "0 < length (Chi ch)" "length (Chi ch) \<le> 131072"
    using p(1,5) m k by (simp_all add: MaxPrecomputeOTs_def OTPoolInitialSize_def)
  have f: "MarshalExtensionChallenge (Some ch) = Inr ?f" using n ch(3) by (simp add: MarshalExtensionChallenge_def)
  have tr: "length (chTranscript ch) = 32" by (simp add: ch(3) extensionChallengeTranscript_def)
  then have u: "UnmarshalExtensionChallenge ?f = Inr ch"
    using challenge_frame_iff [of ch ?f] f n sid ch(1,2) by (simp add: challenge_shape_def)
  have sl: "slice ?f 0 4 = ascii ''KCH2''" "slice ?f 4 36 = sid" "slice ?f 100 104 = be_put 4 (of_nat (length (Chi ch)) :: u32)"
    "length ?f = 104 + extensionChallengeCount padded * 16"
    using sid ch(1,2,4) tr by (simp_all add: slice_def lc.length_encode)
  have "ValidatePrecomputeCount count = Inr ()" using p(1) m by (simp add: ValidatePrecomputeCount_def)
  then have "UnmarshalExtensionChallengeFor ?f sid count = Inr ch"
    unfolding UnmarshalExtensionChallengeFor_def PrecomputeChallengeWireSize_def sl
    using pad u ch(1,4) by (simp add: frame_sizes)
  moreover have "PrecomputeRequestPhase ?f = PrecomputePhaseChallenge"
    unfolding PrecomputeRequestPhase_def using slice_prefix [of "ascii ''KCH2''"] tags_differ by simp
  ultimately show ?thesis using f by blast
qed

lemma proof_frame_ready:
  assumes "length sid = 32" "prSessionID pf = sid" "length (prTranscript pf) = 32" "length (proofT pf) = BaseOTCount"
  shows "\<exists>f. MarshalExtensionProof (Some pf) = Inr f \<and> UnmarshalExtensionProofFor f sid = Inr pf"
proof -
  let ?f = "ascii ''KPR2'' @ prSessionID pf @ prTranscript pf @ label_put (proofX pf) @ encode_seq label_put (proofT pf)"
  have f: "MarshalExtensionProof (Some pf) = Inr ?f" by (simp add: MarshalExtensionProof_def)
  then have u: "UnmarshalExtensionProof ?f = Inr pf" using proof_frame_iff [of pf ?f] assms by (simp add: proof_shape_def)
  have "slice ?f 0 4 = ascii ''KPR2''" "slice ?f 4 36 = sid" "length ?f = extensionProofSize"
    using assms by (simp_all add: slice_def lc.length_encode frame_sizes)
  then have "UnmarshalExtensionProofFor ?f sid = Inr pf" using u by (simp add: UnmarshalExtensionProofFor_def)
  then show ?thesis using f by blast
qed

lemma honest_run_frames:
  assumes co: "co_correct co" and ready: "precompute_ready co rS rR rngR rngS epoch sid start count"
    and m: "count \<le> int MaxPrecomputeOTs"
  obtains h where "run_steps co rS rR rngR rngS epoch sid start count h" "run_frames sid start count epoch h"
    "run_matches start count h"
proof -
  obtain h where h: "run_steps co rS rR rngR rngS epoch sid start count h" "run_matches start count h"
    and br: "batch_ready rngR rngS epoch (hCipher h) sid start count" by (rule honest_run_steps [OF co ready])
  have sid: "length sid = 32" using ready by (simp add: precompute_ready_def base_ready_def)
  obtain padded where pad: "extensionPaddedCount count = Inr padded"
    using br extensionPaddedCount_ok [of count] by (auto simp: batch_ready_def)
  obtain r1 r2 r3 r4 where s: "StartBaseOTSender co (Some rS) sid = Inr (hSS h, hSetup h, r1)"
    "StartBaseOTReceiver co (Some rR) sid (hSetup h) = Inr (hRS h, hChoices h, r2)"
    "snd (FinishBaseOTSender co (Some (hSS h)) (hChoices h)) = Inr (hCipher h, hSeeds h)"
    "StartExtensionReceiver (Some rngR) (hSeeds h) epoch (hCipher h) sid start count = Inr (hRX h, hCom h, hRots h, r3)"
    "StartExtensionSender (Some rngS) (hSelected h) (hDelta h) epoch (hCipher h) (Some (hCom h)) = Inr (hSX h, hCh h, r4)"
    "snd (FinishExtensionReceiver (Some (hRX h)) (Some (hCh h))) = Inr (hProof h)"
    using h(1) unfolding run_steps_def by blast
  have d: "hDelta h \<noteq> label_zero" using s(5) by (auto simp: StartExtensionSender_def split: if_splits)
  note e = extension_messages [OF br d pad s(4,5,6)]
  note c = honest_commitment_fields(1) [of "hSeeds h" epoch "hCipher h" sid start count padded "take (padded div 8) rngR", folded e(1)]
  have tr: "length (cTranscript (hCom h)) = 32" unfolding e(1) by (simp add: honest_commitment_def Let_def extensionTranscript_def)
  have ch: "chSessionID (hCh h) = sid" "length (chCommitment (hCh h)) = 32" "chTranscript (hCh h) = extensionChallengeTranscript (hCh h)"
    "length (Chi (hCh h)) = extensionChallengeCount padded"
    unfolding e(2) using c tr by (simp_all add: honest_challenge_def Let_def extensionChallengeTranscript_def honest_chi_def)
  have "run_frames sid start count epoch h"
    unfolding run_frames_def
    using begin_frame_ready [OF ready m] base_frames_ready [OF sid s(1,2,3)] commitment_frame_ready [OF br sid m pad e(1)]
      challenge_frame_ready [OF pad m sid ch] proof_frame_ready [OF sid e(3) _ e(5)] e(4) ch(3)
    by (simp add: extensionChallengeTranscript_def)
  then show ?thesis using that h by blast
qed

end
