(* ===== verification/Tee_T_Receiver.thy ===== *)
theory Tee_T_Receiver
  imports Base_Ot Receiver_Pool "HOL-Library.AList"
begin

text \<open>
  The receiver side of the precomputation protocol, \<open>tee_t/ot_precompute.go\<close>, with the part
  of the control connection it depends on, \<open>tee_t/connection_manager.go\<close>.

  Go pointers that are compared or shared (receiver states, pending batches, base-transfer
  and extension states) are numbers into explicit stores. A handler is a sequence of atomic
  sections: what it does under the control lease and the receiver-state mutex is one
  section, and the computation between two sections works on objects only that handler
  uses. Each handler is given whole, as the composition of its sections, and the sections
  are what the interleaving semantics of the next theory schedules. The randomness a
  handler reads and whether a network write succeeded are arguments.
\<close>

section \<open>State\<close>

datatype tee_error =
    Mpc mpc_error | ControlSuperseded | UnknownRequestPhase | MetadataMismatch | PoolNotReady
  | PrecomputeInProgress | StartIndexMismatch | EpochMismatch | StateChanged | UnexpectedMessage
  | GenerationMismatch | UnexpectedPhase | PoolTotalMismatch | StateNotInitialized | WaitCanceled
  | BatchNotCommitted | SendFailed

abbreviation liftMpc :: "mpc_error + 'a \<Rightarrow> tee_error + 'a" where
  "liftMpc r \<equiv> (case r of Inl e \<Rightarrow> Inl (Mpc e) | Inr x \<Rightarrow> Inr x)"

datatype receiverPrecomputePhase =
    AwaitBaseChoices | ProcessingChoices | AwaitChallenge | ProcessingChallenge | AwaitComplete

datatype receiverPrecomputeOutcome = InProgress | Committed | Aborted

text \<open>\<open>rpClosed\<close> counts how often the batch's \<open>done\<close> channel was closed; closing a channel
  twice panics.\<close>

record receiverPrecompute =
  rpBegin :: PrecomputeBegin
  rpInitial :: bool
  rpGeneration :: u64
  rpBase :: "nat option"
  rpExtension :: "nat option"
  rpEntries :: "ReceiverOT list"
  rpPhase :: receiverPrecomputePhase
  rpOutcome :: receiverPrecomputeOutcome
  rpClosed :: nat

record OTReceiverState =
  rPool :: ReceiverPool
  rReady :: bool
  rEpoch :: bytes
  rPending :: "nat option"

record OTPrecomputeRequest =
  rqCount :: u32
  rqSetup :: bytes
  rqInitial :: bool
  rqEpoch :: bytes

text \<open>Sessions and connections are compared by pointer identity; \<open>scConn\<close> identifies the
  session connection and \<open>scSession\<close> is the session it was bound to on publication.\<close>

record SessionTEEKConnection =
  scSessionID :: bytes
  scGeneration :: u64
  scSession :: "nat option"
  scConn :: nat

record controlSessionOwner =
  ownerGeneration :: u64
  ownerSession :: nat

record 's teet =
  controlConn :: "nat option"
  controlGeneration :: u64
  sessionConns :: "(bytes \<times> SessionTEEKConnection) list"
  sessionOwners :: "(bytes \<times> controlSessionOwner) list"
  attestationVerified :: bool
  pairID :: bytes
  teekConnected :: bool
  controlHealthy :: bool
  otReady :: bool
  otReceiverState :: "nat option"
  rStates :: "nat \<rightharpoonup> OTReceiverState"
  rPends :: "nat \<rightharpoonup> receiverPrecompute"
  rBases :: "nat \<rightharpoonup> 's BaseOTSenderState"
  rExts :: "nat \<rightharpoonup> ExtensionReceiverState"
  allocated :: nat

definition NewOTReceiverState :: OTReceiverState where
  "NewOTReceiverState = \<lparr>rPool = NewReceiverPool, rReady = False, rEpoch = [], rPending = None\<rparr>"

text \<open>Updates of one stored object.\<close>

definition onState :: "nat \<Rightarrow> (OTReceiverState \<Rightarrow> OTReceiverState) \<Rightarrow> 's teet \<Rightarrow> 's teet" where
  "onState s f t = t\<lparr>rStates := (rStates t)(s := map_option f (rStates t s))\<rparr>"

definition onPend :: "nat \<Rightarrow> (receiverPrecompute \<Rightarrow> receiverPrecompute) \<Rightarrow> 's teet \<Rightarrow> 's teet" where
  "onPend p f t = t\<lparr>rPends := (rPends t)(p := map_option f (rPends t p))\<rparr>"

text \<open>\<open>Destroy\<close> on a nil pointer does nothing.\<close>

definition destroyBase :: "nat option \<Rightarrow> 's teet \<Rightarrow> 's teet" where
  "destroyBase bo t = (case bo of None \<Rightarrow> t
     | Some b \<Rightarrow> t\<lparr>rBases := (rBases t)(b := map_option base_sender_destroy (rBases t b))\<rparr>)"

definition destroyExt :: "nat option \<Rightarrow> 's teet \<Rightarrow> 's teet" where
  "destroyExt eo t = (case eo of None \<Rightarrow> t
     | Some e \<Rightarrow> t\<lparr>rExts := (rExts t)(e := map_option extension_receiver_destroy (rExts t e))\<rparr>)"

section \<open>The end of a batch\<close>

definition destroyIdleReceiverPrecompute :: "nat \<Rightarrow> 's teet \<Rightarrow> 's teet" where
  "destroyIdleReceiverPrecompute p t =
     (case rPends t p of
        None \<Rightarrow> t
      | Some r \<Rightarrow>
          let t1 = (if rpPhase r \<noteq> ProcessingChoices
                    then onPend p (\<lambda>r. r\<lparr>rpBase := None\<rparr>) (destroyBase (rpBase r) t) else t);
              t2 = (if rpPhase r \<noteq> ProcessingChallenge
                    then onPend p (\<lambda>r. r\<lparr>rpExtension := None\<rparr>) (destroyExt (rpExtension r) t1) else t1)
          in onPend p (\<lambda>r. r\<lparr>rpEntries := []\<rparr>) t2)"

definition finishReceiverPrecompute ::
  "nat option \<Rightarrow> receiverPrecomputeOutcome \<Rightarrow> 's teet \<Rightarrow> 's teet" where
  "finishReceiverPrecompute po outcome t =
     (case po of
        None \<Rightarrow> t
      | Some p \<Rightarrow>
          (case rPends t p of
             None \<Rightarrow> t
           | Some r \<Rightarrow>
               if rpOutcome r \<noteq> InProgress then t
               else onPend p (\<lambda>r. r\<lparr>rpClosed := rpClosed r + 1\<rparr>)
                 (destroyIdleReceiverPrecompute p (onPend p (\<lambda>r. r\<lparr>rpOutcome := outcome\<rparr>) t))))"

definition clearPendingReceiverPrecompute :: "nat \<Rightarrow> nat \<Rightarrow> 's teet \<Rightarrow> 's teet" where
  "clearPendingReceiverPrecompute s p t =
     (if otReceiverState t = Some s \<and> (case rStates t s of None \<Rightarrow> False | Some st \<Rightarrow> rPending st = Some p)
      then onState s (\<lambda>st. st\<lparr>rPending := None\<rparr>) (finishReceiverPrecompute (Some p) Aborted t)
      else t)"

definition clearOTReceiverPool :: "'s teet \<Rightarrow> 's teet" where
  "clearOTReceiverPool t =
     (let t1 = (case otReceiverState t of
          None \<Rightarrow> t
        | Some s \<Rightarrow>
            (case rStates t s of
               None \<Rightarrow> t
             | Some st \<Rightarrow>
                 onState s (\<lambda>st. st\<lparr>rPool := receiver_clear (rPool st), rPending := None, rReady := False\<rparr>)
                   (finishReceiverPrecompute (rPending st) Aborted t)))
      in t1\<lparr>otReady := False\<rparr>)"

definition suspendOTReceiverPoolForReconnect :: "'s teet \<Rightarrow> 's teet" where
  "suspendOTReceiverPoolForReconnect t =
     (case otReceiverState t of
        None \<Rightarrow> clearOTReceiverPool t
      | Some s \<Rightarrow>
          (case rStates t s of
             None \<Rightarrow> t
           | Some st \<Rightarrow>
               let t1 = onState s (\<lambda>st. st\<lparr>rPending := None\<rparr>) (finishReceiverPrecompute (rPending st) Aborted t)
               in if rReady st then t1 else clearOTReceiverPool t1))"

section \<open>Control connection\<close>

definition isCurrentControlConnection :: "nat \<Rightarrow> u64 \<Rightarrow> 's teet \<Rightarrow> bool" where
  "isCurrentControlConnection conn gen t \<longleftrightarrow> controlConn t = Some conn \<and> controlGeneration t = gen"

text \<open>A lease runs a mutation while its identity is current: \<open>withCurrentControlState\<close> is
  the lease of \<open>isCurrentControlConnection\<close>.\<close>

definition lease ::
  "('s teet \<Rightarrow> bool) \<Rightarrow> ('s teet \<Rightarrow> 's teet \<times> (tee_error + 'a)) \<Rightarrow> 's teet \<Rightarrow> 's teet \<times> (tee_error + 'a)" where
  "lease current mutate t = (if current t then mutate t else (t, Inl ControlSuperseded))"

text \<open>
  Activation and teardown drop the session owners and connections of the generation they
  end. They return the connections to close and the sessions to clean up; \<open>live\<close> is the
  session manager's answer to \<open>isCurrentControlSession\<close>. The new connection is a fresh
  object, numbered from the allocation count.
\<close>

definition owners_of :: "u64 \<Rightarrow> (nat \<Rightarrow> u64 \<Rightarrow> bool) \<Rightarrow> 's teet \<Rightarrow> nat list" where
  "owners_of gen live t =
     map ownerSession (filter (\<lambda>ow. ownerGeneration ow = gen \<and> live (ownerSession ow) gen) (map snd (sessionOwners t)))"

definition conns_of :: "u64 \<Rightarrow> 's teet \<Rightarrow> SessionTEEKConnection list" where
  "conns_of gen t = filter (\<lambda>c. scGeneration c = gen) (map snd (sessionConns t))"

definition drop_generation :: "u64 \<Rightarrow> 's teet \<Rightarrow> 's teet" where
  "drop_generation gen t =
     t\<lparr>sessionOwners := filter (\<lambda>(_, ow). ownerGeneration ow \<noteq> gen) (sessionOwners t),
       sessionConns := filter (\<lambda>(_, c). scGeneration c \<noteq> gen) (sessionConns t)\<rparr>"

definition activateControlConnection ::
  "(nat \<Rightarrow> u64 \<Rightarrow> bool) \<Rightarrow> 's teet \<Rightarrow>
    's teet \<times> u64 \<times> nat \<times> nat option \<times> SessionTEEKConnection list \<times> nat list" where
  "activateControlConnection live t =
     (let conn = allocated t; prev = controlGeneration t;
          (t1, ctl, cs, os) = (case controlConn t of
             None \<Rightarrow> (t, None, [], [])
           | Some c \<Rightarrow>
               (suspendOTReceiverPoolForReconnect (drop_generation prev t), Some c, conns_of prev t, owners_of prev live t));
          gen = prev + 1
      in (t1\<lparr>controlGeneration := gen, controlConn := Some conn, attestationVerified := False,
             teekConnected := False, controlHealthy := False, otReady := False, allocated := Suc conn\<rparr>,
          gen, conn, ctl, cs, os))"

definition tearDownControlConnection ::
  "(nat \<Rightarrow> u64 \<Rightarrow> bool) \<Rightarrow> nat \<Rightarrow> u64 \<Rightarrow> 's teet \<Rightarrow> 's teet \<times> SessionTEEKConnection list \<times> nat list" where
  "tearDownControlConnection live conn gen t =
     (if \<not> isCurrentControlConnection conn gen t then (t, [], [])
      else (suspendOTReceiverPoolForReconnect
              ((drop_generation gen t)\<lparr>controlConn := None, attestationVerified := False,
                 teekConnected := False, controlHealthy := False\<rparr>),
            conns_of gen t, owners_of gen live t))"

definition completeControlAttestationForPair ::
  "(nat \<Rightarrow> u64 \<Rightarrow> bool) \<Rightarrow> bool \<Rightarrow> nat \<Rightarrow> u64 \<Rightarrow> bytes \<Rightarrow> 's teet \<Rightarrow> 's teet \<times> (tee_error + unit)" where
  "completeControlAttestationForPair live sent conn gen pid t =
     (if \<not> sent then (fst (tearDownControlConnection live conn gen t), Inl SendFailed)
      else if \<not> isCurrentControlConnection conn gen t then (t, Inl ControlSuperseded)
      else (t\<lparr>attestationVerified := True, teekConnected := True, controlHealthy := True,
              pairID := (if pid \<noteq> [] then pid else pairID t)\<rparr>, Inr ()))"

section \<open>The first request: begin\<close>

definition begin_check :: "unit + mark_circuit option \<Rightarrow> OTPrecomputeRequest \<Rightarrow> tee_error + PrecomputeBegin" where
  "begin_check compiled m =
     bindE (liftMpc (UnmarshalPrecomputeBegin (rqSetup m))) (\<lambda>b.
     bindE (liftMpc (ValidatePrecomputeCount (int (unat (bCount b))))) (\<lambda>_.
     bindE (liftMpc (checkedIndexEnd (bStartIndex b) (int (unat (bCount b))))) (\<lambda>_.
       if bCount b \<noteq> rqCount m \<or> bEpoch b \<noteq> rqEpoch m then Inl MetadataMismatch
       else bindE (liftMpc (Initialize compiled)) (\<lambda>_. Inr b))))"

definition begin_reset :: "bytes \<Rightarrow> 's teet \<Rightarrow> 's teet" where
  "begin_reset epoch t =
     (let t1 = (case otReceiverState t of
          None \<Rightarrow> t
        | Some s \<Rightarrow>
            (case rStates t s of
               None \<Rightarrow> t
             | Some st \<Rightarrow>
                 onState s (\<lambda>st. st\<lparr>rPending := None, rReady := False\<rparr>)
                   (finishReceiverPrecompute (rPending st) Aborted
                     (onState s (\<lambda>st. st\<lparr>rPool := receiver_clear (rPool st)\<rparr>) t))));
          s' = allocated t1
      in t1\<lparr>otReceiverState := Some s', rStates := (rStates t1)(s' \<mapsto> NewOTReceiverState\<lparr>rEpoch := epoch\<rparr>),
           allocated := Suc s'\<rparr>)"

definition begin_claim ::
  "('s teet \<Rightarrow> bool) \<Rightarrow> OTPrecomputeRequest \<Rightarrow> PrecomputeBegin \<Rightarrow> 's teet \<Rightarrow> 's teet \<times> (tee_error + nat)" where
  "begin_claim current m b = lease current (\<lambda>t.
     let t1 = (if rqInitial m then begin_reset (rqEpoch m) t else t) in
     case otReceiverState t1 of
       None \<Rightarrow> (t1, Inl PoolNotReady)
     | Some s \<Rightarrow>
         (case rStates t1 s of
            None \<Rightarrow> (t1, Inl PoolNotReady)
          | Some st \<Rightarrow>
              if \<not> rqInitial m \<and> \<not> rReady st then (t1, Inl PoolNotReady)
              else if rPending st \<noteq> None then (t1, Inl PrecomputeInProgress)
              else if bStartIndex b \<noteq> receiver_total_count (rPool st) then (t1, Inl StartIndexMismatch)
              else if \<not> rqInitial m \<and> rqEpoch m \<noteq> rEpoch st then (t1, Inl EpochMismatch)
              else (t1, Inr s)))"

text \<open>The base-transfer state is stored when it is created and destroyed again when the batch
  cannot be published.\<close>

definition newBase :: "'s BaseOTSenderState \<Rightarrow> 's teet \<Rightarrow> 's teet \<times> nat" where
  "newBase ss t = (t\<lparr>rBases := (rBases t)(allocated t \<mapsto> ss), allocated := Suc (allocated t)\<rparr>, allocated t)"

definition begin_publish ::
  "('s teet \<Rightarrow> bool) \<Rightarrow> u64 \<Rightarrow> OTPrecomputeRequest \<Rightarrow> PrecomputeBegin \<Rightarrow> nat \<Rightarrow> nat \<Rightarrow> 's teet \<Rightarrow>
    's teet \<times> (tee_error + nat)" where
  "begin_publish current gen m b s base t =
     (case lease current (\<lambda>t.
        if otReceiverState t \<noteq> Some s then (t, Inl StateChanged)
        else case rStates t s of
          None \<Rightarrow> (t, Inl StateChanged)
        | Some st \<Rightarrow>
            if rPending st \<noteq> None then (t, Inl StateChanged)
            else let p = allocated t in
              (onState s (\<lambda>st. st\<lparr>rPending := Some p\<rparr>)
                (t\<lparr>rPends := (rPends t)(p \<mapsto> \<lparr>rpBegin = b, rpInitial = rqInitial m, rpGeneration = gen,
                     rpBase = Some base, rpExtension = None, rpEntries = [], rpPhase = AwaitBaseChoices,
                     rpOutcome = InProgress, rpClosed = 0\<rparr>), allocated := Suc p\<rparr>), Inr p)) t of
        (t', Inl e) \<Rightarrow> (destroyBase (Some base) t', Inl e)
      | (t', Inr p) \<Rightarrow> (t', Inr p))"

definition handleOTPrecomputeBegin ::
  "('s, 'b) co_api \<Rightarrow> unit + mark_circuit option \<Rightarrow> bytes \<Rightarrow> bool \<Rightarrow> nat \<Rightarrow> u64 \<Rightarrow> OTPrecomputeRequest \<Rightarrow> 's teet \<Rightarrow>
    's teet \<times> (tee_error + bytes)" where
  "handleOTPrecomputeBegin co compiled rng sent conn gen m t =
     (case begin_check compiled m of
        Inl e \<Rightarrow> (t, Inl e)
      | Inr b \<Rightarrow>
     (case begin_claim (isCurrentControlConnection conn gen) m b t of
        (t1, Inl e) \<Rightarrow> (t1, Inl e)
      | (t1, Inr s) \<Rightarrow>
     (case StartBaseOTSender co (Some rng) (bSessionID b) of
        Inl e \<Rightarrow> (t1, Inl (Mpc e))
      | Inr (ss, setupMessage, _) \<Rightarrow>
     (case newBase ss t1 of (t2, base) \<Rightarrow>
     (case begin_publish (isCurrentControlConnection conn gen) gen m b s base t2 of
        (t3, Inl e) \<Rightarrow> (t3, Inl e)
      | (t3, Inr p) \<Rightarrow>
     (case MarshalPrecomputeBaseSetup (bSessionID b) setupMessage of
        Inl e \<Rightarrow> (clearPendingReceiverPrecompute s p t3, Inl (Mpc e))
      | Inr frame \<Rightarrow>
          if sent then (t3, Inr frame) else (clearPendingReceiverPrecompute s p t3, Inl SendFailed)))))))"

section \<open>The second request: base choices\<close>

definition pending_of :: "'s teet \<Rightarrow> (nat \<times> OTReceiverState \<times> nat \<times> receiverPrecompute) option" where
  "pending_of t =
     (case otReceiverState t of
        None \<Rightarrow> None
      | Some s \<Rightarrow>
          (case rStates t s of
             None \<Rightarrow> None
           | Some st \<Rightarrow>
               (case rPending st of
                  None \<Rightarrow> None
                | Some p \<Rightarrow> (case rPends t p of None \<Rightarrow> None | Some r \<Rightarrow> Some (s, st, p, r)))))"

definition choices_claim ::
  "('s teet \<Rightarrow> bool) \<Rightarrow> u64 \<Rightarrow> OTPrecomputeRequest \<Rightarrow> 's teet \<Rightarrow> 's teet \<times> (tee_error + nat \<times> nat \<times> nat option)" where
  "choices_claim current gen m = lease current (\<lambda>t.
     case pending_of t of
       None \<Rightarrow> (t, Inl UnexpectedMessage)
     | Some (s, st, p, r) \<Rightarrow>
         if rpGeneration r \<noteq> gen then (t, Inl GenerationMismatch)
         else if rqCount m \<noteq> bCount (rpBegin r) \<or> rqInitial m \<noteq> rpInitial r \<or> rqEpoch m \<noteq> rEpoch st
         then (t, Inl MetadataMismatch)
         else if rpPhase r \<noteq> AwaitBaseChoices then (t, Inl UnexpectedPhase)
         else (onPend p (\<lambda>r. r\<lparr>rpPhase := ProcessingChoices\<rparr>) t, Inr (s, p, rpBase r)))"

definition newExt :: "ExtensionReceiverState \<Rightarrow> 's teet \<Rightarrow> 's teet \<times> nat" where
  "newExt es t = (t\<lparr>rExts := (rExts t)(allocated t \<mapsto> es), allocated := Suc (allocated t)\<rparr>, allocated t)"

text \<open>The computation of the commitment works on the batch's base state, which is consumed and
  destroyed, and creates the extension state; a marshalling failure destroys it again.\<close>

definition choices_compute ::
  "('s, 'b) co_api \<Rightarrow> bytes \<Rightarrow> OTPrecomputeRequest \<Rightarrow> nat \<Rightarrow> nat \<Rightarrow> nat option \<Rightarrow> 's teet \<Rightarrow>
    's teet \<times> (tee_error + nat \<times> ReceiverOT list \<times> bytes)" where
  "choices_compute co rng m s p base t =
     (case (rStates t s, rPends t p) of
        (Some st, Some r) \<Rightarrow>
          (let b = rpBegin r in
           case UnmarshalPrecomputeBaseChoices (rqSetup m) (bSessionID b) of
             Inl e \<Rightarrow> (destroyBase base t, Inl (Mpc e))
           | Inr choiceMessage \<Rightarrow>
               (case FinishBaseOTSender co (Option.bind base (rBases t)) choiceMessage of
                  (_, Inl e) \<Rightarrow> (destroyBase base t, Inl (Mpc e))
                | (_, Inr (cipherMessage, basePairs)) \<Rightarrow>
                    (case StartExtensionReceiver (Some rng) basePairs (rEpoch st) cipherMessage (bSessionID b)
                            (bStartIndex b) (int (unat (bCount b))) of
                       Inl e \<Rightarrow> (destroyBase base t, Inl (Mpc e))
                     | Inr (es, commitment, entries, _) \<Rightarrow>
                         (case newExt es (destroyBase base t) of
                            (t1, ext) \<Rightarrow>
                              (case MarshalPrecomputeCommitment cipherMessage (Some commitment) of
                                 Inl e \<Rightarrow> (destroyExt (Some ext) t1, Inl (Mpc e))
                               | Inr frame \<Rightarrow> (t1, Inr (ext, entries, frame)))))))
      | _ \<Rightarrow> (t, Inl StateChanged))"

definition choices_publish ::
  "('s teet \<Rightarrow> bool) \<Rightarrow> u64 \<Rightarrow> nat \<Rightarrow> nat \<Rightarrow> nat \<Rightarrow> ReceiverOT list \<Rightarrow> 's teet \<Rightarrow> 's teet \<times> (tee_error + unit)" where
  "choices_publish current gen s p ext entries t =
     (case lease current (\<lambda>t.
        case pending_of t of
          None \<Rightarrow> (t, Inl StateChanged)
        | Some (s', st, p', r) \<Rightarrow>
            if s' \<noteq> s \<or> p' \<noteq> p \<or> rpGeneration r \<noteq> gen \<or> rpPhase r \<noteq> ProcessingChoices
            then (t, Inl StateChanged)
            else (onPend p (\<lambda>r. r\<lparr>rpExtension := Some ext, rpEntries := entries, rpPhase := AwaitChallenge\<rparr>) t,
                  Inr ())) t of
        (t', Inl e) \<Rightarrow> (destroyExt (Some ext) t', Inl e)
      | (t', Inr u) \<Rightarrow> (t', Inr u))"

definition handleOTPrecomputeChoices ::
  "('s, 'b) co_api \<Rightarrow> bytes \<Rightarrow> bool \<Rightarrow> nat \<Rightarrow> u64 \<Rightarrow> OTPrecomputeRequest \<Rightarrow> 's teet \<Rightarrow>
    's teet \<times> (tee_error + bytes)" where
  "handleOTPrecomputeChoices co rng sent conn gen m t =
     (case choices_claim (isCurrentControlConnection conn gen) gen m t of
        (t1, Inl e) \<Rightarrow> (t1, Inl e)
      | (t1, Inr (s, p, base)) \<Rightarrow>
     (case choices_compute co rng m s p base t1 of
        (t2, Inl e) \<Rightarrow> (clearPendingReceiverPrecompute s p t2, Inl e)
      | (t2, Inr (ext, entries, frame)) \<Rightarrow>
     (case choices_publish (isCurrentControlConnection conn gen) gen s p ext entries t2 of
        (t3, Inl e) \<Rightarrow> (t3, Inl e)
      | (t3, Inr _) \<Rightarrow>
          if sent then (t3, Inr frame) else (clearPendingReceiverPrecompute s p t3, Inl SendFailed))))"

section \<open>The third request: challenge\<close>

definition challenge_claim ::
  "('s teet \<Rightarrow> bool) \<Rightarrow> u64 \<Rightarrow> OTPrecomputeRequest \<Rightarrow> 's teet \<Rightarrow> 's teet \<times> (tee_error + nat \<times> nat \<times> nat)" where
  "challenge_claim current gen m = lease current (\<lambda>t.
     case pending_of t of
       None \<Rightarrow> (t, Inl UnexpectedMessage)
     | Some (s, st, p, r) \<Rightarrow>
         if rpGeneration r \<noteq> gen \<or> rqCount m \<noteq> bCount (rpBegin r) \<or> rqInitial m \<noteq> rpInitial r \<or>
            rqEpoch m \<noteq> rEpoch st
         then (t, Inl MetadataMismatch)
         else if rpPhase r \<noteq> AwaitChallenge \<or> rpEntries r = [] then (t, Inl UnexpectedPhase)
         else case rpExtension r of
           None \<Rightarrow> (t, Inl UnexpectedPhase)
         | Some e \<Rightarrow> (onPend p (\<lambda>r. r\<lparr>rpPhase := ProcessingChallenge\<rparr>) t, Inr (s, p, e)))"

definition challenge_compute ::
  "OTPrecomputeRequest \<Rightarrow> nat \<Rightarrow> nat \<Rightarrow> 's teet \<Rightarrow> 's teet \<times> (tee_error + bytes)" where
  "challenge_compute m p ext t =
     (destroyExt (Some ext) t,
      (case rPends t p of
         None \<Rightarrow> Inl StateChanged
       | Some r \<Rightarrow>
           bindE (liftMpc (UnmarshalExtensionChallengeFor (rqSetup m) (bSessionID (rpBegin r))
                    (int (unat (bCount (rpBegin r)))))) (\<lambda>challenge.
           bindE (liftMpc (snd (FinishExtensionReceiver (rExts t ext) (Some challenge)))) (\<lambda>prf.
             liftMpc (MarshalExtensionProof (Some prf))))))"

definition challenge_publish ::
  "('s teet \<Rightarrow> bool) \<Rightarrow> u64 \<Rightarrow> nat \<Rightarrow> nat \<Rightarrow> 's teet \<Rightarrow> 's teet \<times> (tee_error + unit)" where
  "challenge_publish current gen s p = lease current (\<lambda>t.
     case pending_of t of
       None \<Rightarrow> (t, Inl StateChanged)
     | Some (s', st, p', r) \<Rightarrow>
         if s' \<noteq> s \<or> p' \<noteq> p \<or> rpGeneration r \<noteq> gen \<or> rpPhase r \<noteq> ProcessingChallenge
         then (t, Inl StateChanged)
         else (onPend p (\<lambda>r. r\<lparr>rpPhase := AwaitComplete\<rparr>) t, Inr ()))"

definition handleOTPrecomputeChallenge ::
  "bool \<Rightarrow> nat \<Rightarrow> u64 \<Rightarrow> OTPrecomputeRequest \<Rightarrow> 's teet \<Rightarrow> 's teet \<times> (tee_error + bytes)" where
  "handleOTPrecomputeChallenge sent conn gen m t =
     (case challenge_claim (isCurrentControlConnection conn gen) gen m t of
        (t1, Inl e) \<Rightarrow> (t1, Inl e)
      | (t1, Inr (s, p, ext)) \<Rightarrow>
     (case challenge_compute m p ext t1 of
        (t2, Inl e) \<Rightarrow> (clearPendingReceiverPrecompute s p t2, Inl e)
      | (t2, Inr frame) \<Rightarrow>
     (case challenge_publish (isCurrentControlConnection conn gen) gen s p t2 of
        (t3, Inl e) \<Rightarrow> (t3, Inl e)
      | (t3, Inr _) \<Rightarrow>
          if sent then (t3, Inr frame) else (clearPendingReceiverPrecompute s p t3, Inl SendFailed))))"

definition handleOTPrecomputeRequest ::
  "('s, 'b) co_api \<Rightarrow> unit + mark_circuit option \<Rightarrow> bytes \<Rightarrow> bool \<Rightarrow> nat \<Rightarrow> u64 \<Rightarrow> OTPrecomputeRequest \<Rightarrow>
    's teet \<Rightarrow> 's teet \<times> (tee_error + bytes)" where
  "handleOTPrecomputeRequest co compiled rng sent conn gen m t =
     (case PrecomputeRequestPhase (rqSetup m) of
        PrecomputePhaseBegin \<Rightarrow> handleOTPrecomputeBegin co compiled rng sent conn gen m t
      | PrecomputePhaseBaseChoices \<Rightarrow> handleOTPrecomputeChoices co rng sent conn gen m t
      | PrecomputePhaseChallenge \<Rightarrow> handleOTPrecomputeChallenge sent conn gen m t
      | _ \<Rightarrow> (t, Inl UnknownRequestPhase))"

section \<open>Completion\<close>

definition handleOTPrecomputeComplete ::
  "('s teet \<Rightarrow> bool) \<Rightarrow> u64 \<Rightarrow> u64 \<Rightarrow> 's teet \<Rightarrow> 's teet \<times> (tee_error + unit)" where
  "handleOTPrecomputeComplete current gen poolSize = lease current (\<lambda>t.
     case pending_of t of
       None \<Rightarrow> (t, Inl UnexpectedMessage)
     | Some (s, st, p, r) \<Rightarrow>
         if rpEntries r = [] then (t, Inl UnexpectedMessage)
         else if rpGeneration r \<noteq> gen then (t, Inl GenerationMismatch)
         else if rpPhase r \<noteq> AwaitComplete then (t, Inl UnexpectedPhase)
         else case checkedIndexEnd (receiver_total_count (rPool st)) (int (length (rpEntries r))) of
           Inl e \<Rightarrow> (t, Inl (Mpc e))
         | Inr expectedTotal \<Rightarrow>
             if poolSize \<noteq> expectedTotal then (t, Inl PoolTotalMismatch)
             else case receiver_add (rPool st) (rpEntries r) of
               (_, Inl e) \<Rightarrow> (t, Inl (Mpc e))
             | (pool, Inr _) \<Rightarrow>
                 let t1 = onPend p (\<lambda>r. r\<lparr>rpEntries := []\<rparr>) t;
                     t2 = onState s (\<lambda>st. st\<lparr>rPool := pool, rEpoch := ExtensionEpoch (bSessionID (rpBegin r)),
                                           rPending := None, rReady := True\<rparr>) t1
                 in (finishReceiverPrecompute (Some p) Committed (t2\<lparr>otReady := True\<rparr>), Inr ()))"

definition isOTReceiverPoolReady :: "'s teet \<Rightarrow> bool" where
  "isOTReceiverPoolReady t =
     (case otReceiverState t of None \<Rightarrow> False
      | Some s \<Rightarrow> (case rStates t s of None \<Rightarrow> False | Some st \<Rightarrow> rReady st))"

section \<open>Consumption\<close>

definition pendingReceiverCompletionForRange ::
  "OTReceiverState \<Rightarrow> (nat \<rightharpoonup> receiverPrecompute) \<Rightarrow> u64 \<Rightarrow> int \<Rightarrow> tee_error + nat option" where
  "pendingReceiverCompletionForRange st pends startIndex count =
     (if count \<le> 0 then Inr None
      else case checkedIndexEnd startIndex count of
        Inl _ \<Rightarrow> Inr None
      | Inr e \<Rightarrow>
          let committedTotal = receiver_total_count (rPool st) in
          if e \<le> committedTotal then Inr None
          else case rPending st of
            None \<Rightarrow> Inr None
          | Some p \<Rightarrow>
              (case pends p of
                 None \<Rightarrow> Inr None
               | Some r \<Rightarrow>
                   if rpEntries r = [] \<or> bStartIndex (rpBegin r) \<noteq> committedTotal then Inr None
                   else case checkedIndexEnd (bStartIndex (rpBegin r)) (int (length (rpEntries r))) of
                     Inl _ \<Rightarrow> Inr None
                   | Inr pendingEnd \<Rightarrow>
                       if startIndex > pendingEnd \<or> e > pendingEnd then Inr None
                       else if startIndex < committedTotal
                       then bindE (liftMpc (receiver_validate_consumable (rPool st) startIndex
                              (int (unat (committedTotal - startIndex))))) (\<lambda>_. Inr (Some p))
                       else Inr (Some p)))"

text \<open>The first section either delivers the transfers or binds the request to the state and the
  batch it has to wait for; the second one delivers them after the batch was committed.\<close>

definition consume_claim ::
  "('s teet \<Rightarrow> bool) \<Rightarrow> u64 \<Rightarrow> int \<Rightarrow> 's teet \<Rightarrow> 's teet \<times> (tee_error + ReceiverOT list + nat \<times> nat)" where
  "consume_claim current startIndex count = lease current (\<lambda>t.
     case otReceiverState t of
       None \<Rightarrow> (t, Inl StateNotInitialized)
     | Some s \<Rightarrow>
         (case rStates t s of
            None \<Rightarrow> (t, Inl StateNotInitialized)
          | Some st \<Rightarrow>
              (case pendingReceiverCompletionForRange st (rPends t) startIndex count of
                 Inl e \<Rightarrow> (t, Inl e)
               | Inr (Some p) \<Rightarrow> (t, Inr (Inr (s, p)))
               | Inr None \<Rightarrow>
                   if \<not> rReady st then (t, Inl PoolNotReady)
                   else case receiver_consume (rPool st) startIndex count of
                     (pool, Inl e) \<Rightarrow> (onState s (\<lambda>st. st\<lparr>rPool := pool\<rparr>) t, Inl (Mpc e))
                   | (pool, Inr entries) \<Rightarrow> (onState s (\<lambda>st. st\<lparr>rPool := pool\<rparr>) t, Inr (Inl entries)))))"

definition consume_commit ::
  "('s teet \<Rightarrow> bool) \<Rightarrow> nat \<Rightarrow> nat \<Rightarrow> u64 \<Rightarrow> int \<Rightarrow> 's teet \<Rightarrow> 's teet \<times> (tee_error + ReceiverOT list)" where
  "consume_commit current s p startIndex count = lease current (\<lambda>t.
     if otReceiverState t \<noteq> Some s then (t, Inl StateChanged)
     else case (rStates t s, rPends t p) of
       (Some st, Some r) \<Rightarrow>
         if rpOutcome r \<noteq> Committed then (t, Inl BatchNotCommitted)
         else (case receiver_consume (rPool st) startIndex count of
                 (pool, Inl e) \<Rightarrow> (onState s (\<lambda>st. st\<lparr>rPool := pool\<rparr>) t, Inl (Mpc e))
               | (pool, Inr entries) \<Rightarrow> (onState s (\<lambda>st. st\<lparr>rPool := pool\<rparr>) t, Inr entries))
     | _ \<Rightarrow> (t, Inl StateChanged))"

text \<open>While the request waits, other handlers run: \<open>wait\<close> maps the state before the wait to
  the state after it and says whether the batch ended before the request was cancelled.\<close>

definition consumeOTReceiverEntriesWithWaitAndLease ::
  "('s teet \<Rightarrow> bool) \<Rightarrow> (nat \<Rightarrow> 's teet \<Rightarrow> 's teet \<times> bool) \<Rightarrow> u64 \<Rightarrow> int \<Rightarrow> 's teet \<Rightarrow>
    's teet \<times> (tee_error + ReceiverOT list)" where
  "consumeOTReceiverEntriesWithWaitAndLease current wait startIndex count t =
     (case consume_claim current startIndex count t of
        (t1, Inl e) \<Rightarrow> (t1, Inl e)
      | (t1, Inr (Inl entries)) \<Rightarrow> (t1, Inr entries)
      | (t1, Inr (Inr (s, p))) \<Rightarrow>
          (case wait p t1 of
             (t2, False) \<Rightarrow> (t2, Inl WaitCanceled)
           | (t2, True) \<Rightarrow> consume_commit current s p startIndex count t2))"

section \<open>Resume\<close>

definition resumeOTPool :: "bytes \<Rightarrow> u64 \<Rightarrow> 's teet \<Rightarrow> 's teet \<times> bool" where
  "resumeOTPool epoch nextIndex t =
     (if \<not> IsCurrentExtensionEpoch epoch then (t, False)
      else case otReceiverState t of
        None \<Rightarrow> (t, False)
      | Some s \<Rightarrow>
          (case rStates t s of
             None \<Rightarrow> (t, False)
           | Some st \<Rightarrow>
               if \<not> rReady st \<or> rPending st \<noteq> None \<or> rEpoch st = [] \<or> rEpoch st \<noteq> epoch then (t, False)
               else case receiver_advance_to (rPool st) nextIndex of
                 (pool, Inl _) \<Rightarrow> (onState s (\<lambda>st. st\<lparr>rPool := pool\<rparr>) t, False)
               | (pool, Inr _) \<Rightarrow> (onState s (\<lambda>st. st\<lparr>rPool := pool\<rparr>) t, True)))"

definition handleOTResumeRequest ::
  "('s teet \<Rightarrow> bool) \<Rightarrow> bytes \<Rightarrow> u64 \<Rightarrow> 's teet \<Rightarrow> 's teet \<times> (tee_error + bool)" where
  "handleOTResumeRequest current epoch nextIndex = lease current (\<lambda>t.
     case resumeOTPool epoch nextIndex t of
       (t1, accepted) \<Rightarrow> (if accepted then t1\<lparr>otReady := True\<rparr> else t1, Inr accepted))"

definition newTEET :: "'s teet" where
  "newTEET = \<lparr>controlConn = None, controlGeneration = 0, sessionConns = [], sessionOwners = [],
     attestationVerified = False, pairID = [], teekConnected = False, controlHealthy = False, otReady = False,
     otReceiverState = None, rStates = Map.empty, rPends = Map.empty, rBases = Map.empty, rExts = Map.empty,
     allocated = 0\<rparr>"

end
