(* ===== verification/Tee_K_Sender.thy ===== *)
theory Tee_K_Sender
  imports Tee_T_Receiver
begin

text \<open>
  The sender side of the precomputation protocol, \<open>tee_k/ot_precompute.go\<close>, with the parts
  of \<open>tee_k/connection_manager.go\<close> and \<open>tee_k/session_manager.go\<close> it depends on.

  The conventions are those of the receiver side: shared objects are numbers into explicit
  stores, what happens under the manager's and the state's lock is one section, and each
  operation is given whole as the composition of its sections. The randomness, the outcome
  of every network write and what other handlers do while an operation waits are arguments.
  The synchronization hooks that only tests set are absent.
\<close>

section \<open>State\<close>

datatype teek_error =
    KMpc mpc_error | NoOwnershipClaim | InitialWithClaim | NoControlConnection | AttestationNotVerified
  | ControlChanged | NoSenderPool | PrecomputeBusy | SenderPoolNotReady | ClaimLost | SenderStateChanged
  | FrontierChanged | SenderStateMissing | UnexpectedResponse | SupersededResponse | CountMismatched
  | SenderUnexpectedPhase | SenderWriteFailed | PrecomputeTimedOut | InvalidCompletionBatch
  | OwnershipChanged | IdentityIncomplete | SessionSuperseded | ReservationExists | RefillCallbackNil
  | PrecomputeAborted | PrecomputeInterrupted | RefillPending | UnsupportedEpoch | ResumePending
  | ResumeTimedOut | UnexpectedResume | SampleEpochFailed

abbreviation liftK :: "mpc_error + 'a \<Rightarrow> teek_error + 'a" where
  "liftK r \<equiv> (case r of Inl e \<Rightarrow> Inl (KMpc e) | Inr x \<Rightarrow> Inr x)"

datatype senderPrecomputePhase =
    SAwaitBaseSetup | SAwaitCommitment | SProcessingCommitment | SAwaitProof | SProcessingProof

text \<open>\<open>spDone\<close> is the buffered channel of capacity one: the first signal stays, later ones are
  dropped.\<close>

record senderPrecompute =
  spSession :: bytes
  spCount :: int
  spStartIndex :: u64
  spInitial :: bool
  spBase :: "nat option"
  spExtension :: "nat option"
  spPhase :: senderPrecomputePhase
  spDone :: "(teek_error + unit) option"
  spConn :: nat
  spGeneration :: u64
  spClaim :: "nat option"

text \<open>Tokens are compared by pointer identity in the resume handshake and as session owners;
  \<open>tkId\<close> is that identity.\<close>

record controlConnectionToken =
  tkId :: nat
  tkConn :: nat
  tkGeneration :: u64
  tkSession :: "nat option"

record OTPrecomputeState =
  kPool :: SenderPool
  kReady :: bool
  kInconsistent :: bool
  kEpoch :: bytes
  kResumeChan :: "(nat \<times> u64 \<times> bool) option"
  kResumePending :: "controlConnectionToken option"
  kPending :: "nat option"

record SessionTEETConnection =
  kcId :: nat
  kcSessionID :: bytes
  kcSession :: "nat option"
  kcControlConn :: "nat option"
  kcGeneration :: u64
  kcOwner :: "nat option"
  kcConn :: "nat option"

record senderOTReservation =
  rvId :: nat
  rvStart :: u64
  rvConn :: nat
  rvGeneration :: u64

text \<open>Of a session's state the reservations and the session it is bound to.\<close>

record TEEKSessionState =
  ksSession :: nat
  OTReservations :: "int \<rightharpoonup> senderOTReservation"

text \<open>\<open>closedConns\<close> lists the connections the service closed; \<open>kSessions\<close> is the session
  manager's table.\<close>

record 'b teek =
  kControlConn :: "nat option"
  kControlGeneration :: u64
  kAttested :: bool
  kTeetAttested :: bool
  kControlHealthy :: bool
  kOtReady :: bool
  kOtState :: "nat option"
  kStates :: "nat \<rightharpoonup> OTPrecomputeState"
  kPends :: "nat \<rightharpoonup> senderPrecompute"
  kBases :: "nat \<rightharpoonup> 'b BaseOTReceiverState"
  kExts :: "nat \<rightharpoonup> ExtensionSenderState"
  kSessions :: "bytes \<rightharpoonup> nat"
  kSessionConns :: "(bytes \<times> SessionTEETConnection) list"
  kAcknowledged :: "(bytes \<times> controlConnectionToken) list"
  kSessionStates :: "nat \<rightharpoonup> TEEKSessionState"
  closedConns :: "nat list"
  kAllocated :: nat

definition OTPoolExtendSize :: nat where "OTPoolExtendSize = 50000"
definition OTsPerOPRF :: nat where "OTsPerOPRF = InputBits"

definition NewOTPrecomputeState :: OTPrecomputeState where
  "NewOTPrecomputeState =
     \<lparr>kPool = NewSenderPool, kReady = False, kInconsistent = False, kEpoch = [], kResumeChan = None,
      kResumePending = None, kPending = None\<rparr>"

definition onKState :: "nat \<Rightarrow> (OTPrecomputeState \<Rightarrow> OTPrecomputeState) \<Rightarrow> 'b teek \<Rightarrow> 'b teek" where
  "onKState s f t = t\<lparr>kStates := (kStates t)(s := map_option f (kStates t s))\<rparr>"

definition onKPend :: "nat \<Rightarrow> (senderPrecompute \<Rightarrow> senderPrecompute) \<Rightarrow> 'b teek \<Rightarrow> 'b teek" where
  "onKPend p f t = t\<lparr>kPends := (kPends t)(p := map_option f (kPends t p))\<rparr>"

definition destroyKBase :: "nat option \<Rightarrow> 'b teek \<Rightarrow> 'b teek" where
  "destroyKBase bo t = (case bo of None \<Rightarrow> t
     | Some b \<Rightarrow> t\<lparr>kBases := (kBases t)(b := map_option base_receiver_destroy (kBases t b))\<rparr>)"

definition destroyKExt :: "nat option \<Rightarrow> 'b teek \<Rightarrow> 'b teek" where
  "destroyKExt eo t = (case eo of None \<Rightarrow> t
     | Some e \<Rightarrow> t\<lparr>kExts := (kExts t)(e := map_option extension_sender_destroy (kExts t e))\<rparr>)"

definition closeConn :: "nat \<Rightarrow> 'b teek \<Rightarrow> 'b teek" where
  "closeConn c t = t\<lparr>closedConns := closedConns t @ [c]\<rparr>"

section \<open>Control connection and readiness\<close>

definition isCurrentControl :: "nat \<Rightarrow> u64 \<Rightarrow> 'b teek \<Rightarrow> bool" where
  "isCurrentControl conn gen t \<longleftrightarrow> kControlConn t = Some conn \<and> kControlGeneration t = gen"

definition currentAttestedControlToken :: "'b teek \<Rightarrow> 'b teek \<times> (teek_error + controlConnectionToken)" where
  "currentAttestedControlToken t =
     (case kControlConn t of
        None \<Rightarrow> (t, Inl NoControlConnection)
      | Some c \<Rightarrow>
          if \<not> kAttested t then (t, Inl AttestationNotVerified)
          else (t\<lparr>kAllocated := Suc (kAllocated t)\<rparr>,
                Inr \<lparr>tkId = kAllocated t, tkConn = c, tkGeneration = kControlGeneration t, tkSession = None\<rparr>))"

definition otPoolUsableLocked :: "OTPrecomputeState \<Rightarrow> bool" where
  "otPoolUsableLocked st \<longleftrightarrow> kReady st \<and> \<not> kInconsistent st \<and> OTsPerOPRF \<le> sender_available (kPool st)"

definition publishOTReadyLocked :: "nat \<Rightarrow> 'b teek \<Rightarrow> 'b teek" where
  "publishOTReadyLocked s t =
     t\<lparr>kOtReady := (case kStates t s of None \<Rightarrow> False | Some st \<Rightarrow> otPoolUsableLocked st)\<rparr>"

definition isOTPoolReady :: "'b teek \<Rightarrow> bool" where
  "isOTPoolReady t =
     (case kOtState t of None \<Rightarrow> False
      | Some s \<Rightarrow> (case kStates t s of None \<Rightarrow> False | Some st \<Rightarrow> otPoolUsableLocked st))"

section \<open>The end of a batch\<close>

definition signalSenderPrecompute :: "nat option \<Rightarrow> teek_error + unit \<Rightarrow> 'b teek \<Rightarrow> 'b teek" where
  "signalSenderPrecompute po r t =
     (case po of None \<Rightarrow> t
      | Some p \<Rightarrow> onKPend p (\<lambda>q. case spDone q of None \<Rightarrow> q\<lparr>spDone := Some r\<rparr> | Some _ \<Rightarrow> q) t)"

definition destroyIdleSenderPrecompute :: "nat option \<Rightarrow> 'b teek \<Rightarrow> 'b teek" where
  "destroyIdleSenderPrecompute po t =
     (case po of
        None \<Rightarrow> t
      | Some p \<Rightarrow>
          (case kPends t p of
             None \<Rightarrow> t
           | Some q \<Rightarrow>
               if spPhase q = SProcessingCommitment \<or> spPhase q = SProcessingProof then t
               else onKPend p (\<lambda>q. q\<lparr>spBase := None, spExtension := None, spSession := replicate 32 0\<rparr>)
                 (destroyKExt (spExtension q) (destroyKBase (spBase q) t))))"

definition failPendingPrecompute :: "nat \<Rightarrow> nat \<Rightarrow> teek_error \<Rightarrow> 'b teek \<Rightarrow> 'b teek \<times> bool" where
  "failPendingPrecompute s p e t =
     (case kStates t s of
        None \<Rightarrow> (t, False)
      | Some st \<Rightarrow>
          if kOtState t \<noteq> Some s \<or> kPending st \<noteq> Some p then (t, False)
          else (signalSenderPrecompute (Some p) (Inl e)
                  (destroyIdleSenderPrecompute (Some p) (onKState s (\<lambda>st. st\<lparr>kPending := None\<rparr>) t)), True))"

definition failPendingPrecomputeAndClear :: "nat \<Rightarrow> nat \<Rightarrow> teek_error \<Rightarrow> 'b teek \<Rightarrow> 'b teek \<times> bool" where
  "failPendingPrecomputeAndClear s p e t =
     (case (kStates t s, kPends t p) of
        (Some st, Some q) \<Rightarrow>
          if kOtState t \<noteq> Some s \<or> kPending st \<noteq> Some p then (t, False)
          else
            let (pool, owned) = (if spInitial q then (sender_clear (kPool st), True)
                                 else sender_clear_for_extend_failure (kPool st) (spClaim q))
            in if \<not> owned then (t, False)
               else (signalSenderPrecompute (Some p) (Inl e)
                      (destroyIdleSenderPrecompute (Some p)
                        (publishOTReadyLocked s
                          (onKState s (\<lambda>st. st\<lparr>kPool := pool, kReady := False, kPending := None\<rparr>) t))), True)
      | _ \<Rightarrow> (t, False))"

section \<open>Starting a batch\<close>

text \<open>The canonical text form of a UUID: hexadecimal groups of 4, 2, 2, 2 and 6 bytes.\<close>

definition uuid_string :: "bytes \<Rightarrow> bytes" where
  "uuid_string u =
     hex_encode (slice u 0 4) @ ascii ''-'' @ hex_encode (slice u 4 6) @ ascii ''-'' @ hex_encode (slice u 6 8) @
     ascii ''-'' @ hex_encode (slice u 8 10) @ ascii ''-'' @ hex_encode (slice u 10 16)"

definition newV4UUIDFromReader :: "bytes \<Rightarrow> teek_error + bytes \<times> bytes" where
  "newV4UUIDFromReader rng =
     bindE (liftK (readFull (Engine ShortRandomness) rng 16)) (\<lambda>(u, rest).
       Inr (u[6 := (u ! 6 AND 0x0f) OR 0x40, 8 := (u ! 8 AND 0x3f) OR 0x80], rest))"

definition newSenderPrecomputeIdentity ::
  "bytes \<Rightarrow> u64 \<Rightarrow> int \<Rightarrow> bool \<Rightarrow> teek_error + bytes \<times> bytes \<times> bytes" where
  "newSenderPrecomputeIdentity rng startIndex count isInitial =
     bindE (liftK (checkedIndexEnd startIndex count)) (\<lambda>_.
     bindE (liftK (NewExtensionSession (Some rng))) (\<lambda>(session, rest).
       if \<not> isInitial then Inr (session, [], rest)
       else case newV4UUIDFromReader rest of
         Inl _ \<Rightarrow> Inl SampleEpochFailed
       | Inr (u, rest') \<Rightarrow>
           bindE (liftK (InitialExtensionEpoch (uuid_string u))) (\<lambda>epoch. Inr (session, epoch, rest'))))"

text \<open>The preflight reads the frontier. Without a published state an initial batch gets a new
  one, which is published by the setup.\<close>

definition perform_preflight ::
  "int \<Rightarrow> bool \<Rightarrow> nat option \<Rightarrow> controlConnectionToken \<Rightarrow> 'b teek \<Rightarrow> 'b teek \<times> (teek_error + nat \<times> u64)" where
  "perform_preflight count isInitial claim origin t =
     (if \<not> isCurrentControl (tkConn origin) (tkGeneration origin) t then (t, Inl ControlChanged)
      else case kOtState t of
        None \<Rightarrow>
          if \<not> isInitial then (t, Inl NoSenderPool)
          else (t\<lparr>kStates := (kStates t)(kAllocated t \<mapsto> NewOTPrecomputeState), kAllocated := Suc (kAllocated t)\<rparr>,
                bindE (liftK (checkedIndexEnd 0 count)) (\<lambda>_. Inr (kAllocated t, 0)))
      | Some s \<Rightarrow>
          (case kStates t s of
             None \<Rightarrow> (t, Inl NoSenderPool)
           | Some st \<Rightarrow>
               (t, if kPending st \<noteq> None then Inl PrecomputeBusy
                   else if \<not> isInitial \<and> \<not> kReady st then Inl SenderPoolNotReady
                   else if \<not> isInitial \<and> \<not> sender_owns_claim (kPool st) claim then Inl ClaimLost
                   else let startIndex = (if isInitial then 0 else sender_total_count (kPool st)) in
                     bindE (liftK (checkedIndexEnd startIndex count)) (\<lambda>_. Inr (s, startIndex)))))"

text \<open>The setup validates everything again and publishes the pending batch.\<close>

definition perform_setup ::
  "int \<Rightarrow> bool \<Rightarrow> nat option \<Rightarrow> controlConnectionToken \<Rightarrow> nat \<Rightarrow> u64 \<Rightarrow> bytes \<Rightarrow> bytes \<Rightarrow> 'b teek \<Rightarrow>
    'b teek \<times> (teek_error + nat \<times> OTPrecomputeRequest)" where
  "perform_setup count isInitial claim origin s startIndex session initialEpoch t =
     (if \<not> isCurrentControl (tkConn origin) (tkGeneration origin) t then (t, Inl ControlChanged)
      else if kOtState t = None \<and> \<not> isInitial then (t, Inl SenderStateChanged)
      else if kOtState t \<noteq> None \<and> kOtState t \<noteq> Some s then (t, Inl SenderStateChanged)
      else case kStates t s of
        None \<Rightarrow> (t, Inl SenderStateChanged)
      | Some st \<Rightarrow>
          let t1 = t\<lparr>kOtState := Some s\<rparr> in
          if kPending st \<noteq> None then (t1, Inl PrecomputeBusy)
          else if \<not> isInitial \<and> \<not> kReady st then (t1, Inl SenderPoolNotReady)
          else if \<not> isInitial \<and> \<not> sender_owns_claim (kPool st) claim then (t1, Inl ClaimLost)
          else
            let t2 = (if isInitial
                      then publishOTReadyLocked s
                        (onKState s (\<lambda>st. st\<lparr>kEpoch := initialEpoch, kPool := sender_clear (kPool st), kReady := False\<rparr>) t1)
                      else t1);
                epoch = (if isInitial then initialEpoch else kEpoch st);
                currentStart = (if isInitial then 0 else sender_total_count (kPool st));
                begin = \<lparr>bSessionID = session, bStartIndex = startIndex, bCount = of_int count, bEpoch = epoch\<rparr>
            in if currentStart \<noteq> startIndex then (t2, Inl FrontierChanged)
               else case checkedIndexEnd currentStart count of
                 Inl e \<Rightarrow> (t2, Inl (KMpc e))
               | Inr _ \<Rightarrow>
                   (case MarshalPrecomputeBegin begin of
                      Inl e \<Rightarrow> (t2, Inl (KMpc e))
                    | Inr frame \<Rightarrow>
                        let p = kAllocated t2 in
                        (onKState s (\<lambda>st. st\<lparr>kPending := Some p\<rparr>)
                          (t2\<lparr>kPends := (kPends t2)(p \<mapsto> \<lparr>spSession = session, spCount = count, spStartIndex = currentStart,
                               spInitial = isInitial, spBase = None, spExtension = None, spPhase = SAwaitBaseSetup,
                               spDone = None, spConn = tkConn origin, spGeneration = tkGeneration origin,
                               spClaim = claim\<rparr>), kAllocated := Suc p\<rparr>),
                         Inr (p, \<lparr>rqCount = of_int count, rqSetup = frame, rqInitial = isInitial, rqEpoch = epoch\<rparr>))))"

text \<open>Everything up to the first request on the wire.\<close>

definition perform_start ::
  "unit + mark_circuit option \<Rightarrow> bytes \<Rightarrow> bool \<Rightarrow> int \<Rightarrow> bool \<Rightarrow> nat option \<Rightarrow> controlConnectionToken option \<Rightarrow> 'b teek \<Rightarrow>
    'b teek \<times> (teek_error + nat \<times> nat \<times> OTPrecomputeRequest)" where
  "perform_start compiled rng sent count isInitial claim expectedOrigin t =
     (case ValidatePrecomputeCount count of
        Inl e \<Rightarrow> (t, Inl (KMpc e))
      | Inr _ \<Rightarrow>
     if \<not> isInitial \<and> claim = None then (t, Inl NoOwnershipClaim)
     else if isInitial \<and> (claim \<noteq> None \<or> expectedOrigin \<noteq> None) then (t, Inl InitialWithClaim)
     else
     (case (case expectedOrigin of None \<Rightarrow> currentAttestedControlToken t | Some og \<Rightarrow> (t, Inr og)) of
        (t0, Inl e) \<Rightarrow> (t0, Inl e)
      | (t0, Inr origin) \<Rightarrow>
     (case perform_preflight count isInitial claim origin t0 of
        (t1, Inl e) \<Rightarrow> (t1, Inl e)
      | (t1, Inr (s, startIndex)) \<Rightarrow>
     (case Initialize compiled of
        Inl e \<Rightarrow> (t1, Inl (KMpc e))
      | Inr _ \<Rightarrow>
     (case newSenderPrecomputeIdentity rng startIndex count isInitial of
        Inl e \<Rightarrow> (t1, Inl e)
      | Inr (session, initialEpoch, _) \<Rightarrow>
     (case perform_setup count isInitial claim origin s startIndex session initialEpoch t1 of
        (t2, Inl e) \<Rightarrow> (t2, Inl e)
      | (t2, Inr (p, request)) \<Rightarrow>
          if \<not> isCurrentControl (tkConn origin) (tkGeneration origin) t2
          then (fst (failPendingPrecompute s p ControlChanged t2), Inl ControlChanged)
          else if \<not> sent then (fst (failPendingPrecompute s p SenderWriteFailed t2), Inl SenderWriteFailed)
          else (t2, Inr (s, p, request))))))))"

text \<open>Then it waits for the batch to end: \<open>wait\<close> maps the state before to the state after the
  wait, in which the batch was signalled or sixty seconds passed.\<close>

definition performOTPrecomputationWithClaim ::
  "unit + mark_circuit option \<Rightarrow> bytes \<Rightarrow> bool \<Rightarrow> (nat \<Rightarrow> OTPrecomputeRequest \<Rightarrow> 'b teek \<Rightarrow> 'b teek) \<Rightarrow>
    int \<Rightarrow> bool \<Rightarrow> nat option \<Rightarrow> controlConnectionToken option \<Rightarrow> 'b teek \<Rightarrow> 'b teek \<times> (teek_error + unit)" where
  "performOTPrecomputationWithClaim compiled rng sent wait count isInitial claim expectedOrigin t =
     (case perform_start compiled rng sent count isInitial claim expectedOrigin t of
        (t1, Inl e) \<Rightarrow> (t1, Inl e)
      | (t1, Inr (s, p, request)) \<Rightarrow>
          let t2 = wait p request t1 in
          (case Option.bind (kPends t2 p) spDone of
             Some r \<Rightarrow> (t2, r)
           | None \<Rightarrow> (fst (failPendingPrecompute s p PrecomputeTimedOut t2), Inl PrecomputeTimedOut)))"

section \<open>Completion\<close>

text \<open>A failed refill releases its claim; with less than one circuit's transfers left, the exact
  control connection that owned it is closed.\<close>

definition recoverFailedClaimedOTExtension ::
  "nat option \<Rightarrow> controlConnectionToken option \<Rightarrow> 'b teek \<Rightarrow> 'b teek \<times> bool" where
  "recoverFailedClaimedOTExtension claim origin t =
     (case kOtState t of
        None \<Rightarrow> (t, False)
      | Some s \<Rightarrow>
          (case kStates t s of
             None \<Rightarrow> (t, False)
           | Some st \<Rightarrow>
               (case origin of
                  None \<Rightarrow>
                    (publishOTReadyLocked s (onKState s (\<lambda>st. st\<lparr>kPool := fst (sender_release_claim (kPool st) claim)\<rparr>) t), False)
                | Some og \<Rightarrow>
                    let (pool, released) = sender_release_claim (kPool st) claim;
                        t1 = onKState s (\<lambda>st. st\<lparr>kPool := pool\<rparr>) t
                    in if \<not> released then (t1, False)
                       else if \<not> isCurrentControl (tkConn og) (tkGeneration og) t1 then (t1, False)
                       else
                         let usable = kReady st \<and> \<not> kInconsistent st \<and> OTsPerOPRF \<le> sender_available pool in
                         if usable then (publishOTReadyLocked s t1, False)
                         else (closeConn (tkConn og)
                                ((publishOTReadyLocked s (onKState s (\<lambda>st. st\<lparr>kInconsistent := True\<rparr>) t1))\<lparr>kControlHealthy := False\<rparr>),
                               True))))"

text \<open>The batch is still the current one: same control, same state, same claim, same frontier.\<close>

definition batch_current :: "nat \<Rightarrow> nat \<Rightarrow> 'b teek \<Rightarrow> bool" where
  "batch_current s p t \<longleftrightarrow>
     (case (kStates t s, kPends t p) of
        (Some st, Some q) \<Rightarrow>
          kOtState t = Some s \<and> kPending st = Some p \<and>
          (spInitial q \<or> sender_owns_claim (kPool st) (spClaim q)) \<and> sender_total_count (kPool st) = spStartIndex q
      | _ \<Rightarrow> False)"

definition pending_control_current :: "nat \<Rightarrow> 'b teek \<Rightarrow> bool" where
  "pending_control_current p t \<longleftrightarrow>
     (case kPends t p of None \<Rightarrow> False | Some q \<Rightarrow> isCurrentControl (spConn q) (spGeneration q) t)"

definition sender_commit :: "nat \<Rightarrow> nat \<Rightarrow> SenderOT list \<Rightarrow> 'b teek \<Rightarrow> 'b teek \<times> (teek_error + unit)" where
  "sender_commit s p entries t =
     (if \<not> pending_control_current p t \<or> \<not> batch_current s p t
      then (fst (failPendingPrecomputeAndClear s p SenderStateChanged t), Inl SenderStateChanged)
      else case (kStates t s, kPends t p) of
        (Some st, Some q) \<Rightarrow>
          (case sender_add (kPool st) entries of
             (_, Inl e) \<Rightarrow>
               let (pool, owned) = (if spInitial q then (sender_clear (kPool st), True)
                                    else sender_clear_for_extend_failure (kPool st) (spClaim q))
               in if \<not> owned then (signalSenderPrecompute (Some p) (Inl OwnershipChanged) t, Inl OwnershipChanged)
                  else (signalSenderPrecompute (Some p) (Inl (KMpc e))
                         (publishOTReadyLocked s (onKState s (\<lambda>st. st\<lparr>kPool := pool, kReady := False, kPending := None\<rparr>) t)),
                        Inl (KMpc e))
           | (pool, Inr _) \<Rightarrow>
               let pool' = (if spInitial q then pool else fst (sender_release_claim pool (spClaim q))) in
               (signalSenderPrecompute (Some p) (Inr ())
                 (publishOTReadyLocked s
                   (onKState s (\<lambda>st. st\<lparr>kPool := pool', kEpoch := ExtensionEpoch (spSession q), kPending := None,
                      kReady := (if spInitial q then True else kReady st),
                      kInconsistent := (if spInitial q then False else kInconsistent st)\<rparr>) t)),
                Inr ()))
      | _ \<Rightarrow> (t, Inl SenderStateChanged))"

text \<open>Validation, then the irreversible completion message, then the local commit. \<open>during\<close> is
  what other handlers do while the message is written. A success carries the announced total.\<close>

definition completeSenderPrecompute ::
  "bool \<Rightarrow> ('b teek \<Rightarrow> 'b teek) \<Rightarrow> nat \<Rightarrow> nat \<Rightarrow> SenderOT list \<Rightarrow> 'b teek \<Rightarrow> 'b teek \<times> (teek_error + u64)" where
  "completeSenderPrecompute sent during s p entries t =
     (case kPends t p of
        None \<Rightarrow> (t, Inl IdentityIncomplete)
      | Some q \<Rightarrow>
     (case checkedIndexEnd (spStartIndex q) (int (length entries)) of
        Inl e \<Rightarrow> (t, Inl (KMpc e))
      | Inr expectedTotal \<Rightarrow>
          if \<not> pending_control_current p t \<or> \<not> batch_current s p t
          then (fst (failPendingPrecomputeAndClear s p SenderStateChanged t), Inl SenderStateChanged)
          else case Option.bind (kStates t s) (\<lambda>st. Some (sender_validate_add (kPool st) entries)) of
            Some (Inl e) \<Rightarrow>
              if spInitial q
              then (fst (failPendingPrecomputeAndClear s p InvalidCompletionBatch t), Inl InvalidCompletionBatch)
              else (case failPendingPrecompute s p InvalidCompletionBatch t of
                      (t1, True) \<Rightarrow>
                        (fst (recoverFailedClaimedOTExtension (spClaim q)
                               (Some \<lparr>tkId = kAllocated t1, tkConn = spConn q, tkGeneration = spGeneration q, tkSession = None\<rparr>) t1),
                         Inl InvalidCompletionBatch)
                    | (t1, False) \<Rightarrow> (t1, Inl InvalidCompletionBatch))
          | _ \<Rightarrow>
              if \<not> sent \<or> \<not> isCurrentControl (spConn q) (spGeneration q) t
              then (fst (failPendingPrecomputeAndClear s p SenderWriteFailed t), Inl SenderWriteFailed)
              else (case sender_commit s p entries (during t) of
                      (t2, Inl e) \<Rightarrow> (t2, Inl e)
                    | (t2, Inr _) \<Rightarrow> (t2, Inr expectedTotal))))"

section \<open>The three responses\<close>

text \<open>What a response makes of the state: refused, refused with the batch to fail, or the batch
  and the phase it was in.\<close>

definition response_claim ::
  "nat \<Rightarrow> nat \<Rightarrow> u64 \<Rightarrow> u32 \<Rightarrow> 'b teek \<Rightarrow> 'b teek \<times> (teek_error \<times> nat option + nat \<times> senderPrecompute)" where
  "response_claim s conn gen count t =
     (if \<not> isCurrentControl conn gen t then (t, Inl (ControlChanged, None))
      else case Option.bind (kStates t s) kPending of
        None \<Rightarrow> (t, Inl (UnexpectedResponse, None))
      | Some p \<Rightarrow>
          (case kPends t p of
             None \<Rightarrow> (t, Inl (UnexpectedResponse, None))
           | Some q \<Rightarrow>
               if spConn q \<noteq> conn \<or> spGeneration q \<noteq> gen then (t, Inl (SupersededResponse, None))
               else if int (unat count) \<noteq> spCount q then (t, Inl (CountMismatched, Some p))
               else (case spPhase q of
                       SAwaitBaseSetup \<Rightarrow> (onKPend p (\<lambda>q. q\<lparr>spPhase := SAwaitCommitment\<rparr>) t, Inr (p, q))
                     | SAwaitCommitment \<Rightarrow> (onKPend p (\<lambda>q. q\<lparr>spPhase := SProcessingCommitment\<rparr>) t, Inr (p, q))
                     | SAwaitProof \<Rightarrow> (onKPend p (\<lambda>q. q\<lparr>spPhase := SProcessingProof\<rparr>) t, Inr (p, q))
                     | _ \<Rightarrow> (t, Inl (SenderUnexpectedPhase, None)))))"

definition newKBase :: "'b BaseOTReceiverState \<Rightarrow> 'b teek \<Rightarrow> 'b teek \<times> nat" where
  "newKBase rs t = (t\<lparr>kBases := (kBases t)(kAllocated t \<mapsto> rs), kAllocated := Suc (kAllocated t)\<rparr>, kAllocated t)"

definition newKExt :: "ExtensionSenderState \<Rightarrow> 'b teek \<Rightarrow> 'b teek \<times> nat" where
  "newKExt es t = (t\<lparr>kExts := (kExts t)(kAllocated t \<mapsto> es), kAllocated := Suc (kAllocated t)\<rparr>, kAllocated t)"

definition k_request :: "senderPrecompute \<Rightarrow> OTPrecomputeState \<Rightarrow> bytes \<Rightarrow> OTPrecomputeRequest" where
  "k_request q st frame =
     \<lparr>rqCount = of_int (spCount q), rqSetup = frame, rqInitial = spInitial q, rqEpoch = kEpoch st\<rparr>"

text \<open>Publication of a computed result, under the exact control and pending batch.\<close>

definition publish_guard :: "nat \<Rightarrow> nat \<Rightarrow> u64 \<Rightarrow> nat \<Rightarrow> senderPrecomputePhase \<Rightarrow> 'b teek \<Rightarrow> bool" where
  "publish_guard s conn gen p ph t \<longleftrightarrow>
     isCurrentControl conn gen t \<and>
     (case (kStates t s, kPends t p) of
        (Some st, Some q) \<Rightarrow> kPending st = Some p \<and> spConn q = conn \<and> spGeneration q = gen \<and> spPhase q = ph
      | _ \<Rightarrow> False)"

definition response_base_setup ::
  "('s, 'b) co_api \<Rightarrow> bytes \<Rightarrow> bool \<Rightarrow> nat \<Rightarrow> nat \<Rightarrow> u64 \<Rightarrow> nat \<Rightarrow> senderPrecompute \<Rightarrow> bytes \<Rightarrow> 'b teek \<Rightarrow>
    'b teek \<times> (teek_error + OTPrecomputeRequest)" where
  "response_base_setup co rng sent s conn gen p q data t =
     (case UnmarshalPrecomputeBaseSetup data (spSession q) of
        Inl e \<Rightarrow> (fst (failPendingPrecompute s p (KMpc e) t), Inl (KMpc e))
      | Inr setup \<Rightarrow>
     (case StartBaseOTReceiver co (Some rng) (spSession q) setup of
        Inl e \<Rightarrow> (fst (failPendingPrecompute s p (KMpc e) t), Inl (KMpc e))
      | Inr (rs, choices, _) \<Rightarrow>
     (case newKBase rs t of (t1, b) \<Rightarrow>
     (case MarshalPrecomputeBaseChoices (spSession q) choices of
        Inl e \<Rightarrow> (destroyKBase (Some b) (fst (failPendingPrecompute s p (KMpc e) t1)), Inl (KMpc e))
      | Inr frame \<Rightarrow>
          if \<not> publish_guard s conn gen p SAwaitCommitment t1 \<or> Option.bind (kPends t1 p) spBase \<noteq> None
          then (destroyKBase (Some b) t1, Inl SenderStateChanged)
          else
            let t2 = onKPend p (\<lambda>q. q\<lparr>spBase := Some b\<rparr>) t1 in
            if \<not> isCurrentControl conn gen t2 then (fst (failPendingPrecompute s p ControlChanged t2), Inl ControlChanged)
            else if \<not> sent then (fst (failPendingPrecompute s p SenderWriteFailed t2), Inl SenderWriteFailed)
            else (case kStates t2 s of
                    None \<Rightarrow> (t2, Inl SenderStateChanged)
                  | Some st \<Rightarrow> (t2, Inr (k_request q st frame)))))))"

text \<open>The commitment is checked against the batch's own metadata; the base state is consumed and
  destroyed on every path.\<close>

definition response_commitment ::
  "('s, 'b) co_api \<Rightarrow> bytes \<Rightarrow> bool \<Rightarrow> nat \<Rightarrow> nat \<Rightarrow> u64 \<Rightarrow> nat \<Rightarrow> senderPrecompute \<Rightarrow> bytes \<Rightarrow> 'b teek \<Rightarrow>
    'b teek \<times> (teek_error + OTPrecomputeRequest)" where
  "response_commitment co rng sent s conn gen p q data t =
     (case kStates t s of
        None \<Rightarrow> (t, Inl SenderStateChanged)
      | Some st \<Rightarrow>
     let expected = \<lparr>bSessionID = spSession q, bStartIndex = spStartIndex q, bCount = of_int (spCount q), bEpoch = kEpoch st\<rparr>;
         fail = (\<lambda>e. (destroyKBase (spBase q) (fst (failPendingPrecompute s p (KMpc e) t)), Inl (KMpc e)))
     in
     (case UnmarshalPrecomputeCommitmentFor data expected of
        Inl e \<Rightarrow> fail e
      | Inr (ciphertexts, commitment) \<Rightarrow>
     (case snd (FinishBaseOTReceiver co (Option.bind (spBase q) (kBases t)) ciphertexts) of
        Inl e \<Rightarrow> fail e
      | Inr (selected, d) \<Rightarrow>
     (case StartExtensionSender (Some rng) selected d (kEpoch st) ciphertexts (Some commitment) of
        Inl e \<Rightarrow> fail e
      | Inr (es, challenge, _) \<Rightarrow>
     (case newKExt es (destroyKBase (spBase q) t) of (t1, x) \<Rightarrow>
     (case MarshalExtensionChallenge (Some challenge) of
        Inl e \<Rightarrow> (destroyKExt (Some x) (fst (failPendingPrecompute s p (KMpc e) t1)), Inl (KMpc e))
      | Inr frame \<Rightarrow>
          if \<not> publish_guard s conn gen p SProcessingCommitment t1
          then (destroyKExt (Some x) t1, Inl SenderStateChanged)
          else
            let t2 = onKPend p (\<lambda>q. q\<lparr>spExtension := Some x, spPhase := SAwaitProof\<rparr>) t1 in
            if \<not> sent then (fst (failPendingPrecompute s p SenderWriteFailed t2), Inl SenderWriteFailed)
            else (t2, Inr (k_request q st frame))))))))"

definition response_proof ::
  "bool \<Rightarrow> ('b teek \<Rightarrow> 'b teek) \<Rightarrow> nat \<Rightarrow> nat \<Rightarrow> senderPrecompute \<Rightarrow> bytes \<Rightarrow> 'b teek \<Rightarrow> 'b teek \<times> (teek_error + u64)" where
  "response_proof sent during s p q data t =
     (case bindE (UnmarshalExtensionProofFor data (spSession q)) (\<lambda>prf.
             snd (FinishExtensionSender (Option.bind (spExtension q) (kExts t)) (Some prf))) of
        Inl e \<Rightarrow> (destroyKExt (spExtension q) (fst (failPendingPrecompute s p (KMpc e) t)), Inl (KMpc e))
      | Inr entries \<Rightarrow>
          (case completeSenderPrecompute sent during s p entries t of
             (t1, r) \<Rightarrow> (destroyKExt (spExtension q) t1, r)))"

text \<open>A successful response sends the next request, or completes the batch with its total.\<close>

definition handleOTPrecomputeResponse ::
  "('s, 'b) co_api \<Rightarrow> bytes \<Rightarrow> bool \<Rightarrow> ('b teek \<Rightarrow> 'b teek) \<Rightarrow> nat \<Rightarrow> u64 \<Rightarrow> u32 \<Rightarrow> bytes \<Rightarrow> 'b teek \<Rightarrow>
    'b teek \<times> (teek_error + OTPrecomputeRequest + u64)" where
  "handleOTPrecomputeResponse co rng sent during conn gen count data t =
     (case kOtState t of
        None \<Rightarrow> (t, Inl SenderStateMissing)
      | Some s \<Rightarrow>
     (case response_claim s conn gen count t of
        (t1, Inl (e, None)) \<Rightarrow> (t1, Inl e)
      | (t1, Inl (e, Some p)) \<Rightarrow> (fst (failPendingPrecompute s p e t1), Inl e)
      | (t1, Inr (p, q)) \<Rightarrow>
          (case spPhase q of
             SAwaitBaseSetup \<Rightarrow>
               (case response_base_setup co rng sent s conn gen p q data t1 of
                  (t2, Inl e) \<Rightarrow> (t2, Inl e) | (t2, Inr rq) \<Rightarrow> (t2, Inr (Inl rq)))
           | SAwaitCommitment \<Rightarrow>
               (case response_commitment co rng sent s conn gen p q data t1 of
                  (t2, Inl e) \<Rightarrow> (t2, Inl e) | (t2, Inr rq) \<Rightarrow> (t2, Inr (Inl rq)))
           | _ \<Rightarrow>
               (case response_proof sent during s p q data t1 of
                  (t2, Inl e) \<Rightarrow> (t2, Inl e) | (t2, Inr tot) \<Rightarrow> (t2, Inr (Inr tot))))))"

section \<open>Reservations\<close>

definition validateSessionConnectionLocked :: "SessionTEETConnection \<Rightarrow> 'b teek \<Rightarrow> teek_error + unit" where
  "validateSessionConnectionLocked sc t =
     (case (kcSession sc, kcControlConn sc) of
        (Some session, Some cc) \<Rightarrow>
          if map_of (kSessionConns t) (kcSessionID sc) \<noteq> Some sc \<or> \<not> isCurrentControl cc (kcGeneration sc) t \<or> \<not> kAttested t
          then Inl SessionSuperseded
          else if kSessions t (kcSessionID sc) \<noteq> Some session then Inl SessionSuperseded
          else Inr ()
      | _ \<Rightarrow> Inl IdentityIncomplete)"

definition onSession :: "nat \<Rightarrow> (TEEKSessionState \<Rightarrow> TEEKSessionState) \<Rightarrow> 'b teek \<Rightarrow> 'b teek" where
  "onSession x f t = t\<lparr>kSessionStates := (kSessionStates t)(x := map_option f (kSessionStates t x))\<rparr>"

definition ConfirmOTReservation :: "int \<Rightarrow> nat \<Rightarrow> u64 \<Rightarrow> TEEKSessionState \<Rightarrow> TEEKSessionState \<times> bool" where
  "ConfirmOTReservation rangeIdx conn gen ss =
     (case OTReservations ss rangeIdx of
        None \<Rightarrow> (ss, False)
      | Some rv \<Rightarrow>
          if rvConn rv \<noteq> conn \<or> rvGeneration rv \<noteq> gen then (ss, False)
          else (ss\<lparr>OTReservations := (OTReservations ss)(rangeIdx := None)\<rparr>, True))"

definition TrackOTReservation ::
  "int \<Rightarrow> senderOTReservation option \<Rightarrow> TEEKSessionState \<Rightarrow> TEEKSessionState \<times> (teek_error + unit)" where
  "TrackOTReservation rangeIdx reservation ss =
     (case reservation of
        None \<Rightarrow> (ss, Inl IdentityIncomplete)
      | Some rv \<Rightarrow>
          if OTReservations ss rangeIdx \<noteq> None then (ss, Inl ReservationExists)
          else (ss\<lparr>OTReservations := (OTReservations ss)(rangeIdx \<mapsto> rv)\<rparr>, Inr ()))"

definition AbandonOTReservation ::
  "int \<Rightarrow> senderOTReservation option \<Rightarrow> TEEKSessionState \<Rightarrow> TEEKSessionState \<times> senderOTReservation option" where
  "AbandonOTReservation rangeIdx expected ss =
     (if OTReservations ss rangeIdx \<noteq> expected then (ss, None)
      else (ss\<lparr>OTReservations := (OTReservations ss)(rangeIdx := None)\<rparr>, expected))"

text \<open>Transfers that were reserved but never confirmed leave the pools out of step: the pool is
  marked inconsistent and the connection that carried the reservation is closed.\<close>

definition reconcileAbandonedOTReservation :: "senderOTReservation option \<Rightarrow> 'b teek \<Rightarrow> 'b teek \<times> bool" where
  "reconcileAbandonedOTReservation reservation t =
     (case (reservation, kOtState t) of
        (Some rv, Some s) \<Rightarrow>
          if \<not> isCurrentControl (rvConn rv) (rvGeneration rv) t then (t, False)
          else (closeConn (rvConn rv)
                 ((publishOTReadyLocked s (onKState s (\<lambda>st. st\<lparr>kInconsistent := True\<rparr>) t))\<lparr>kControlHealthy := False\<rparr>), True)
      | _ \<Rightarrow> (t, False))"

definition abandonOTReservation :: "nat \<Rightarrow> int \<Rightarrow> senderOTReservation option \<Rightarrow> 'b teek \<Rightarrow> 'b teek \<times> bool" where
  "abandonOTReservation x rangeIdx expected t =
     (case kSessionStates t x of
        None \<Rightarrow> (t, False)
      | Some ss \<Rightarrow>
          (case AbandonOTReservation rangeIdx expected ss of
             (ss', abandoned) \<Rightarrow>
               reconcileAbandonedOTReservation abandoned (onSession x (\<lambda>_. ss') t)))"

text \<open>The reservation, the claim of a refill when the pool runs low, and the record that the
  receiver still has to confirm are one step. \<open>startRefill\<close> is the refill callback.\<close>

definition reserve_section ::
  "SessionTEETConnection \<Rightarrow> nat \<Rightarrow> nat \<Rightarrow> int \<Rightarrow> int \<Rightarrow> 'b teek \<Rightarrow>
    'b teek \<times> (teek_error + nat option \<times> (teek_error + u64 \<times> SenderOT list \<times> senderOTReservation))" where
  "reserve_section sc session x rangeIndex count t =
     (case (kOtState t, kSessionStates t x) of
        (Some s, Some ss) \<Rightarrow>
          (case validateSessionConnectionLocked sc t of
             Inl e \<Rightarrow> (t, Inl e)
           | Inr _ \<Rightarrow>
          if session \<noteq> ksSession ss then (t, Inl SessionSuperseded)
          else case kStates t s of
            None \<Rightarrow> (t, Inl SenderPoolNotReady)
          | Some st \<Rightarrow>
              if \<not> kReady st \<or> kInconsistent st then (t, Inl SenderPoolNotReady)
              else if OTReservations ss rangeIndex \<noteq> None then (t, Inl ReservationExists)
              else
                let (pool, reserved) = sender_reserve (kPool st) count;
                    (pool', claim) = sender_claim_extend pool;
                    rv = (\<lambda>start. \<lparr>rvId = kAllocated t, rvStart = start, rvConn = the (kcControlConn sc),
                           rvGeneration = kcGeneration sc\<rparr>);
                    t1 = onKState s (\<lambda>st. st\<lparr>kPool := pool'\<rparr>) t
                in (case reserved of
                      Inl e \<Rightarrow> (publishOTReadyLocked s t1, Inr (claim, Inl (KMpc e)))
                    | Inr (start, entries) \<Rightarrow>
                        (publishOTReadyLocked s
                          ((onSession x (\<lambda>ss. ss\<lparr>OTReservations := (OTReservations ss)(rangeIndex \<mapsto> rv start)\<rparr>) t1)
                             \<lparr>kAllocated := Suc (kAllocated t)\<rparr>),
                         Inr (claim, Inr (start, entries, rv start)))))
      | _ \<Rightarrow> (t, Inl IdentityIncomplete))"

definition reserveOTEntriesForSessionWithRefill ::
  "(int \<Rightarrow> nat \<Rightarrow> controlConnectionToken \<Rightarrow> 'b teek \<Rightarrow> 'b teek) option \<Rightarrow>
    SessionTEETConnection \<Rightarrow> nat \<Rightarrow> nat \<Rightarrow> int \<Rightarrow> int \<Rightarrow> 'b teek \<Rightarrow>
    'b teek \<times> (teek_error + u64 \<times> SenderOT list \<times> senderOTReservation)" where
  "reserveOTEntriesForSessionWithRefill startRefill sc session x rangeIndex count t =
     (case reserve_section sc session x rangeIndex count t of
        (t1, Inl e) \<Rightarrow> (t1, Inl e)
      | (t1, Inr (None, r)) \<Rightarrow> (t1, r)
      | (t1, Inr (Some claim, r)) \<Rightarrow>
          let origin = \<lparr>tkId = kAllocated t1, tkConn = the (kcControlConn sc), tkGeneration = kcGeneration sc, tkSession = None\<rparr>;
              t2 = t1\<lparr>kAllocated := Suc (kAllocated t1)\<rparr>
          in (case startRefill of
                None \<Rightarrow>
                  let t3 = (case r of Inl _ \<Rightarrow> t2 | Inr (_, _, rv) \<Rightarrow> fst (abandonOTReservation x rangeIndex (Some rv) t2))
                  in (fst (recoverFailedClaimedOTExtension (Some claim) (Some origin) t3), Inl RefillCallbackNil)
              | Some refill \<Rightarrow> (refill (int OTPoolExtendSize) claim origin t2, r)))"

section \<open>Disconnect and resume\<close>

definition clearOTPool :: "'b teek \<Rightarrow> 'b teek" where
  "clearOTPool t =
     (case kOtState t of
        None \<Rightarrow> t
      | Some s \<Rightarrow>
          (case kStates t s of
             None \<Rightarrow> t
           | Some st \<Rightarrow>
               signalSenderPrecompute (kPending st) (Inl PrecomputeAborted)
                 (destroyIdleSenderPrecompute (kPending st)
                   (publishOTReadyLocked s
                     (onKState s (\<lambda>st. st\<lparr>kPool := sender_clear (kPool st), kPending := None, kReady := False,
                        kInconsistent := False, kResumePending := None\<rparr>) t)))))"

definition suspendOTPoolForReconnect :: "'b teek \<Rightarrow> 'b teek" where
  "suspendOTPoolForReconnect t =
     (case kOtState t of
        None \<Rightarrow> t
      | Some s \<Rightarrow>
          (case kStates t s of
             None \<Rightarrow> t
           | Some st \<Rightarrow>
               if kReady st
               then signalSenderPrecompute (kPending st) (Inl PrecomputeInterrupted)
                 (destroyIdleSenderPrecompute (kPending st)
                   (publishOTReadyLocked s
                     (onKState s (\<lambda>st. st\<lparr>kPending := None, kPool := sender_invalidate_claim (kPool st)\<rparr>) t)))
               else clearOTPool t))"

text \<open>The new control connection of \<open>connectAndServe\<close>, after its attestation was verified.\<close>

definition installControlConnection :: "'b teek \<Rightarrow> 'b teek \<times> nat \<times> u64" where
  "installControlConnection t =
     (let gen = kControlGeneration t + 1; conn = kAllocated t in
      (t\<lparr>kControlGeneration := gen, kControlConn := Some conn, kAllocated := Suc conn\<rparr>, conn, gen))"

text \<open>The locked part of the teardown. It returns the session connections to close and the sessions to
  clean up once the lock is released; closing and cleaning them, and failing the waiters for a
  session acknowledgment, are not modelled.\<close>

definition tearDownControl ::
  "nat \<Rightarrow> u64 \<Rightarrow> 'b teek \<Rightarrow> 'b teek \<times> SessionTEETConnection list \<times> nat list" where
  "tearDownControl conn gen t =
     (if \<not> isCurrentControl conn gen t then (t, [], [])
      else
        let mine = (\<lambda>c. kcControlConn c = Some conn \<and> kcGeneration c = gen);
            owned = (\<lambda>tk. tkConn tk = conn \<and> tkGeneration tk = gen);
            t1 = suspendOTPoolForReconnect
              (t\<lparr>kControlConn := None, kAttested := False, kTeetAttested := False, kControlHealthy := False\<rparr>);
            orphans = filter mine (map snd (kSessionConns t1));
            sessions = concat (map (\<lambda>c. case kcSession c of None \<Rightarrow> [] | Some x \<Rightarrow> [x]) orphans) @
              concat (map (\<lambda>tk. case tkSession tk of None \<Rightarrow> [] | Some x \<Rightarrow> [x]) (filter owned (map snd (kAcknowledged t1))))
        in (t1\<lparr>kSessionConns := filter (\<lambda>(_, c). \<not> mine c) (kSessionConns t1),
               kAcknowledged := filter (\<lambda>(_, tk). \<not> owned tk) (kAcknowledged t1)\<rparr>, orphans, sessions))"

definition hasResumablePool :: "'b teek \<Rightarrow> bool" where
  "hasResumablePool t =
     (case kOtState t of None \<Rightarrow> False
      | Some s \<Rightarrow> (case kStates t s of None \<Rightarrow> False
          | Some st \<Rightarrow> kReady st \<and> IsCurrentExtensionEpoch (kEpoch st) \<and> 0 < sender_available (kPool st)))"

definition release_and_publish :: "nat \<Rightarrow> nat \<Rightarrow> 'b teek \<Rightarrow> 'b teek" where
  "release_and_publish s claim t =
     publishOTReadyLocked s (onKState s (\<lambda>st. st\<lparr>kPool := fst (sender_release_claim (kPool st) (Some claim))\<rparr>) t)"

definition ensureResumedOTPoolUsableWithRefill ::
  "(int \<Rightarrow> nat \<Rightarrow> controlConnectionToken \<Rightarrow> 'b teek \<Rightarrow> 'b teek \<times> (teek_error + unit)) option \<Rightarrow>
    (int \<Rightarrow> nat \<Rightarrow> controlConnectionToken \<Rightarrow> 'b teek \<Rightarrow> 'b teek) option \<Rightarrow> controlConnectionToken \<Rightarrow> 'b teek \<Rightarrow>
    'b teek \<times> (teek_error + unit)" where
  "ensureResumedOTPoolUsableWithRefill runRefill startRefill origin t =
     (case kOtState t of
        None \<Rightarrow> (t, Inl SenderStateMissing)
      | Some s \<Rightarrow>
          (case kStates t s of
             None \<Rightarrow> (t, Inl SenderStateMissing)
           | Some st \<Rightarrow>
               let available = sender_available (kPool st) in
               if OTPoolWatermark \<le> available then (publishOTReadyLocked s t, Inr ())
               else case sender_claim_extend (kPool st) of
                 (pool, co) \<Rightarrow>
                   let t1 = publishOTReadyLocked s (onKState s (\<lambda>st. st\<lparr>kPool := pool\<rparr>) t) in
                   (case co of
                      None \<Rightarrow> (t1, Inl RefillPending)
                    | Some claim \<Rightarrow>
                        if available < OTsPerOPRF
                        then (case runRefill of
                                None \<Rightarrow> (release_and_publish s claim t1, Inl RefillCallbackNil)
                              | Some run \<Rightarrow>
                                  (case run (int OTPoolExtendSize) claim origin t1 of
                                     (t2, Inl e) \<Rightarrow> (release_and_publish s claim t2, Inl e)
                                   | (t2, Inr _) \<Rightarrow> (t2, Inr ())))
                        else (case startRefill of
                                None \<Rightarrow> (release_and_publish s claim t1, Inl RefillCallbackNil)
                              | Some start \<Rightarrow> (start (int OTPoolExtendSize) claim origin t1, Inr ())))))"

text \<open>The resume handshake: the request announces the epoch and the reservation frontier.
  \<open>wait\<close> is what happens until a response or the timeout.\<close>

definition tryResumeOTPool ::
  "bool \<Rightarrow> (bytes \<Rightarrow> u64 \<Rightarrow> 'b teek \<Rightarrow> 'b teek) \<Rightarrow> 'b teek \<Rightarrow> 'b teek \<times> (teek_error + bool)" where
  "tryResumeOTPool sent wait t =
     (case currentAttestedControlToken t of
        (t0, Inl e) \<Rightarrow> (t0, Inl e)
      | (t0, Inr origin) \<Rightarrow>
     (case kOtState t0 of
        None \<Rightarrow> (t0, Inl (KMpc Panic))
      | Some s \<Rightarrow>
     (case kStates t0 s of
        None \<Rightarrow> (t0, Inl SenderStateMissing)
      | Some st \<Rightarrow>
          if \<not> IsCurrentExtensionEpoch (kEpoch st) then (t0, Inl UnsupportedEpoch)
          else if kResumePending st \<noteq> None then (t0, Inl ResumePending)
          else
            let t1 = onKState s (\<lambda>st. st\<lparr>kResumePending := Some origin, kResumeChan := None\<rparr>) t0;
                finished = onKState s (\<lambda>st. if kResumePending st = Some origin then st\<lparr>kResumePending := None\<rparr> else st)
            in if \<not> sent then (finished t1, Inl SenderWriteFailed)
               else let t2 = wait (kEpoch st) (sNext (kPool st)) t1 in
                 (case Option.bind (kStates t2 s) kResumeChan of
                    None \<Rightarrow> (finished t2, Inl ResumeTimedOut)
                  | Some (conn, gen, accepted) \<Rightarrow>
                      let t3 = onKState s (\<lambda>st. st\<lparr>kResumeChan := None\<rparr>) t2 in
                      if conn \<noteq> tkConn origin \<or> gen \<noteq> tkGeneration origin then (finished t3, Inl SupersededResponse)
                      else if accepted
                      then (if \<not> isCurrentControl (tkConn origin) (tkGeneration origin) t3 then (finished t3, Inl ControlChanged)
                            else (finished (publishOTReadyLocked s (onKState s (\<lambda>st. st\<lparr>kInconsistent := False\<rparr>) t3)), Inr True))
                      else (finished t3, Inr False)))))"

definition handleOTResumeResponse :: "nat \<Rightarrow> u64 \<Rightarrow> bool \<Rightarrow> 'b teek \<Rightarrow> 'b teek \<times> (teek_error + unit)" where
  "handleOTResumeResponse conn gen accepted t =
     (case kOtState t of
        None \<Rightarrow> (t, Inl SenderStateMissing)
      | Some s \<Rightarrow>
          (case Option.bind (kStates t s) kResumePending of
             None \<Rightarrow> (t, Inl UnexpectedResume)
           | Some tk \<Rightarrow>
               if tkConn tk \<noteq> conn \<or> tkGeneration tk \<noteq> gen then (t, Inl UnexpectedResume)
               else (onKState s (\<lambda>st. case kResumeChan st of None \<Rightarrow> st\<lparr>kResumeChan := Some (conn, gen, accepted)\<rparr> | Some _ \<Rightarrow> st) t,
                     Inr ())))"

definition newTEEK :: "'b teek" where
  "newTEEK =
     \<lparr>kControlConn = None, kControlGeneration = 0, kAttested = False, kTeetAttested = False, kControlHealthy = False,
      kOtReady = False, kOtState = None, kStates = Map.empty, kPends = Map.empty, kBases = Map.empty, kExts = Map.empty,
      kSessions = Map.empty, kSessionConns = [], kAcknowledged = [], kSessionStates = Map.empty, closedConns = [],
      kAllocated = 0\<rparr>"

end
