(* ===== verification/Exchange_Sender.thy ===== *)
theory Exchange_Sender
  imports Exchange_Frames Tee_K_Sender
begin

text \<open>
  The sender's part of an honest exchange: how a batch starts and what each response does
  when it is the one the batch is waiting for.
\<close>

section \<open>Fields\<close>

lemma onKState_fields [simp]:
  "kControlConn (onKState s f t) = kControlConn t" "kControlGeneration (onKState s f t) = kControlGeneration t"
  "kOtState (onKState s f t) = kOtState t" "kPends (onKState s f t) = kPends t" "kBases (onKState s f t) = kBases t"
  "kExts (onKState s f t) = kExts t" "kAllocated (onKState s f t) = kAllocated t" "kAttested (onKState s f t) = kAttested t"
  "kStates (onKState s f t) = (kStates t)(s := map_option f (kStates t s))"
  by (simp_all add: onKState_def)

lemma onKPend_fields [simp]:
  "kControlConn (onKPend p f t) = kControlConn t" "kControlGeneration (onKPend p f t) = kControlGeneration t"
  "kOtState (onKPend p f t) = kOtState t" "kStates (onKPend p f t) = kStates t" "kBases (onKPend p f t) = kBases t"
  "kExts (onKPend p f t) = kExts t" "kAllocated (onKPend p f t) = kAllocated t" "kAttested (onKPend p f t) = kAttested t"
  "kPends (onKPend p f t) = (kPends t)(p := map_option f (kPends t p))"
  by (simp_all add: onKPend_def)

lemma destroyK_fields [simp]:
  "kControlConn (destroyKBase b t) = kControlConn t" "kControlGeneration (destroyKBase b t) = kControlGeneration t"
  "kOtState (destroyKBase b t) = kOtState t" "kStates (destroyKBase b t) = kStates t" "kPends (destroyKBase b t) = kPends t"
  "kExts (destroyKBase b t) = kExts t" "kAllocated (destroyKBase b t) = kAllocated t" "kAttested (destroyKBase b t) = kAttested t"
  "kControlConn (destroyKExt e t) = kControlConn t" "kControlGeneration (destroyKExt e t) = kControlGeneration t"
  "kOtState (destroyKExt e t) = kOtState t" "kStates (destroyKExt e t) = kStates t" "kPends (destroyKExt e t) = kPends t"
  "kBases (destroyKExt e t) = kBases t" "kAllocated (destroyKExt e t) = kAllocated t" "kAttested (destroyKExt e t) = kAttested t"
  by (simp_all add: destroyKBase_def destroyKExt_def split: option.split)

lemma publish_fields [simp]:
  "kControlConn (publishOTReadyLocked s t) = kControlConn t" "kControlGeneration (publishOTReadyLocked s t) = kControlGeneration t"
  "kOtState (publishOTReadyLocked s t) = kOtState t" "kStates (publishOTReadyLocked s t) = kStates t"
  "kPends (publishOTReadyLocked s t) = kPends t" "kBases (publishOTReadyLocked s t) = kBases t"
  "kExts (publishOTReadyLocked s t) = kExts t" "kAllocated (publishOTReadyLocked s t) = kAllocated t"
  "kAttested (publishOTReadyLocked s t) = kAttested t"
  by (simp_all add: publishOTReadyLocked_def)

section \<open>Starting\<close>

definition k_waits :: "nat \<Rightarrow> u64 \<Rightarrow> 'b teek \<Rightarrow> nat \<Rightarrow> OTPrecomputeState \<Rightarrow> nat \<Rightarrow> senderPrecompute \<Rightarrow> bool" where
  "k_waits conn gen t s st p q \<longleftrightarrow>
     isCurrentControl conn gen t \<and> kOtState t = Some s \<and> kStates t s = Some st \<and> kPending st = Some p \<and>
     kPends t p = Some q \<and> spConn q = conn \<and> spGeneration q = gen"

definition new_sender :: "bytes \<Rightarrow> int \<Rightarrow> u64 \<Rightarrow> bool \<Rightarrow> nat \<Rightarrow> u64 \<Rightarrow> nat option \<Rightarrow> senderPrecompute" where
  "new_sender session count start initial conn gen claim =
     \<lparr>spSession = session, spCount = count, spStartIndex = start, spInitial = initial, spBase = None, spExtension = None,
      spPhase = SAwaitBaseSetup, spDone = None, spConn = conn, spGeneration = gen, spClaim = claim\<rparr>"

lemma setup_refill:
  assumes cur: "isCurrentControl (tkConn og) (tkGeneration og) t" and st: "kOtState t = Some s" "kStates t s = Some st" "kPending st = None"
    and rd: "kReady st" "sender_owns_claim (kPool st) claim"
    and e: "checkedIndexEnd (sender_total_count (kPool st)) count = Inr e"
    and f: "MarshalPrecomputeBegin (begin_of session (sender_total_count (kPool st)) count (kEpoch st)) = Inr f"
  obtains t' p where "perform_setup count False claim og s (sender_total_count (kPool st)) session epoch t =
      (t', Inr (p, \<lparr>rqCount = of_int count, rqSetup = f, rqInitial = False, rqEpoch = kEpoch st\<rparr>))"
    "k_waits (tkConn og) (tkGeneration og) t' s (st\<lparr>kPending := Some p\<rparr>) p
      (new_sender session count (sender_total_count (kPool st)) False (tkConn og) (tkGeneration og) claim)"
    "kAttested t' = kAttested t"
proof -
  let ?q = "new_sender session count (sender_total_count (kPool st)) False (tkConn og) (tkGeneration og) claim"
  let ?p = "kAllocated t"
  let ?t' = "onKState s (\<lambda>st. st\<lparr>kPending := Some ?p\<rparr>) (t\<lparr>kOtState := Some s, kPends := (kPends t)(?p \<mapsto> ?q), kAllocated := Suc ?p\<rparr>)"
  have run: "perform_setup count False claim og s (sender_total_count (kPool st)) session epoch t =
      (?t', Inr (?p, \<lparr>rqCount = of_int count, rqSetup = f, rqInitial = False, rqEpoch = kEpoch st\<rparr>))"
    using cur st rd e f by (simp add: perform_setup_def Let_def begin_of_def new_sender_def)
  show ?thesis
    by (rule that [OF run]) (use cur st in \<open>simp_all add: k_waits_def isCurrentControl_def new_sender_def\<close>)
qed

lemma setup_initial:
  assumes cur: "isCurrentControl (tkConn og) (tkGeneration og) t" and st: "kOtState t = None \<or> kOtState t = Some s" "kStates t s = Some st" "kPending st = None"
    and e: "checkedIndexEnd 0 count = Inr e" and f: "MarshalPrecomputeBegin (begin_of session 0 count epoch) = Inr f"
  obtains t' p where "perform_setup count True None og s 0 session epoch t =
      (t', Inr (p, \<lparr>rqCount = of_int count, rqSetup = f, rqInitial = True, rqEpoch = epoch\<rparr>))"
    "k_waits (tkConn og) (tkGeneration og) t' s
      (st\<lparr>kEpoch := epoch, kPool := sender_clear (kPool st), kReady := False, kPending := Some p\<rparr>) p
      (new_sender session count 0 True (tkConn og) (tkGeneration og) None)"
    "kAttested t' = kAttested t"
proof -
  let ?q = "new_sender session count 0 True (tkConn og) (tkGeneration og) None"
  let ?p = "kAllocated t"
  let ?t2 = "publishOTReadyLocked s (onKState s (\<lambda>st. st\<lparr>kEpoch := epoch, kPool := sender_clear (kPool st), kReady := False\<rparr>)
      (t\<lparr>kOtState := Some s\<rparr>))"
  let ?t' = "onKState s (\<lambda>st. st\<lparr>kPending := Some ?p\<rparr>) (?t2\<lparr>kPends := (kPends t)(?p \<mapsto> ?q), kAllocated := Suc ?p\<rparr>)"
  have run: "perform_setup count True None og s 0 session epoch t =
      (?t', Inr (?p, \<lparr>rqCount = of_int count, rqSetup = f, rqInitial = True, rqEpoch = epoch\<rparr>))"
    using cur st e f by (auto simp: perform_setup_def Let_def begin_of_def new_sender_def)
  show ?thesis
    by (rule that [OF run]) (use cur st in \<open>simp_all add: k_waits_def isCurrentControl_def new_sender_def\<close>)
qed

lemma refill_starts:
  assumes cur: "isCurrentControl (tkConn og) (tkGeneration og) t" and st: "kOtState t = Some s" "kStates t s = Some st" "kPending st = None"
    and rd: "kReady st" "sender_owns_claim (kPool st) (Some claim)"
    and v: "ValidatePrecomputeCount count = Inr ()" and e: "checkedIndexEnd (sender_total_count (kPool st)) count = Inr e"
    and init: "Initialize compiled = Inr x" and rng: "32 \<le> length rng"
    and f: "MarshalPrecomputeBegin (begin_of (take 32 rng) (sender_total_count (kPool st)) count (kEpoch st)) = Inr f"
  obtains t' p where "perform_start compiled rng True count False (Some claim) (Some og) t =
      (t', Inr (s, p, \<lparr>rqCount = of_int count, rqSetup = f, rqInitial = False, rqEpoch = kEpoch st\<rparr>))"
    "k_waits (tkConn og) (tkGeneration og) t' s (st\<lparr>kPending := Some p\<rparr>) p
      (new_sender (take 32 rng) count (sender_total_count (kPool st)) False (tkConn og) (tkGeneration og) (Some claim))"
proof -
  have pre: "perform_preflight count False (Some claim) og t = (t, Inr (s, sender_total_count (kPool st)))"
    using cur st rd e by (simp add: perform_preflight_def Let_def)
  have id: "newSenderPrecomputeIdentity rng (sender_total_count (kPool st)) count False = Inr (take 32 rng, [], drop 32 rng)"
    using e rng by (simp add: newSenderPrecomputeIdentity_def NewExtensionSession_def readFull_def)
  obtain t' p where su: "perform_setup count False (Some claim) og s (sender_total_count (kPool st)) (take 32 rng) [] t =
      (t', Inr (p, \<lparr>rqCount = of_int count, rqSetup = f, rqInitial = False, rqEpoch = kEpoch st\<rparr>))"
    and w: "k_waits (tkConn og) (tkGeneration og) t' s (st\<lparr>kPending := Some p\<rparr>) p
      (new_sender (take 32 rng) count (sender_total_count (kPool st)) False (tkConn og) (tkGeneration og) (Some claim))"
    by (rule setup_refill [OF cur st rd e f])
  have "isCurrentControl (tkConn og) (tkGeneration og) t'" using w by (simp add: k_waits_def)
  then have "perform_start compiled rng True count False (Some claim) (Some og) t =
      (t', Inr (s, p, \<lparr>rqCount = of_int count, rqSetup = f, rqInitial = False, rqEpoch = kEpoch st\<rparr>))"
    by (simp add: perform_start_def v pre init id su)
  then show ?thesis using that w by blast
qed

lemma initial_starts:
  assumes ctl: "kControlConn t = Some conn" "kAttested t"
    and st: "kOtState t = None \<and> st = NewOTPrecomputeState \<or> kOtState t = Some s0 \<and> kStates t s0 = Some st \<and> kPending st = None"
    and v: "ValidatePrecomputeCount count = Inr ()" and init: "Initialize compiled = Inr x"
    and id: "newSenderPrecomputeIdentity rng 0 count True = Inr (session, epoch, rest)"
    and f: "MarshalPrecomputeBegin (begin_of session 0 count epoch) = Inr f"
  obtains t' s p where "perform_start compiled rng True count True None None t =
      (t', Inr (s, p, \<lparr>rqCount = of_int count, rqSetup = f, rqInitial = True, rqEpoch = epoch\<rparr>))"
    "k_waits conn (kControlGeneration t) t' s
      (st\<lparr>kEpoch := epoch, kPool := sender_clear (kPool st), kReady := False, kPending := Some p\<rparr>) p
      (new_sender session count 0 True conn (kControlGeneration t) None)"
proof -
  let ?og = "\<lparr>tkId = kAllocated t, tkConn = conn, tkGeneration = kControlGeneration t, tkSession = None\<rparr>"
  define t0 where "t0 = t\<lparr>kAllocated := Suc (kAllocated t)\<rparr>"
  have tok: "currentAttestedControlToken t = (t0, Inr ?og)" using ctl by (simp add: currentAttestedControlToken_def t0_def)
  obtain e where e: "checkedIndexEnd 0 count = Inr e" using id by (auto simp: newSenderPrecomputeIdentity_def split: sum.splits)
  have cur0: "isCurrentControl conn (kControlGeneration t) t0" using ctl by (simp add: isCurrentControl_def t0_def)
  obtain t1 s where pre: "perform_preflight count True None ?og t0 = (t1, Inr (s, 0))"
    and k1: "kStates t1 s = Some st" "kOtState t1 = None \<or> kOtState t1 = Some s" "isCurrentControl conn (kControlGeneration t) t1"
    and pend: "kPending st = None"
    using st
  proof
    assume n: "kOtState t = None \<and> st = NewOTPrecomputeState"
    show ?thesis
      by (rule that [of "t0\<lparr>kStates := (kStates t0)(kAllocated t0 \<mapsto> NewOTPrecomputeState), kAllocated := Suc (kAllocated t0)\<rparr>" "kAllocated t0"])
        (use n cur0 e in \<open>simp_all add: perform_preflight_def isCurrentControl_def t0_def NewOTPrecomputeState_def\<close>)
  next
    assume n: "kOtState t = Some s0 \<and> kStates t s0 = Some st \<and> kPending st = None"
    show ?thesis
      by (rule that [of t0 s0]) (use n cur0 e in \<open>simp_all add: perform_preflight_def isCurrentControl_def t0_def\<close>)
  qed
  have cur1: "isCurrentControl (tkConn ?og) (tkGeneration ?og) t1" using k1(3) by simp
  obtain t' p where su: "perform_setup count True None ?og s 0 session epoch t1 =
      (t', Inr (p, \<lparr>rqCount = of_int count, rqSetup = f, rqInitial = True, rqEpoch = epoch\<rparr>))"
    and w: "k_waits (tkConn ?og) (tkGeneration ?og) t' s
      (st\<lparr>kEpoch := epoch, kPool := sender_clear (kPool st), kReady := False, kPending := Some p\<rparr>) p
      (new_sender session count 0 True (tkConn ?og) (tkGeneration ?og) None)"
    by (rule setup_initial [OF cur1 k1(2,1) pend e f])
  have w': "k_waits conn (kControlGeneration t) t' s
      (st\<lparr>kEpoch := epoch, kPool := sender_clear (kPool st), kReady := False, kPending := Some p\<rparr>) p
      (new_sender session count 0 True conn (kControlGeneration t) None)" using w by simp
  then have "isCurrentControl conn (kControlGeneration t) t'" by (simp add: k_waits_def)
  then have "perform_start compiled rng True count True None None t =
      (t', Inr (s, p, \<lparr>rqCount = of_int count, rqSetup = f, rqInitial = True, rqEpoch = epoch\<rparr>))"
    by (simp add: perform_start_def v tok pre init id su)
  then show ?thesis using that w' by blast
qed

section \<open>The three responses\<close>

lemma k_waits_onKPend:
  assumes "k_waits conn gen t s st p q" "spConn (f q) = conn" "spGeneration (f q) = gen"
  shows "k_waits conn gen (onKPend p f t) s st p (f q)"
  using assms by (simp add: k_waits_def isCurrentControl_def)

lemma k_waits_same:
  fixes t t' :: "'b teek"
  assumes "k_waits conn gen t s st p q" "kControlConn t' = kControlConn t" "kControlGeneration t' = kControlGeneration t"
    "kOtState t' = kOtState t" "kStates t' = kStates t" "kPends t' = kPends t"
  shows "k_waits conn gen t' s st p q"
  using assms by (simp add: k_waits_def isCurrentControl_def)

lemma k_claims:
  assumes w: "k_waits conn gen t s st p q" and c: "int (unat cnt) = spCount q"
  shows "spPhase q = SAwaitBaseSetup \<Longrightarrow>
      response_claim s conn gen cnt t = (onKPend p (\<lambda>q. q\<lparr>spPhase := SAwaitCommitment\<rparr>) t, Inr (p, q))"
    "spPhase q = SAwaitCommitment \<Longrightarrow>
      response_claim s conn gen cnt t = (onKPend p (\<lambda>q. q\<lparr>spPhase := SProcessingCommitment\<rparr>) t, Inr (p, q))"
    "spPhase q = SAwaitProof \<Longrightarrow>
      response_claim s conn gen cnt t = (onKPend p (\<lambda>q. q\<lparr>spPhase := SProcessingProof\<rparr>) t, Inr (p, q))"
  using w c by (simp_all add: response_claim_def k_waits_def del: of_nat_unat)

lemma sender_chooses:
  assumes w: "k_waits conn gen t s st p q" and ph: "spPhase q = SAwaitBaseSetup" "spBase q = None"
    and c: "int (unat cnt) = spCount q" and u: "UnmarshalPrecomputeBaseSetup data (spSession q) = Inr stp"
    and start: "StartBaseOTReceiver co (Some rng) (spSession q) stp = Inr (rs, choices, rest)"
    and f: "MarshalPrecomputeBaseChoices (spSession q) choices = Inr f"
  obtains t' b where "handleOTPrecomputeResponse co rng True during conn gen cnt data t = (t', Inr (Inl (k_request q st f)))"
    "k_waits conn gen t' s st p (q\<lparr>spPhase := SAwaitCommitment, spBase := Some b\<rparr>)" "kBases t' b = Some rs"
proof -
  define t1 where "t1 = onKPend p (\<lambda>q. q\<lparr>spPhase := SAwaitCommitment\<rparr>) t"
  have w1: "k_waits conn gen t1 s st p (q\<lparr>spPhase := SAwaitCommitment\<rparr>)"
    unfolding t1_def by (rule k_waits_onKPend [OF w]) (use w in \<open>simp_all add: k_waits_def\<close>)
  define t2 where "t2 = fst (newKBase rs t1)"
  have w2: "k_waits conn gen t2 s st p (q\<lparr>spPhase := SAwaitCommitment\<rparr>)"
    by (rule k_waits_same [OF w1]) (simp_all add: t2_def newKBase_def)
  have n: "newKBase rs t1 = (t2, kAllocated t1)" by (simp add: t2_def newKBase_def)
  define t3 where "t3 = onKPend p (\<lambda>q. q\<lparr>spBase := Some (kAllocated t1)\<rparr>) t2"
  have w3: "k_waits conn gen t3 s st p (q\<lparr>spPhase := SAwaitCommitment, spBase := Some (kAllocated t1)\<rparr>)"
    using k_waits_onKPend [OF w2, of "\<lambda>q. q\<lparr>spBase := Some (kAllocated t1)\<rparr>"] w2 by (simp add: t3_def k_waits_def)
  have r: "response_base_setup co rng True s conn gen p q data t1 = (t3, Inr (k_request q st f))"
    using w2 w3 u start f ph(2)
    by (simp add: response_base_setup_def n k_waits_def publish_guard_def t3_def Let_def)
  have "kOtState t = Some s" using w by (simp add: k_waits_def)
  then have "handleOTPrecomputeResponse co rng True during conn gen cnt data t = (t3, Inr (Inl (k_request q st f)))"
    using r ph(1) by (simp add: handleOTPrecomputeResponse_def k_claims(1) [OF w c ph(1)] t1_def)
  moreover have "kBases t3 (kAllocated t1) = Some rs" by (simp add: t3_def t2_def newKBase_def)
  ultimately show ?thesis using that w3 by blast
qed

lemma sender_challenges:
  assumes w: "k_waits conn gen t s st p q" and ph: "spPhase q = SAwaitCommitment" "spBase q = Some b" "kBases t b = Some rs"
    and c: "int (unat cnt) = spCount q"
    and u: "UnmarshalPrecomputeCommitmentFor data (begin_of (spSession q) (spStartIndex q) (spCount q) (kEpoch st)) = Inr (cm, com)"
    and fin: "snd (FinishBaseOTReceiver co (Some rs) cm) = Inr (selected, d)"
    and start: "StartExtensionSender (Some rng) selected d (kEpoch st) cm (Some com) = Inr (sx, ch, rest)"
    and f: "MarshalExtensionChallenge (Some ch) = Inr f"
  obtains t' x where "handleOTPrecomputeResponse co rng True during conn gen cnt data t = (t', Inr (Inl (k_request q st f)))"
    "k_waits conn gen t' s st p (q\<lparr>spExtension := Some x, spPhase := SAwaitProof\<rparr>)" "kExts t' x = Some sx"
proof -
  define t1 where "t1 = onKPend p (\<lambda>q. q\<lparr>spPhase := SProcessingCommitment\<rparr>) t"
  have w1: "k_waits conn gen t1 s st p (q\<lparr>spPhase := SProcessingCommitment\<rparr>)"
    unfolding t1_def by (rule k_waits_onKPend [OF w]) (use w in \<open>simp_all add: k_waits_def\<close>)
  define t2 where "t2 = fst (newKExt sx (destroyKBase (Some b) t1))"
  have w2: "k_waits conn gen t2 s st p (q\<lparr>spPhase := SProcessingCommitment\<rparr>)"
    by (rule k_waits_same [OF w1]) (simp_all add: t2_def newKExt_def)
  have n: "newKExt sx (destroyKBase (Some b) t1) = (t2, kAllocated t1)" by (simp add: t2_def newKExt_def)
  define t3 where "t3 = onKPend p (\<lambda>q. q\<lparr>spExtension := Some (kAllocated t1), spPhase := SAwaitProof\<rparr>) t2"
  have w3: "k_waits conn gen t3 s st p (q\<lparr>spExtension := Some (kAllocated t1), spPhase := SAwaitProof\<rparr>)"
    using k_waits_onKPend [OF w2, of "\<lambda>q. q\<lparr>spExtension := Some (kAllocated t1), spPhase := SAwaitProof\<rparr>"] w2
    by (simp add: t3_def k_waits_def)
  have b1: "kBases t1 b = Some rs" using ph(3) by (simp add: t1_def)
  have r: "response_commitment co rng True s conn gen p q data t1 = (t3, Inr (k_request q st f))"
    using w1 w2 u fin start f ph(2) b1
    by (simp add: response_commitment_def n k_waits_def publish_guard_def t3_def Let_def begin_of_def)
  have "kOtState t = Some s" using w by (simp add: k_waits_def)
  then have "handleOTPrecomputeResponse co rng True during conn gen cnt data t = (t3, Inr (Inl (k_request q st f)))"
    using r ph(1) by (simp add: handleOTPrecomputeResponse_def k_claims(2) [OF w c ph(1)] t1_def)
  moreover have "kExts t3 (kAllocated t1) = Some sx" by (simp add: t3_def t2_def newKExt_def)
  ultimately show ?thesis using that w3 by blast
qed

text \<open>The pool a committed batch leaves: the transfers are appended and a refill's claim is
  released.\<close>

definition committed_pool :: "senderPrecompute \<Rightarrow> SenderPool \<Rightarrow> SenderPool" where
  "committed_pool q pool = (if spInitial q then pool else fst (sender_release_claim pool (spClaim q)))"

lemma sender_completes:
  assumes w: "k_waits conn gen t s st p q" and ph: "spPhase q = SAwaitProof" "spExtension q = Some x" "kExts t x = Some sx"
    and c: "int (unat cnt) = spCount q" and dn: "spDone q = None"
    and u: "UnmarshalExtensionProofFor data (spSession q) = Inr pf"
    and fin: "snd (FinishExtensionSender (Some sx) (Some pf)) = Inr sots"
    and own: "spInitial q \<or> sender_owns_claim (kPool st) (spClaim q)" "sender_total_count (kPool st) = spStartIndex q"
    and tot: "checkedIndexEnd (spStartIndex q) (int (length sots)) = Inr psize"
    and add: "sender_add (kPool st) sots = (pool, Inr ())"
  obtains t' where "handleOTPrecomputeResponse co rng True (\<lambda>t. t) conn gen cnt data t = (t', Inr (Inr psize))"
    "kOtState t' = Some s" "isCurrentControl conn gen t'" "kPends t' p = Some (q\<lparr>spPhase := SProcessingProof, spDone := Some (Inr ())\<rparr>)"
    "kStates t' s = Some (st\<lparr>kPool := committed_pool q pool, kEpoch := ExtensionEpoch (spSession q), kPending := None,
       kReady := (if spInitial q then True else kReady st), kInconsistent := (if spInitial q then False else kInconsistent st)\<rparr>)"
proof -
  let ?q1 = "q\<lparr>spPhase := SProcessingProof\<rparr>"
  define t1 where "t1 = onKPend p (\<lambda>q. q\<lparr>spPhase := SProcessingProof\<rparr>) t"
  have w1: "k_waits conn gen t1 s st p ?q1"
    unfolding t1_def by (rule k_waits_onKPend [OF w]) (use w in \<open>simp_all add: k_waits_def\<close>)
  note k = w1 [unfolded k_waits_def]
  have cur: "pending_control_current p t1" "batch_current s p t1"
    using k own by (simp_all add: pending_control_current_def batch_current_def)
  let ?f = "\<lambda>st. st\<lparr>kPool := committed_pool q pool, kEpoch := ExtensionEpoch (spSession q), kPending := None,
      kReady := (if spInitial q then True else kReady st), kInconsistent := (if spInitial q then False else kInconsistent st)\<rparr>"
  define t2 where "t2 = signalSenderPrecompute (Some p) (Inr ()) (publishOTReadyLocked s (onKState s ?f t1))"
  have com: "sender_commit s p sots t1 = (t2, Inr ())"
    unfolding sender_commit_def using cur k add by (simp add: t2_def committed_pool_def Let_def)
  have "sender_validate_add (kPool st) sots = Inr ()" using add by (auto simp: sender_add_def split: sum.splits)
  then have cp: "completeSenderPrecompute True (\<lambda>t. t) s p sots t1 = (t2, Inr psize)"
    unfolding completeSenderPrecompute_def using cur k tot com by simp
  have x1: "kExts t1 x = Some sx" using ph(3) by (simp add: t1_def)
  have r: "response_proof True (\<lambda>t. t) s p q data t1 = (destroyKExt (Some x) t2, Inr psize)"
    using u fin ph(2) x1 cp by (simp add: response_proof_def)
  have "kOtState t = Some s" using w by (simp add: k_waits_def)
  then have run: "handleOTPrecomputeResponse co rng True (\<lambda>t. t) conn gen cnt data t = (destroyKExt (Some x) t2, Inr (Inr psize))"
    using r ph(1) by (simp add: handleOTPrecomputeResponse_def k_claims(3) [OF w c ph(1)] t1_def)
  show ?thesis
    by (rule that [OF run])
      (use k dn in \<open>simp_all add: t2_def signalSenderPrecompute_def isCurrentControl_def\<close>)
qed

end
