(* ===== verification/Tee_K_Steps.thy ===== *)
theory Tee_K_Steps
  imports Exchange_Sender
begin

text \<open>
  All interleavings of the sender service. Every section that runs under the service's locks is
  a step, for whatever arguments an unlocked part of a handler computed before. One lifecycle of
  a control connection follows the other, as the supervisor loop runs them; everything else is
  concurrent. The invariant: the published readiness flag is exact, and the pending batch is live
  and belongs to the current control connection.
\<close>

section \<open>Steps\<close>

inductive teek_step :: "'b teek \<Rightarrow> 'b teek \<Rightarrow> bool" where
  install: "kControlConn t = None \<Longrightarrow> installControlConnection t = (t', x) \<Longrightarrow> teek_step t t'"
| attestation: "teek_step t (t\<lparr>kAttested := a, kTeetAttested := b, kControlHealthy := h\<rparr>)"
| sessions: "teek_step t (t\<lparr>kSessions := a, kSessionConns := b, kAcknowledged := c, kSessionStates := d, closedConns := e\<rparr>)"
| token: "currentAttestedControlToken t = (t', x) \<Longrightarrow> teek_step t t'"
| alloc: "teek_step t (t\<lparr>kAllocated := Suc (kAllocated t)\<rparr>)"
| teardown: "tearDownControl conn gen t = (t', x) \<Longrightarrow> teek_step t t'"
| preflight: "perform_preflight cnt initial claim og t = (t', x) \<Longrightarrow> teek_step t t'"
| setup_batch: "perform_setup cnt initial claim og s start session epoch t = (t', x) \<Longrightarrow> teek_step t t'"
| fail: "failPendingPrecompute s p e t = (t', x) \<Longrightarrow> teek_step t t'"
| fail_clear: "failPendingPrecomputeAndClear s p e t = (t', x) \<Longrightarrow> teek_step t t'"
| claim: "response_claim s conn gen cnt t = (t', x) \<Longrightarrow> teek_step t t'"
| new_base: "newKBase rs t = (t', b) \<Longrightarrow> teek_step t t'"
| publish_base: "publish_guard s conn gen p SAwaitCommitment t \<Longrightarrow>
    teek_step t (onKPend p (\<lambda>q. q\<lparr>spBase := Some b\<rparr>) t)"
| new_ext: "newKExt es t = (t', b) \<Longrightarrow> teek_step t t'"
| publish_ext: "publish_guard s conn gen p SProcessingCommitment t \<Longrightarrow>
    teek_step t (onKPend p (\<lambda>q. q\<lparr>spExtension := Some x, spPhase := SAwaitProof\<rparr>) t)"
| wipe_base: "teek_step t (destroyKBase bo t)"
| wipe_ext: "teek_step t (destroyKExt eo t)"
| commit: "sender_commit s p entries t = (t', x) \<Longrightarrow> teek_step t t'"
| recover: "recoverFailedClaimedOTExtension claim og t = (t', x) \<Longrightarrow> teek_step t t'"
| reserve: "reserve_section sc session x rangeIndex cnt t = (t', y) \<Longrightarrow> teek_step t t'"
| abandon: "abandonOTReservation x rangeIndex rv t = (t', y) \<Longrightarrow> teek_step t t'"
| clear_pool: "teek_step t (clearOTPool t)"
| suspend: "teek_step t (suspendOTPoolForReconnect t)"
| resumed_claim: "kOtState t = Some s \<Longrightarrow> kStates t s = Some st \<Longrightarrow> sender_claim_extend (kPool st) = (pool, co) \<Longrightarrow>
    teek_step t (publishOTReadyLocked s (onKState s (\<lambda>st. st\<lparr>kPool := pool\<rparr>) t))"
| publish: "kOtState t = Some s \<Longrightarrow> teek_step t (publishOTReadyLocked s t)"
| release: "kOtState t = Some s \<Longrightarrow> teek_step t (release_and_publish s claim t)"
| resume_start: "kOtState t = Some s \<Longrightarrow>
    teek_step t (onKState s (\<lambda>st. st\<lparr>kResumePending := rp, kResumeChan := rc\<rparr>) t)"
| resume_response: "handleOTResumeResponse conn gen accepted t = (t', x) \<Longrightarrow> teek_step t t'"
| resume_accept: "kOtState t = Some s \<Longrightarrow>
    teek_step t (publishOTReadyLocked s (onKState s (\<lambda>st. st\<lparr>kInconsistent := False\<rparr>) t))"

inductive teek_reach :: "'b teek \<Rightarrow> bool" where
  init: "teek_reach newTEEK"
| step: "teek_reach t \<Longrightarrow> teek_step t t' \<Longrightarrow> teek_reach t'"

section \<open>The invariant\<close>

definition k_wf :: "'b teek \<Rightarrow> bool" where
  "k_wf t \<longleftrightarrow>
     kOtReady t = isOTPoolReady t \<and>
     (\<forall>s. kOtState t = Some s \<longrightarrow> kStates t s \<noteq> None) \<and>
     (\<forall>s st. kStates t s = Some st \<longrightarrow> kOtState t \<noteq> Some s \<longrightarrow> \<not> kReady st \<and> kPending st = None) \<and>
     (\<forall>s st p. kStates t s = Some st \<longrightarrow> kPending st = Some p \<longrightarrow>
        (\<exists>q. kPends t p = Some q \<and> spDone q = None \<and> isCurrentControl (spConn q) (spGeneration q) t)) \<and>
     (\<forall>n. kAllocated t \<le> n \<longrightarrow> kStates t n = None \<and> kPends t n = None)"

lemma k_wfD:
  assumes "k_wf t"
  shows "kOtReady t = isOTPoolReady t" "kOtState t = Some s \<Longrightarrow> kStates t s \<noteq> None"
    "kStates t s = Some st \<Longrightarrow> kOtState t \<noteq> Some s \<Longrightarrow> \<not> kReady st \<and> kPending st = None"
    "kStates t s = Some st \<Longrightarrow> kPending st = Some p \<Longrightarrow>
       \<exists>q. kPends t p = Some q \<and> spDone q = None \<and> isCurrentControl (spConn q) (spGeneration q) t"
    "kAllocated t \<le> n \<Longrightarrow> kStates t n = None \<and> kPends t n = None"
  using assms unfolding k_wf_def by blast+

lemma ready_cong: "kOtState t' = kOtState t \<Longrightarrow> kStates t' = kStates t \<Longrightarrow> isOTPoolReady t' = isOTPoolReady t"
  by (cases "kOtState t") (simp_all add: isOTPoolReady_def)

lemma ready_Some: "kOtState t = Some s \<Longrightarrow> kStates t s = Some st \<Longrightarrow> isOTPoolReady t = otPoolUsableLocked st"
  by (simp add: isOTPoolReady_def)

text \<open>Changes outside the states: batches keep their control and their signals.\<close>

lemma k_wf_same:
  fixes t t' :: "'b teek"
  assumes wf: "k_wf t" and e: "kOtReady t' = kOtReady t" "kOtState t' = kOtState t" "kStates t' = kStates t"
    "kControlConn t' = kControlConn t" "kControlGeneration t' = kControlGeneration t" "kAllocated t \<le> kAllocated t'"
    and p: "\<And>p q. kPends t p = Some q \<Longrightarrow> \<exists>q'. kPends t' p = Some q' \<and> spDone q' = spDone q \<and> spConn q' = spConn q \<and> spGeneration q' = spGeneration q"
      "\<And>p. kAllocated t' \<le> p \<Longrightarrow> kPends t' p = None"
  shows "k_wf t'"
  unfolding k_wf_def e(2,3) e(1) ready_cong [OF e(2,3)]
proof (intro conjI allI impI)
  fix s st x assume "kStates t s = Some st" "kPending st = Some x"
  then obtain q where "kPends t x = Some q" "spDone q = None" "isCurrentControl (spConn q) (spGeneration q) t"
    using k_wfD(4) [OF wf] by blast
  then show "\<exists>q. kPends t' x = Some q \<and> spDone q = None \<and> isCurrentControl (spConn q) (spGeneration q) t'"
    using p(1) [of x q] e(4,5) by (fastforce simp: isCurrentControl_def)
qed (use k_wfD [OF wf] e(6) p(2) in auto)

lemma k_wf_simple:
  fixes t t' :: "'b teek"
  assumes "k_wf t" "kOtReady t' = kOtReady t" "kOtState t' = kOtState t" "kStates t' = kStates t" "kPends t' = kPends t"
    "kControlConn t' = kControlConn t" "kControlGeneration t' = kControlGeneration t" "kAllocated t \<le> kAllocated t'"
  shows "k_wf t'"
  by (rule k_wf_same [OF assms(1-4,6-8)]) (use assms k_wfD(5) [OF assms(1)] in auto)

lemma k_wf_onKPend:
  assumes "k_wf t" "\<And>q. spDone (f q) = spDone q \<and> spConn (f q) = spConn q \<and> spGeneration (f q) = spGeneration q"
  shows "k_wf (onKPend p f t)"
  by (rule k_wf_same [OF assms(1)]) (use assms(2) k_wfD(5) [OF assms(1)] in \<open>auto simp: onKPend_def\<close>)

text \<open>A change of the published state, with the flag published.\<close>

lemma k_wf_update:
  fixes t t' :: "'b teek"
  assumes wf: "k_wf t" and s: "kOtState t' = Some s" "kOtState t = Some s \<or> kOtState t = None"
    and st: "kStates t' = (kStates t)(s \<mapsto> st')" and r: "kOtReady t' = otPoolUsableLocked st'"
    and a: "kAllocated t \<le> kAllocated t'" "s < kAllocated t'" "\<And>n. kAllocated t' \<le> n \<Longrightarrow> kPends t' n = None"
    and p: "\<And>p. kPending st' = Some p \<Longrightarrow>
      \<exists>q. kPends t' p = Some q \<and> spDone q = None \<and> isCurrentControl (spConn q) (spGeneration q) t'"
  shows "k_wf t'"
  unfolding k_wf_def
proof (intro conjI allI impI)
  show "kOtReady t' = isOTPoolReady t'" using r s(1) st by (simp add: isOTPoolReady_def)
  have other: "\<not> kReady x \<and> kPending x = None" if "kStates t' i = Some x" "i \<noteq> s" for i x
    using k_wfD(3) [OF wf, of i x] that s(2) st by auto
  show "\<not> kReady x" "kPending x = None" if "kStates t' i = Some x" "kOtState t' \<noteq> Some i" for i x
    using other [OF that(1)] that(2) s(1) by auto
  show "\<exists>q. kPends t' y = Some q \<and> spDone q = None \<and> isCurrentControl (spConn q) (spGeneration q) t'"
    if "kStates t' i = Some x" "kPending x = Some y" for i x y
    using other [OF that(1)] that p [of y] st by (cases "i = s") auto
  show "kStates t' n = None" if "kAllocated t' \<le> n" for n
    using that a k_wfD(5) [OF wf, of n] st by auto
qed (use s(1) st a(3) in auto)

section \<open>Ending batches\<close>

lemma ready_fields [simp]:
  "kOtReady (onKState s f t) = kOtReady t" "kOtReady (onKPend p g t) = kOtReady t" "kOtReady (destroyKBase b t) = kOtReady t"
  "kOtReady (destroyKExt e t) = kOtReady t" "kOtReady (closeConn c t) = kOtReady t"
  "kOtReady (publishOTReadyLocked s t) = (case kStates t s of None \<Rightarrow> False | Some st \<Rightarrow> otPoolUsableLocked st)"
  by (simp_all add: onKState_def onKPend_def destroyKBase_def destroyKExt_def closeConn_def publishOTReadyLocked_def split: option.split)

lemma closeConn_fields [simp]:
  "kControlConn (closeConn c t) = kControlConn t" "kControlGeneration (closeConn c t) = kControlGeneration t"
  "kOtState (closeConn c t) = kOtState t" "kStates (closeConn c t) = kStates t" "kPends (closeConn c t) = kPends t"
  "kAllocated (closeConn c t) = kAllocated t" "kAttested (closeConn c t) = kAttested t"
  by (simp_all add: closeConn_def)

definition ended_pends :: "'b teek \<Rightarrow> 'b teek \<Rightarrow> bool" where
  "ended_pends t t' \<longleftrightarrow> kOtReady t' = kOtReady t \<and> kOtState t' = kOtState t \<and> kStates t' = kStates t \<and>
     kAllocated t' = kAllocated t \<and> (\<forall>n. kPends t n = None \<longrightarrow> kPends t' n = None)"

lemma ended_pends_trans: "ended_pends t t1 \<Longrightarrow> ended_pends t1 t2 \<Longrightarrow> ended_pends t t2"
  by (simp add: ended_pends_def)

lemma signal_ended: "ended_pends t (signalSenderPrecompute po r t)"
  by (simp add: ended_pends_def signalSenderPrecompute_def split: option.split)

lemma destroyIdle_ended: "ended_pends t (destroyIdleSenderPrecompute po t)"
  by (simp add: ended_pends_def destroyIdleSenderPrecompute_def split: option.split)

lemma finish_ended: "ended_pends t (signalSenderPrecompute po r (destroyIdleSenderPrecompute po' t))"
  by (rule ended_pends_trans [OF destroyIdle_ended signal_ended])

text \<open>The published state loses its pending batch.\<close>

lemma k_wf_end:
  fixes t t' :: "'b teek"
  assumes wf: "k_wf t" and s: "kOtState t = Some s" "kStates t s = Some st" and f: "kPending (f st) = None"
    and u: "ended_pends (publishOTReadyLocked s (onKState s f t)) t' \<or>
      ended_pends (onKState s f t) t' \<and> otPoolUsableLocked (f st) = otPoolUsableLocked st"
  shows "k_wf t'"
proof (rule k_wf_update [OF wf])
  show "kStates t' = (kStates t)(s \<mapsto> f st)" using u s by (auto simp: ended_pends_def)
  show "kOtReady t' = otPoolUsableLocked (f st)"
    using u s k_wfD(1) [OF wf] ready_Some [OF s] by (auto simp: ended_pends_def)
  show "s < kAllocated t'" using k_wfD(5) [OF wf, of s] s u by (cases "kAllocated t \<le> s") (auto simp: ended_pends_def)
  show "kPends t' n = None" if "kAllocated t' \<le> n" for n
    using that u k_wfD(5) [OF wf, of n] by (auto simp: ended_pends_def)
qed (use u s f in \<open>auto simp: ended_pends_def\<close>)

lemma usable_pending [simp]: "otPoolUsableLocked (st\<lparr>kPending := x\<rparr>) = otPoolUsableLocked st"
  by (simp add: otPoolUsableLocked_def)

lemma failPending_wf:
  assumes "k_wf t" "failPendingPrecompute s p e t = (t', x)"
  shows "k_wf t'"
proof (cases "t' = t")
  case False
  then obtain st where s: "kOtState t = Some s" "kStates t s = Some st"
    and t': "t' = signalSenderPrecompute (Some p) (Inl e) (destroyIdleSenderPrecompute (Some p) (onKState s (\<lambda>st. st\<lparr>kPending := None\<rparr>) t))"
    using assms(2) by (auto simp: failPendingPrecompute_def split: option.splits if_splits)
  show ?thesis by (rule k_wf_end [OF assms(1) s]) (use finish_ended in \<open>auto simp: t'\<close>)
qed (use assms in simp)

lemma failClear_wf:
  assumes "k_wf t" "failPendingPrecomputeAndClear s p e t = (t', x)"
  shows "k_wf t'"
proof (cases "t' = t")
  case False
  then obtain st pool where s: "kOtState t = Some s" "kStates t s = Some st"
    and t': "t' = signalSenderPrecompute (Some p) (Inl e) (destroyIdleSenderPrecompute (Some p) (publishOTReadyLocked s
        (onKState s (\<lambda>st. st\<lparr>kPool := pool, kReady := False, kPending := None\<rparr>) t)))"
    using assms(2) by (auto simp: failPendingPrecomputeAndClear_def Let_def split: option.splits if_splits prod.splits)
  show ?thesis by (rule k_wf_end [OF assms(1) s]) (use finish_ended in \<open>auto simp: t'\<close>)
qed (use assms in simp)

lemma clearOTPool_wf: "k_wf t \<Longrightarrow> k_wf (clearOTPool t)"
proof (cases "kOtState t")
  case (Some s)
  assume wf: "k_wf t"
  show ?thesis
  proof (cases "kStates t s")
    case st: (Some st)
    show ?thesis
      by (rule k_wf_end [OF wf Some st,
            of "\<lambda>st. st\<lparr>kPool := sender_clear (kPool st), kPending := None, kReady := False, kInconsistent := False, kResumePending := None\<rparr>"])
        (use Some st finish_ended in \<open>auto simp: clearOTPool_def\<close>)
  qed (use Some wf in \<open>simp add: clearOTPool_def\<close>)
qed (simp add: clearOTPool_def)

lemma suspendK_state:
  "(suspendOTPoolForReconnect t = t \<and> (\<forall>s. kOtState t = Some s \<longrightarrow> kStates t s = None)) \<or>
   (\<exists>s st f. kOtState t = Some s \<and> kStates t s = Some st \<and> kPending (f st) = None \<and>
      ended_pends (publishOTReadyLocked s (onKState s f t)) (suspendOTPoolForReconnect t))"
proof (cases "kOtState t")
  case (Some s)
  show ?thesis
  proof (cases "kStates t s")
    case st: (Some st)
    let ?f = "if kReady st then (\<lambda>st. st\<lparr>kPending := None, kPool := sender_invalidate_claim (kPool st)\<rparr>)
      else (\<lambda>st. st\<lparr>kPool := sender_clear (kPool st), kPending := None, kReady := False, kInconsistent := False, kResumePending := None\<rparr>)"
    have "ended_pends (publishOTReadyLocked s (onKState s ?f t)) (suspendOTPoolForReconnect t)"
      using Some st by (simp add: suspendOTPoolForReconnect_def clearOTPool_def finish_ended)
    then show ?thesis using Some st by (intro disjI2 exI [of _ s] exI [of _ st] exI [of _ ?f]) simp
  qed (use Some in \<open>simp add: suspendOTPoolForReconnect_def\<close>)
qed (simp add: suspendOTPoolForReconnect_def)

lemma suspendK_wf: "k_wf t \<Longrightarrow> k_wf (suspendOTPoolForReconnect t)"
  using suspendK_state [of t] k_wf_end by metis

section \<open>Control connections\<close>

lemma k_wf_idle:
  fixes t t' :: "'b teek"
  assumes wf: "k_wf t" and n: "\<And>s st. kStates t s = Some st \<Longrightarrow> kPending st = None"
    and e: "kOtReady t' = kOtReady t" "kOtState t' = kOtState t" "kStates t' = kStates t" "kAllocated t \<le> kAllocated t'"
      "kPends t' = kPends t"
  shows "k_wf t'"
  unfolding k_wf_def e(2,3,5) e(1) ready_cong [OF e(2,3)] using k_wfD [OF wf] n e(4) by auto

lemma installK_wf:
  assumes wf: "k_wf t" and c: "kControlConn t = None" and i: "installControlConnection t = (t', x)"
  shows "k_wf t'"
proof (rule k_wf_idle [OF wf])
  show "kPending st = None" if "kStates t s = Some st" for s st
    using k_wfD(4) [OF wf that] c by (cases "kPending st") (auto simp: isCurrentControl_def)
qed (use i in \<open>auto simp: installControlConnection_def Let_def\<close>)

lemma teardownK_wf:
  assumes wf: "k_wf t" and d: "tearDownControl conn gen t = (t', x)"
  shows "k_wf t'"
proof (cases "isCurrentControl conn gen t")
  case True
  let ?t = "t\<lparr>kControlConn := None, kAttested := False, kTeetAttested := False, kControlHealthy := False\<rparr>"
  have e: "kOtReady t' = kOtReady (suspendOTPoolForReconnect ?t)" "kOtState t' = kOtState (suspendOTPoolForReconnect ?t)"
    "kStates t' = kStates (suspendOTPoolForReconnect ?t)" "kPends t' = kPends (suspendOTPoolForReconnect ?t)"
    "kAllocated t' = kAllocated (suspendOTPoolForReconnect ?t)"
    using d True by (auto simp: tearDownControl_def Let_def)
  show ?thesis using suspendK_state [of ?t]
  proof
    assume n: "suspendOTPoolForReconnect ?t = ?t \<and> (\<forall>s. kOtState ?t = Some s \<longrightarrow> kStates ?t s = None)"
    show ?thesis by (rule k_wf_idle [OF wf]) (use n e k_wfD(2,3) [OF wf] in auto)
  next
    assume "\<exists>s st f. kOtState ?t = Some s \<and> kStates ?t s = Some st \<and> kPending (f st) = None \<and>
      ended_pends (publishOTReadyLocked s (onKState s f ?t)) (suspendOTPoolForReconnect ?t)"
    then obtain s st f where s: "kOtState t = Some s" "kStates t s = Some st" and f: "kPending (f st) = None"
      and u: "ended_pends (publishOTReadyLocked s (onKState s f ?t)) (suspendOTPoolForReconnect ?t)" by auto
    have "ended_pends (publishOTReadyLocked s (onKState s f t)) t'" using u e by (simp add: ended_pends_def)
    then show ?thesis using k_wf_end [OF wf s, of f] f by blast
  qed
qed (use wf d in \<open>simp add: tearDownControl_def\<close>)

section \<open>The other sections\<close>

definition same_core :: "'b teek \<Rightarrow> 'b teek \<Rightarrow> bool" where
  "same_core t t' \<longleftrightarrow> kOtReady t' = kOtReady t \<and> kOtState t' = kOtState t \<and> kStates t' = kStates t \<and> kPends t' = kPends t \<and>
     kControlConn t' = kControlConn t \<and> kControlGeneration t' = kControlGeneration t \<and> kAllocated t \<le> kAllocated t'"

lemma same_core_wf:
  assumes "k_wf t" "same_core t t'"
  shows "k_wf t'"
  by (rule k_wf_simple [OF assms(1)]) (use assms(2) in \<open>simp_all add: same_core_def\<close>)

lemma k_wf_state:
  fixes t t' :: "'b teek"
  assumes wf: "k_wf t" and s: "kOtState t = Some s" "kStates t s = Some st" and f: "kPending (f st) = kPending st"
    and u: "same_core (publishOTReadyLocked s (onKState s f t)) t' \<or>
      same_core (onKState s f t) t' \<and> otPoolUsableLocked (f st) = otPoolUsableLocked st"
  shows "k_wf t'"
proof (rule k_wf_update [OF wf])
  show "kStates t' = (kStates t)(s \<mapsto> f st)" using u s by (auto simp: same_core_def)
  show "kOtReady t' = otPoolUsableLocked (f st)"
    using u s k_wfD(1) [OF wf] ready_Some [OF s] by (auto simp: same_core_def)
  show "s < kAllocated t'" using k_wfD(5) [OF wf, of s] s u by (cases "kAllocated t \<le> s") (auto simp: same_core_def)
  show "kPends t' n = None" if "kAllocated t' \<le> n" for n
    using that u k_wfD(5) [OF wf, of n] by (auto simp: same_core_def)
  show "\<exists>q. kPends t' p = Some q \<and> spDone q = None \<and> isCurrentControl (spConn q) (spGeneration q) t'" if "kPending (f st) = Some p" for p
    using k_wfD(4) [OF wf s(2), of p] that f u by (auto simp: same_core_def isCurrentControl_def)
qed (use u s in \<open>auto simp: same_core_def\<close>)

lemma preflight_wf:
  assumes wf: "k_wf t" and d: "perform_preflight cnt initial claim og t = (t', x)"
  shows "k_wf t'"
proof (cases "t' = t")
  case False
  then have s: "kOtState t = None" and t': "t' = t\<lparr>kStates := (kStates t)(kAllocated t \<mapsto> NewOTPrecomputeState), kAllocated := Suc (kAllocated t)\<rparr>"
    using d by (auto simp: perform_preflight_def split: if_splits option.splits)
  have "\<not> kOtReady t" using k_wfD(1) [OF wf] s by (simp add: isOTPoolReady_def)
  then show ?thesis
    using k_wfD(3,4,5) [OF wf] s unfolding t' k_wf_def
    by (auto simp: isOTPoolReady_def NewOTPrecomputeState_def isCurrentControl_def)
qed (use wf in simp)

lemma responseClaim_wf:
  assumes wf: "k_wf t" and d: "response_claim s conn gen cnt t = (t', x)"
  shows "k_wf t'"
proof -
  have "t' = t \<or> (\<exists>p ph. t' = onKPend p (\<lambda>q. q\<lparr>spPhase := ph\<rparr>) t)"
    using d by (auto simp: response_claim_def split: if_splits option.splits senderPrecomputePhase.splits)
  then show ?thesis using wf k_wf_onKPend [OF wf] by auto
qed

lemma claim_available:
  "sender_available (p\<lparr>extendClaim := c\<rparr>) = sender_available p"
  "sender_available (p\<lparr>extendClaim := c, claimSupply := n\<rparr>) = sender_available p"
proof -
  have "sender_total (p\<lparr>extendClaim := c\<rparr>) = sender_total p" "sender_total (p\<lparr>extendClaim := c, claimSupply := n\<rparr>) = sender_total p"
    by (simp_all add: sender_total_def split: sum.split)
  then show "sender_available (p\<lparr>extendClaim := c\<rparr>) = sender_available p"
    "sender_available (p\<lparr>extendClaim := c, claimSupply := n\<rparr>) = sender_available p"
    by (simp_all add: sender_available_def split: sum.split)
qed

lemma release_usable: "otPoolUsableLocked (st\<lparr>kPool := fst (sender_release_claim (kPool st) c)\<rparr>) = otPoolUsableLocked st"
  by (simp add: otPoolUsableLocked_def sender_release_claim_def claim_available)

lemma recover_wf:
  assumes wf: "k_wf t" and d: "recoverFailedClaimedOTExtension claim og t = (t', x)"
  shows "k_wf t'"
proof (cases "t' = t")
  case False
  then obtain s st where s: "kOtState t = Some s" "kStates t s = Some st"
    using d by (auto simp: recoverFailedClaimedOTExtension_def split: option.splits)
  obtain pool rel where r: "sender_release_claim (kPool st) claim = (pool, rel)" by (cases "sender_release_claim (kPool st) claim")
  let ?f = "\<lambda>st. st\<lparr>kPool := pool\<rparr>" and ?g = "\<lambda>st. st\<lparr>kPool := pool, kInconsistent := True\<rparr>"
  have u: "otPoolUsableLocked (?f st) = otPoolUsableLocked st" using release_usable [of st claim] r by simp
  have eq: "onKState s (\<lambda>st. st\<lparr>kPool := fst (sender_release_claim (kPool st) claim)\<rparr>) t = onKState s ?f t"
    "onKState s (\<lambda>st. st\<lparr>kInconsistent := True\<rparr>) (onKState s ?f t) = onKState s ?g t"
    using s r by (simp_all add: onKState_def)
  have "t' = publishOTReadyLocked s (onKState s ?f t) \<or> t' = onKState s ?f t \<or>
      (\<exists>c. t' = closeConn c ((publishOTReadyLocked s (onKState s ?g t))\<lparr>kControlHealthy := False\<rparr>))"
    using d s r eq by (cases og) (auto simp: recoverFailedClaimedOTExtension_def Let_def split: if_splits)
  then show ?thesis
    using k_wf_state [OF wf s, of ?f t'] k_wf_state [OF wf s, of ?g t'] u by (fastforce simp: same_core_def)
qed (use wf in simp)

text \<open>The setup publishes the state it was given, which is the published one already or fresh, and
  an initial batch empties its pool.\<close>

definition setup_base :: "bool \<Rightarrow> nat \<Rightarrow> bytes \<Rightarrow> 'b teek \<Rightarrow> 'b teek" where
  "setup_base initial s epoch t =
     (if initial
      then publishOTReadyLocked s
        (onKState s (\<lambda>st. st\<lparr>kEpoch := epoch, kPool := sender_clear (kPool st), kReady := False\<rparr>) (t\<lparr>kOtState := Some s\<rparr>))
      else t\<lparr>kOtState := Some s\<rparr>)"

lemma setup_cases:
  assumes d: "perform_setup cnt initial claim og s start session epoch t = (t', x)"
  shows "t' = t \<or> isCurrentControl (tkConn og) (tkGeneration og) t \<and> (kOtState t = None \<or> kOtState t = Some s) \<and>
    (\<exists>st. kStates t s = Some st \<and> (t' = t\<lparr>kOtState := Some s\<rparr> \<or> kPending st = None \<and>
       (t' = setup_base initial s epoch t \<or>
        (\<exists>q. spDone q = None \<and> spConn q = tkConn og \<and> spGeneration q = tkGeneration og \<and>
           t' = onKState s (\<lambda>st. st\<lparr>kPending := Some (kAllocated t)\<rparr>)
             ((setup_base initial s epoch t)\<lparr>kPends := (kPends t)(kAllocated t \<mapsto> q), kAllocated := Suc (kAllocated t)\<rparr>)))))"
proof (cases "t' = t")
  case False
  let ?cs = "kOtState t = None \<and> \<not> initial \<or> kOtState t \<noteq> None \<and> kOtState t \<noteq> Some s"
  have c: "isCurrentControl (tkConn og) (tkGeneration og) t" "\<not> ?cs"
    using d False by (auto simp: perform_setup_def split: if_splits)
  obtain st where st: "kStates t s = Some st" using d False c by (cases "kStates t s") (auto simp: perform_setup_def)
  have "t' = t\<lparr>kOtState := Some s\<rparr> \<or> kPending st = None \<and>
       (t' = setup_base initial s epoch t \<or>
        (\<exists>q. spDone q = None \<and> spConn q = tkConn og \<and> spGeneration q = tkGeneration og \<and>
           t' = onKState s (\<lambda>st. st\<lparr>kPending := Some (kAllocated t)\<rparr>)
             ((setup_base initial s epoch t)\<lparr>kPends := (kPends t)(kAllocated t \<mapsto> q), kAllocated := Suc (kAllocated t)\<rparr>)))"
    using d c st unfolding perform_setup_def Let_def setup_base_def
    by (simp split: if_split_asm sum.split_asm) (force+)?
  then show ?thesis using c st by auto
qed simp

lemma publish_state_wf:
  assumes wf: "k_wf t" and s: "kOtState t = None \<or> kOtState t = Some s" "kStates t s = Some st"
  shows "k_wf (t\<lparr>kOtState := Some s\<rparr>)"
proof (cases "kOtState t = Some s")
  case True
  then show ?thesis by (intro k_wf_simple [OF wf]) simp_all
next
  case False
  then have n: "kOtState t = None" "\<not> kOtReady t" using s k_wfD(1) [OF wf] by (auto simp: isOTPoolReady_def)
  have st: "\<not> kReady st" "kPending st = None" using k_wfD(3) [OF wf s(2)] n by simp_all
  have lt: "s < kAllocated t" using k_wfD(5) [OF wf, of s] s(2) by (cases "kAllocated t \<le> s") auto
  show ?thesis
    by (rule k_wf_update [OF wf, where s = s and st' = st])
      (use n st s lt k_wfD(5) [OF wf] in \<open>auto simp: otPoolUsableLocked_def\<close>)
qed

lemma setup_base_wf:
  assumes wf: "k_wf t" and s: "kOtState t = None \<or> kOtState t = Some s" "kStates t s = Some st"
  shows "k_wf (setup_base initial s epoch t)"
proof -
  note w = publish_state_wf [OF assms]
  show ?thesis
    using w k_wf_state [OF w, of s st "\<lambda>st. st\<lparr>kEpoch := epoch, kPool := sender_clear (kPool st), kReady := False\<rparr>"] s(2)
    by (simp add: setup_base_def same_core_def)
qed

lemma setupBatch_wf:
  assumes wf: "k_wf t" and d: "perform_setup cnt initial claim og s start session epoch t = (t', x)"
  shows "k_wf t'"
proof -
  consider "t' = t" | st where "kOtState t = None \<or> kOtState t = Some s" "kStates t s = Some st"
      "t' = t\<lparr>kOtState := Some s\<rparr> \<or> t' = setup_base initial s epoch t"
    | st q where "isCurrentControl (tkConn og) (tkGeneration og) t" "kOtState t = None \<or> kOtState t = Some s"
      "kStates t s = Some st" "kPending st = None" "spDone q = None" "spConn q = tkConn og" "spGeneration q = tkGeneration og"
      "t' = onKState s (\<lambda>st. st\<lparr>kPending := Some (kAllocated t)\<rparr>)
         ((setup_base initial s epoch t)\<lparr>kPends := (kPends t)(kAllocated t \<mapsto> q), kAllocated := Suc (kAllocated t)\<rparr>)"
    using setup_cases [OF d] by blast
  then show ?thesis
  proof cases
    case (2 st)
    then show ?thesis using publish_state_wf [OF wf 2(1,2)] setup_base_wf [OF wf 2(1,2)] by auto
  next
    case (3 st q)
    note cur = 3(1) and k = 3(2) and s = 3(3,4) and q = 3(5-7) and t' = 3(8)
    let ?b = "setup_base initial s epoch t"
    have w: "k_wf ?b" by (rule setup_base_wf [OF wf k s(1)])
    obtain sb where sb: "kStates ?b s = Some sb" "kOtState ?b = Some s" using s(1) by (cases initial) (auto simp: setup_base_def)
    have b: "kPends ?b = kPends t" "kAllocated ?b = kAllocated t" "isCurrentControl (tkConn og) (tkGeneration og) ?b"
      using cur by (simp_all add: setup_base_def isCurrentControl_def)
    show ?thesis
    proof (rule k_wf_update [OF w, where s = s and st' = "sb\<lparr>kPending := Some (kAllocated t)\<rparr>"])
      show "kOtReady t' = otPoolUsableLocked (sb\<lparr>kPending := Some (kAllocated t)\<rparr>)"
        using k_wfD(1) [OF w] ready_Some [OF sb(2,1)] by (simp add: t')
      show "s < kAllocated t'" using k_wfD(5) [OF wf, of s] s(1) by (cases "kAllocated t \<le> s") (auto simp: t')
      show "kPends t' n = None" if "kAllocated t' \<le> n" for n using that k_wfD(5) [OF wf, of n] by (auto simp: t')
    qed (use sb b q in \<open>auto simp: t' isCurrentControl_def\<close>)
  qed (use wf in simp)
qed

lemma commit_wf:
  assumes wf: "k_wf t" and d: "sender_commit s p entries t = (t', x)"
  shows "k_wf t'"
proof (cases "pending_control_current p t \<and> batch_current s p t")
  case False
  then show ?thesis
    using d failClear_wf [OF wf prod.collapse [symmetric], of s p SenderStateChanged] by (auto simp: sender_commit_def)
next
  case True
  then obtain st q where s: "kStates t s = Some st" "kPends t p = Some q" "kOtState t = Some s" "kPending st = Some p"
    and own: "spInitial q \<or> sender_owns_claim (kPool st) (spClaim q)"
    by (auto simp: batch_current_def split: option.splits)
  have owned: "snd (sender_clear_for_extend_failure (kPool st) (spClaim q))" if "\<not> spInitial q"
    using own that by (auto simp: sender_owns_claim_def sender_clear_for_extend_failure_def)
  obtain f r where f: "kPending (f st) = None" and t': "t' = signalSenderPrecompute (Some p) r (publishOTReadyLocked s (onKState s f t))"
  proof (cases "sender_add (kPool st) entries")
    case a: (Pair pool y)
    show ?thesis
    proof (cases y)
      case (Inl e)
      let ?c = "if spInitial q then (sender_clear (kPool st), True) else sender_clear_for_extend_failure (kPool st) (spClaim q)"
      have "snd ?c" using owned by simp
      then have "t' = signalSenderPrecompute (Some p) (Inl (KMpc e))
          (publishOTReadyLocked s (onKState s (\<lambda>st. st\<lparr>kPool := fst ?c, kReady := False, kPending := None\<rparr>) t))"
        using d True s a Inl by (cases ?c) (auto simp: sender_commit_def)
      then show ?thesis by (intro that) simp_all
    next
      case (Inr u)
      let ?pool = "if spInitial q then pool else fst (sender_release_claim pool (spClaim q))"
      have "t' = signalSenderPrecompute (Some p) (Inr ()) (publishOTReadyLocked s
          (onKState s (\<lambda>st. st\<lparr>kPool := ?pool, kEpoch := ExtensionEpoch (spSession q), kPending := None,
             kReady := (if spInitial q then True else kReady st), kInconsistent := (if spInitial q then False else kInconsistent st)\<rparr>) t))"
        using d True s a Inr by (auto simp: sender_commit_def Let_def)
      then show ?thesis by (intro that) simp_all
    qed
  qed
  show ?thesis by (rule k_wf_end [OF wf s(3,1), of f, OF f]) (simp add: t' signal_ended)
qed

lemma reserve_wf:
  assumes wf: "k_wf t" and d: "reserve_section sc session x rangeIndex cnt t = (t', y)"
  shows "k_wf t'"
proof (cases "t' = t")
  case False
  then obtain s ss where s: "kOtState t = Some s" "kSessionStates t x = Some ss"
    using d by (auto simp: reserve_section_def split: option.splits)
  obtain st where st: "kStates t s = Some st" "validateSessionConnectionLocked sc t = Inr ()" "session = ksSession ss"
      "kReady st \<and> \<not> kInconsistent st \<and> OTReservations ss rangeIndex = None"
    using d False s by (auto simp: reserve_section_def split: option.splits sum.splits if_splits)
  obtain pool reserved pool' cl where r: "sender_reserve (kPool st) cnt = (pool, reserved)" "sender_claim_extend pool = (pool', cl)"
    by (meson surj_pair)
  have "same_core (publishOTReadyLocked s (onKState s (\<lambda>st. st\<lparr>kPool := pool'\<rparr>) t)) t'"
    using d s st r
    by (cases reserved) (auto simp: reserve_section_def Let_def same_core_def publishOTReadyLocked_def onKState_def onSession_def)
  then show ?thesis using k_wf_state [OF wf s(1) st(1), of "\<lambda>st. st\<lparr>kPool := pool'\<rparr>"] by simp
qed (use wf in simp)

lemma abandon_wf:
  assumes wf: "k_wf t" and d: "abandonOTReservation x rangeIndex rv t = (t', y)"
  shows "k_wf t'"
proof (cases "kSessionStates t x")
  case (Some ss)
  obtain ss' ab where a: "AbandonOTReservation rangeIndex rv ss = (ss', ab)" by (meson surj_pair)
  let ?t = "onSession x (\<lambda>_. ss') t"
  have w: "k_wf ?t" by (rule k_wf_simple [OF wf]) (simp_all add: onSession_def)
  have r: "reconcileAbandonedOTReservation ab ?t = (t', y)" using d Some a by (simp add: abandonOTReservation_def)
  show ?thesis
  proof (cases "t' = ?t")
    case False
    then obtain c s where s: "kOtState ?t = Some s"
      and t': "t' = closeConn c ((publishOTReadyLocked s (onKState s (\<lambda>st. st\<lparr>kInconsistent := True\<rparr>) ?t))\<lparr>kControlHealthy := False\<rparr>)"
      using r by (auto simp: reconcileAbandonedOTReservation_def split: option.splits if_splits)
    obtain st where st: "kStates ?t s = Some st" using k_wfD(2) [OF w s] by blast
    show ?thesis
      by (rule k_wf_state [OF w s st, of "\<lambda>st. st\<lparr>kInconsistent := True\<rparr>"])
        (simp_all add: t' same_core_def)
  qed (use w in simp)
qed (use wf d in \<open>simp add: abandonOTReservation_def\<close>)

lemma resume_usable: "otPoolUsableLocked (st\<lparr>kResumePending := a, kResumeChan := b\<rparr>) = otPoolUsableLocked st"
  by (simp add: otPoolUsableLocked_def)

lemma resumeResponse_wf:
  assumes wf: "k_wf t" and d: "handleOTResumeResponse conn gen accepted t = (t', x)"
  shows "k_wf t'"
proof (cases "t' = t")
  case False
  let ?f = "\<lambda>st. case kResumeChan st of None \<Rightarrow> st\<lparr>kResumeChan := Some (conn, gen, accepted)\<rparr> | Some _ \<Rightarrow> st"
  obtain s where s: "kOtState t = Some s" and t': "t' = onKState s ?f t"
    using d False by (auto simp: handleOTResumeResponse_def split: option.splits if_splits)
  obtain st where st: "kStates t s = Some st" using k_wfD(2) [OF wf s] by blast
  show ?thesis
    by (rule k_wf_state [OF wf s st, of ?f]) (simp_all add: t' same_core_def otPoolUsableLocked_def split: option.split)
qed (use wf in simp)

lemma step_k_wf:
  assumes "teek_step t t'" and wf: "k_wf t"
  shows "k_wf t'"
  using assms(1)
proof cases
  case (install x)
  then show ?thesis using installK_wf [OF wf] by blast
next
  case (token x)
  have "same_core t t'" using token by (auto simp: currentAttestedControlToken_def same_core_def split: option.splits if_splits)
  then show ?thesis by (rule same_core_wf [OF wf])
next
  case (publish_base s conn gen p b)
  show ?thesis unfolding publish_base(1) by (rule k_wf_onKPend [OF wf]) simp
next
  case (publish_ext s conn gen p x)
  show ?thesis unfolding publish_ext(1) by (rule k_wf_onKPend [OF wf]) simp
next
  case (resumed_claim s st pool co)
  show ?thesis unfolding resumed_claim(1)
    by (rule k_wf_state [OF wf resumed_claim(2,3), of "\<lambda>st. st\<lparr>kPool := pool\<rparr>"]) (simp_all add: same_core_def)
next
  case (publish s)
  obtain st where st: "kStates t s = Some st" using k_wfD(2) [OF wf publish(2)] by blast
  have "kOtReady (publishOTReadyLocked s t) = kOtReady t" using k_wfD(1) [OF wf] ready_Some [OF publish(2) st] st by simp
  then show ?thesis unfolding publish(1) by (intro k_wf_simple [OF wf]) simp_all
next
  case (release s claim)
  obtain st where st: "kStates t s = Some st" using k_wfD(2) [OF wf release(2)] by blast
  show ?thesis unfolding release(1) release_and_publish_def
    by (rule k_wf_state [OF wf release(2) st, of "\<lambda>st. st\<lparr>kPool := fst (sender_release_claim (kPool st) (Some claim))\<rparr>"])
      (simp_all add: same_core_def)
next
  case (resume_start s rc rp)
  obtain st where st: "kStates t s = Some st" using k_wfD(2) [OF wf resume_start(2)] by blast
  show ?thesis unfolding resume_start(1)
    by (rule k_wf_state [OF wf resume_start(2) st, of "\<lambda>st. st\<lparr>kResumePending := rp, kResumeChan := rc\<rparr>"])
      (simp_all add: same_core_def resume_usable)
next
  case (resume_accept s)
  obtain st where st: "kStates t s = Some st" using k_wfD(2) [OF wf resume_accept(2)] by blast
  show ?thesis unfolding resume_accept(1)
    by (rule k_wf_state [OF wf resume_accept(2) st, of "\<lambda>st. st\<lparr>kInconsistent := False\<rparr>"]) (simp_all add: same_core_def)
next
  case (new_base rs b)
  then show ?thesis by (intro k_wf_simple [OF wf]) (auto simp: newKBase_def)
next
  case (new_ext es b)
  then show ?thesis by (intro k_wf_simple [OF wf]) (auto simp: newKExt_def)
next
  case (teardown conn gen x)
  show ?thesis by (rule teardownK_wf [OF wf teardown])
next
  case (preflight cnt initial claim og x)
  show ?thesis by (rule preflight_wf [OF wf preflight])
next
  case (setup_batch cnt initial claim og s start session epoch x)
  show ?thesis by (rule setupBatch_wf [OF wf setup_batch])
next
  case (fail s p e x)
  show ?thesis by (rule failPending_wf [OF wf fail])
next
  case (fail_clear s p e x)
  show ?thesis by (rule failClear_wf [OF wf fail_clear])
next
  case (claim s conn gen cnt x)
  show ?thesis by (rule responseClaim_wf [OF wf claim])
next
  case (commit s p entries x)
  show ?thesis by (rule commit_wf [OF wf commit])
next
  case (recover claim og x)
  show ?thesis by (rule recover_wf [OF wf recover])
next
  case (reserve sc session x rangeIndex cnt y)
  show ?thesis by (rule reserve_wf [OF wf reserve])
next
  case (abandon x rangeIndex rv y)
  show ?thesis by (rule abandon_wf [OF wf abandon])
next
  case (resume_response conn gen accepted x)
  show ?thesis by (rule resumeResponse_wf [OF wf resume_response])
next
  case clear_pool
  show ?thesis unfolding clear_pool by (rule clearOTPool_wf [OF wf])
next
  case suspend
  show ?thesis unfolding suspend by (rule suspendK_wf [OF wf])
qed (simp_all add: k_wf_simple [OF wf])

lemma reach_k_wf: "teek_reach t \<Longrightarrow> k_wf t"
proof (induction rule: teek_reach.induct)
  case init
  show ?case by (simp add: k_wf_def newTEEK_def isOTPoolReady_def)
qed (rule step_k_wf)

end
