(* ===== verification/Tee_T_Sections.thy ===== *)
theory Tee_T_Sections
  imports Tee_T_Receiver
begin

text \<open>
  What the atomic sections of the receiver's handlers do to the state of the service: the
  batch a section ends, the fields it leaves alone, and the well-formedness that every
  section keeps.
\<close>

section \<open>What ending a batch does\<close>

definition ended :: "receiverPrecomputeOutcome \<Rightarrow> receiverPrecompute \<Rightarrow> receiverPrecompute" where
  "ended outcome r = r\<lparr>rpOutcome := outcome, rpClosed := rpClosed r + 1, rpEntries := [],
     rpBase := (if rpPhase r = ProcessingChoices then rpBase r else None),
     rpExtension := (if rpPhase r = ProcessingChallenge then rpExtension r else None)\<rparr>"

lemma ended_fields [simp]:
  "rpOutcome (ended oc r) = oc" "rpClosed (ended oc r) = Suc (rpClosed r)" "rpEntries (ended oc r) = []"
  "rpPhase (ended oc r) = rpPhase r" "rpGeneration (ended oc r) = rpGeneration r" "rpBegin (ended oc r) = rpBegin r"
  by (simp_all add: ended_def)

lemma onState_fields [simp]:
  "controlConn (onState s f t) = controlConn t" "controlGeneration (onState s f t) = controlGeneration t"
  "otReceiverState (onState s f t) = otReceiverState t" "rPends (onState s f t) = rPends t"
  "rBases (onState s f t) = rBases t" "rExts (onState s f t) = rExts t" "allocated (onState s f t) = allocated t"
  "rStates (onState s f t) = (rStates t)(s := map_option f (rStates t s))"
  by (simp_all add: onState_def)

lemma onPend_fields [simp]:
  "controlConn (onPend p f t) = controlConn t" "controlGeneration (onPend p f t) = controlGeneration t"
  "otReceiverState (onPend p f t) = otReceiverState t" "rStates (onPend p f t) = rStates t"
  "rBases (onPend p f t) = rBases t" "rExts (onPend p f t) = rExts t" "allocated (onPend p f t) = allocated t"
  "rPends (onPend p f t) = (rPends t)(p := map_option f (rPends t p))"
  by (simp_all add: onPend_def)

definition wipe_at :: "nat option \<Rightarrow> ('a \<Rightarrow> 'a) \<Rightarrow> (nat \<rightharpoonup> 'a) \<Rightarrow> (nat \<rightharpoonup> 'a)" where
  "wipe_at a f m = (case a of None \<Rightarrow> m | Some b \<Rightarrow> m(b := map_option f (m b)))"

lemma wipe_at_dom [simp]: "wipe_at a f m i = None \<longleftrightarrow> m i = None"
  by (simp add: wipe_at_def split: option.splits)

lemma destroyBase_fields [simp]:
  "controlConn (destroyBase b t) = controlConn t" "controlGeneration (destroyBase b t) = controlGeneration t"
  "otReceiverState (destroyBase b t) = otReceiverState t" "rStates (destroyBase b t) = rStates t"
  "rPends (destroyBase b t) = rPends t" "rExts (destroyBase b t) = rExts t"
  "allocated (destroyBase b t) = allocated t" "rBases (destroyBase b t) = wipe_at b base_sender_destroy (rBases t)"
  by (simp_all add: destroyBase_def wipe_at_def split: option.splits)

lemma destroyExt_fields [simp]:
  "controlConn (destroyExt b t) = controlConn t" "controlGeneration (destroyExt b t) = controlGeneration t"
  "otReceiverState (destroyExt b t) = otReceiverState t" "rStates (destroyExt b t) = rStates t"
  "rPends (destroyExt b t) = rPends t" "rBases (destroyExt b t) = rBases t"
  "allocated (destroyExt b t) = allocated t" "rExts (destroyExt b t) = wipe_at b extension_receiver_destroy (rExts t)"
  by (simp_all add: destroyExt_def wipe_at_def split: option.splits)

lemma finish_fields [simp]:
  "controlConn (finishReceiverPrecompute po oc t) = controlConn t"
  "controlGeneration (finishReceiverPrecompute po oc t) = controlGeneration t"
  "otReceiverState (finishReceiverPrecompute po oc t) = otReceiverState t"
  "rStates (finishReceiverPrecompute po oc t) = rStates t"
  "allocated (finishReceiverPrecompute po oc t) = allocated t"
  by (simp_all add: finishReceiverPrecompute_def destroyIdleReceiverPrecompute_def Let_def split: option.splits)

lemma finish_pends:
  assumes "rPends t p = Some r" "rpOutcome r = InProgress"
  shows "rPends (finishReceiverPrecompute (Some p) oc t) = (rPends t)(p \<mapsto> ended oc r)"
    "rBases (finishReceiverPrecompute (Some p) oc t) =
      (if rpPhase r = ProcessingChoices then rBases t else wipe_at (rpBase r) base_sender_destroy (rBases t))"
    "rExts (finishReceiverPrecompute (Some p) oc t) =
      (if rpPhase r = ProcessingChallenge then rExts t
       else wipe_at (rpExtension r) extension_receiver_destroy (rExts t))"
  using assms
  by (auto simp: finishReceiverPrecompute_def destroyIdleReceiverPrecompute_def Let_def ended_def)

lemma finish_none [simp]: "finishReceiverPrecompute None oc t = t"
  by (simp add: finishReceiverPrecompute_def)

section \<open>Well-formed services\<close>

text \<open>
  Only the current receiver state has a pending batch. That batch is in progress, belongs
  to the current control generation, and no other batch is in progress. A batch that ended
  had its channel closed exactly once and holds no transfers. Every reference points to an
  allocated object.
\<close>

definition is_pending :: "'s teet \<Rightarrow> nat \<Rightarrow> bool" where
  "is_pending t p \<longleftrightarrow> (\<exists>s st. otReceiverState t = Some s \<and> rStates t s = Some st \<and> rPending st = Some p)"

definition wf_teet :: "'s teet \<Rightarrow> bool" where
  "wf_teet t \<longleftrightarrow>
     (\<forall>s st. rStates t s = Some st \<longrightarrow> rPending st \<noteq> None \<longrightarrow> otReceiverState t = Some s) \<and>
     (\<forall>p. is_pending t p \<longrightarrow> controlConn t \<noteq> None \<and>
        (\<exists>r. rPends t p = Some r \<and> rpOutcome r = InProgress \<and> rpGeneration r = controlGeneration t)) \<and>
     (\<forall>p r. rPends t p = Some r \<longrightarrow>
        (if rpOutcome r = InProgress then rpClosed r = 0 \<and> is_pending t p
         else rpClosed r = 1 \<and> rpEntries r = [])) \<and>
     (\<forall>s. otReceiverState t = Some s \<longrightarrow> rStates t s \<noteq> None) \<and>
     (\<forall>n. allocated t \<le> n \<longrightarrow> rStates t n = None \<and> rPends t n = None \<and> rBases t n = None \<and> rExts t n = None \<and>
        controlConn t \<noteq> Some n)"

lemma wf_teetD:
  assumes "wf_teet t"
  shows "rStates t s = Some st \<Longrightarrow> rPending st = Some p \<Longrightarrow> otReceiverState t = Some s"
    "is_pending t p \<Longrightarrow> controlConn t \<noteq> None"
    "is_pending t p \<Longrightarrow> \<exists>r. rPends t p = Some r \<and> rpOutcome r = InProgress \<and> rpGeneration r = controlGeneration t"
    "rPends t p = Some r \<Longrightarrow> rpOutcome r = InProgress \<Longrightarrow> rpClosed r = 0 \<and> is_pending t p"
    "rPends t p = Some r \<Longrightarrow> rpOutcome r \<noteq> InProgress \<Longrightarrow> rpClosed r = 1 \<and> rpEntries r = []"
    "otReceiverState t = Some s \<Longrightarrow> rStates t s \<noteq> None"
    "allocated t \<le> n \<Longrightarrow> rStates t n = None \<and> rPends t n = None \<and> rBases t n = None \<and> rExts t n = None \<and>
        controlConn t \<noteq> Some n"
  using assms unfolding wf_teet_def by (blast | force)+

lemma wf_teetI:
  assumes "\<And>s st p. rStates t s = Some st \<Longrightarrow> rPending st = Some p \<Longrightarrow> otReceiverState t = Some s"
    "\<And>p. is_pending t p \<Longrightarrow> controlConn t \<noteq> None"
    "\<And>p. is_pending t p \<Longrightarrow> \<exists>r. rPends t p = Some r \<and> rpOutcome r = InProgress \<and> rpGeneration r = controlGeneration t"
    "\<And>p r. rPends t p = Some r \<Longrightarrow> rpOutcome r = InProgress \<Longrightarrow> rpClosed r = 0 \<and> is_pending t p"
    "\<And>p r. rPends t p = Some r \<Longrightarrow> rpOutcome r \<noteq> InProgress \<Longrightarrow> rpClosed r = 1 \<and> rpEntries r = []"
    "\<And>s. otReceiverState t = Some s \<Longrightarrow> rStates t s \<noteq> None"
    "\<And>n. allocated t \<le> n \<Longrightarrow> rStates t n = None \<and> rPends t n = None \<and> rBases t n = None \<and> rExts t n = None \<and>
        controlConn t \<noteq> Some n"
  shows "wf_teet t"
  unfolding wf_teet_def using assms by (simp split: if_splits) blast

text \<open>The common core of aborting and committing: the current batch ends and the receiver
  state forgets it.\<close>

lemma endBatch_wf:
  assumes wf: "wf_teet t" and s: "otReceiverState t = Some s" "rStates t s = Some st"
    and g: "\<And>x. rPending (g x) = None" and oc: "oc \<noteq> InProgress"
  shows "wf_teet (onState s g (finishReceiverPrecompute (rPending st) oc t))"
    "\<not> is_pending (onState s g (finishReceiverPrecompute (rPending st) oc t)) q"
proof -
  let ?f = "finishReceiverPrecompute (rPending st) oc t"
  let ?t = "onState s g ?f"
  note d = wf_teetD [OF wf]
  show none: "\<not> is_pending ?t q" for q using s g by (auto simp: is_pending_def)
  have pend: "is_pending t p \<longleftrightarrow> rPending st = Some p" for p using s by (auto simp: is_pending_def)
  have ends: "rPends ?f p = Some r \<Longrightarrow> rpOutcome r \<noteq> InProgress \<and> rpClosed r = 1 \<and> rpEntries r = []" for p r
  proof (cases "rPending st")
    case None
    assume "rPends ?f p = Some r"
    then have r: "rPends t p = Some r" using None by simp
    then have "rpOutcome r \<noteq> InProgress" using d(4) None pend by force
    with d(5) [OF r] show ?thesis by blast
  next
    case (Some p0)
    then obtain r0 where r0: "rPends t p0 = Some r0" "rpOutcome r0 = InProgress" using d(3) pend by blast
    assume r: "rPends ?f p = Some r"
    show ?thesis
    proof (cases "p = p0")
      case True
      with r finish_pends(1) [OF r0] Some have "r = ended oc r0" by simp
      then show ?thesis using d(4) [OF r0] oc by simp
    next
      case False
      with r finish_pends(1) [OF r0] Some have r': "rPends t p = Some r" by simp
      then have "rpOutcome r \<noteq> InProgress" using d(4) False Some pend by force
      with d(5) [OF r'] show ?thesis by blast
    qed
  qed
  have dom: "rPends ?f n = None \<longleftrightarrow> rPends t n = None" "rBases ?f n = None \<longleftrightarrow> rBases t n = None"
    "rExts ?f n = None \<longleftrightarrow> rExts t n = None" for n
    by (cases "rPending st"; (simp add: finishReceiverPrecompute_def destroyIdleReceiverPrecompute_def Let_def
        split: option.splits)?)+
  show "wf_teet ?t"
  proof (rule wf_teetI)
    show "otReceiverState ?t = Some s'" if "rStates ?t s' = Some st'" "rPending st' = Some p" for s' st' p
      using that g s d(1) [of s' st' p] by (auto split: if_splits)
    show "rStates ?t n = None \<and> rPends ?t n = None \<and> rBases ?t n = None \<and> rExts ?t n = None \<and>
        controlConn ?t \<noteq> Some n" if "allocated ?t \<le> n" for n
      using that d(7) [of n] s dom by auto
  qed (use none ends d(6) s in \<open>auto split: if_splits\<close>)
qed

lemma is_pending_cong:
  assumes "otReceiverState t' = otReceiverState t" "\<And>s. map_option rPending (rStates t' s) = map_option rPending (rStates t s)"
  shows "is_pending t' p \<longleftrightarrow> is_pending t p"
proof -
  have "(\<exists>st. rStates t' s = Some st \<and> rPending st = Some p) \<longleftrightarrow> (\<exists>st. rStates t s = Some st \<and> rPending st = Some p)" for s
    using assms(2) [of s] by (cases "rStates t' s"; cases "rStates t s") auto
  then show ?thesis using assms(1) by (auto simp: is_pending_def)
qed

text \<open>Steps that keep which batch is pending and every batch's outcome keep well-formedness.\<close>

lemma wf_teet_cong:
  assumes wf: "wf_teet t" and o: "otReceiverState t' = otReceiverState t"
    and c: "controlConn t' = controlConn t" "controlGeneration t' = controlGeneration t"
    and st: "\<And>s. map_option rPending (rStates t' s) = map_option rPending (rStates t s)"
    and p: "\<And>p r'. rPends t' p = Some r' \<Longrightarrow> \<exists>r. rPends t p = Some r \<and> rpOutcome r' = rpOutcome r \<and>
      rpClosed r' = rpClosed r \<and> rpGeneration r' = rpGeneration r \<and> (rpOutcome r \<noteq> InProgress \<longrightarrow> rpEntries r' = rpEntries r)"
    and pd: "\<And>p. rPends t' p = None \<longleftrightarrow> rPends t p = None"
    and a: "allocated t \<le> allocated t'"
    and be: "\<And>n. allocated t' \<le> n \<Longrightarrow> rBases t n = None \<Longrightarrow> rExts t n = None \<Longrightarrow> rBases t' n = None \<and> rExts t' n = None"
  shows "wf_teet t'"
proof -
  note d = wf_teetD [OF wf]
  have ip: "is_pending t' p \<longleftrightarrow> is_pending t p" for p by (rule is_pending_cong [OF o st])
  have stn: "rStates t' s = None \<longleftrightarrow> rStates t s = None" for s
    using st [of s] by (cases "rStates t' s"; cases "rStates t s") auto
  show ?thesis
  proof (rule wf_teetI)
    show "otReceiverState t' = Some s" if h: "rStates t' s = Some st'" "rPending st' = Some p" for s st' p
    proof -
      obtain st0 where "rStates t s = Some st0" "rPending st0 = rPending st'"
        using st [of s] h(1) by (cases "rStates t s") auto
      with d(1) [of s st0 p] h(2) show ?thesis unfolding o by simp
    qed
    show "\<exists>r. rPends t' p = Some r \<and> rpOutcome r = InProgress \<and> rpGeneration r = controlGeneration t'"
      if h: "is_pending t' p" for p
    proof -
      obtain r where r: "rPends t p = Some r" "rpOutcome r = InProgress" "rpGeneration r = controlGeneration t"
        using d(3) h ip by blast
      then obtain r' where r': "rPends t' p = Some r'" using pd [of p] by fastforce
      obtain r2 where "rPends t p = Some r2" "rpOutcome r' = rpOutcome r2" "rpGeneration r' = rpGeneration r2"
        using p [OF r'] by blast
      with r r' c(2) show ?thesis by simp
    qed
    show "rpClosed r' = 0 \<and> is_pending t' p" if h: "rPends t' p = Some r'" "rpOutcome r' = InProgress" for p r'
    proof -
      obtain r where r: "rPends t p = Some r" "rpOutcome r' = rpOutcome r" "rpClosed r' = rpClosed r"
        using p [OF h(1)] by blast
      then show ?thesis using d(4) [OF r(1)] h(2) ip by simp
    qed
    show "rpClosed r' = 1 \<and> rpEntries r' = []" if h: "rPends t' p = Some r'" "rpOutcome r' \<noteq> InProgress" for p r'
    proof -
      obtain r where r: "rPends t p = Some r" "rpOutcome r' = rpOutcome r" "rpClosed r' = rpClosed r"
        "rpOutcome r \<noteq> InProgress \<longrightarrow> rpEntries r' = rpEntries r"
        using p [OF h(1)] by blast
      then show ?thesis using d(5) [OF r(1)] h(2) by simp
    qed
    show "rStates t' n = None \<and> rPends t' n = None \<and> rBases t' n = None \<and> rExts t' n = None \<and> controlConn t' \<noteq> Some n"
      if h: "allocated t' \<le> n" for n
    proof -
      have "allocated t \<le> n" using a h by linarith
      from d(7) [OF this] show ?thesis unfolding stn pd c(1) using be [OF h] by blast
    qed
    show "controlConn t' \<noteq> None" if "is_pending t' p" for p using d(2) that unfolding ip c(1) .
    show "rStates t' s \<noteq> None" if "otReceiverState t' = Some s" for s using d(6) that unfolding o stn .
  qed
qed

lemma onState_wf: "wf_teet t \<Longrightarrow> (\<And>x. rPending (f x) = rPending x) \<Longrightarrow> wf_teet (onState s f t)"
  by (erule wf_teet_cong) (auto simp: option.map_comp comp_def)

lemma onPend_wf:
  assumes "wf_teet t" "\<And>x. rpOutcome (f x) = rpOutcome x" "\<And>x. rpClosed (f x) = rpClosed x"
    "\<And>x. rpGeneration (f x) = rpGeneration x" "rPends t p = Some r" "rpOutcome r = InProgress"
  shows "wf_teet (onPend p f t)"
  by (rule wf_teet_cong [OF assms(1)]) (use assms(2-) in \<open>auto split: if_splits\<close>)

lemma destroy_wf: "wf_teet t \<Longrightarrow> wf_teet (destroyBase b t)" "wf_teet t \<Longrightarrow> wf_teet (destroyExt e t)"
  by (erule wf_teet_cong; simp)+

lemma new_wf: "wf_teet t \<Longrightarrow> wf_teet (fst (newBase ss t))" "wf_teet t \<Longrightarrow> wf_teet (fst (newExt es t))"
  by (erule wf_teet_cong; auto simp: newBase_def newExt_def)+

lemma clearPending_wf:
  assumes "wf_teet t"
  shows "wf_teet (clearPendingReceiverPrecompute s p t)"
proof (cases "otReceiverState t = Some s \<and> (\<exists>st. rStates t s = Some st \<and> rPending st = Some p)")
  case True
  then obtain st where st: "otReceiverState t = Some s" "rStates t s = Some st" "rPending st = Some p" by blast
  show ?thesis
    using endBatch_wf(1) [OF assms st(1,2), of "\<lambda>st. st\<lparr>rPending := None\<rparr>" Aborted] st
    by (simp add: clearPendingReceiverPrecompute_def)
qed (use assms in \<open>auto simp: clearPendingReceiverPrecompute_def split: option.splits\<close>)

lemma otReady_wf [simp]: "wf_teet (t\<lparr>otReady := b\<rparr>) = wf_teet t"
  by (simp add: wf_teet_def is_pending_def)

lemma otReady_pending [simp]: "is_pending (t\<lparr>otReady := b\<rparr>) p = is_pending t p"
  by (simp add: is_pending_def)

lemma clearPool_wf:
  assumes "wf_teet t"
  shows "wf_teet (clearOTReceiverPool t)" "\<not> is_pending (clearOTReceiverPool t) p"
proof -
  have "wf_teet (clearOTReceiverPool t) \<and> \<not> is_pending (clearOTReceiverPool t) p"
  proof (cases "otReceiverState t")
    case None
    with assms show ?thesis by (simp add: clearOTReceiverPool_def) (simp add: is_pending_def)
  next
    case (Some s)
    then obtain st where st: "rStates t s = Some st" using wf_teetD(6) [OF assms] by blast
    show ?thesis
      using endBatch_wf [OF assms Some st, of "\<lambda>st. st\<lparr>rPool := receiver_clear (rPool st), rPending := None, rReady := False\<rparr>" Aborted]
      by (simp add: clearOTReceiverPool_def Some st Let_def)
  qed
  then show "wf_teet (clearOTReceiverPool t)" "\<not> is_pending (clearOTReceiverPool t) p" by blast+
qed

lemma suspend_wf:
  assumes "wf_teet t"
  shows "wf_teet (suspendOTReceiverPoolForReconnect t)" "\<not> is_pending (suspendOTReceiverPoolForReconnect t) p"
proof -
  have "wf_teet (suspendOTReceiverPoolForReconnect t) \<and> \<not> is_pending (suspendOTReceiverPoolForReconnect t) p"
  proof (cases "otReceiverState t")
    case None
    with clearPool_wf [OF assms] show ?thesis by (simp add: suspendOTReceiverPoolForReconnect_def)
  next
    case (Some s)
    then obtain st where st: "rStates t s = Some st" using wf_teetD(6) [OF assms] by blast
    note e = endBatch_wf [OF assms Some st, of "\<lambda>st. st\<lparr>rPending := None\<rparr>" Aborted]
    show ?thesis
      using e clearPool_wf [OF e(1)] by (simp add: suspendOTReceiverPoolForReconnect_def Some st Let_def)
  qed
  then show "wf_teet (suspendOTReceiverPoolForReconnect t)" "\<not> is_pending (suspendOTReceiverPoolForReconnect t) p"
    by blast+
qed

lemma begin_reset_wf:
  assumes wf: "wf_teet t"
  shows "wf_teet (begin_reset epoch t)" "\<not> is_pending (begin_reset epoch t) p"
proof -
  define t1 where "t1 = (case otReceiverState t of None \<Rightarrow> t | Some s \<Rightarrow> (case rStates t s of None \<Rightarrow> t
      | Some st \<Rightarrow> onState s (\<lambda>st. st\<lparr>rPending := None, rReady := False\<rparr>)
          (finishReceiverPrecompute (rPending st) Aborted (onState s (\<lambda>st. st\<lparr>rPool := receiver_clear (rPool st)\<rparr>) t))))"
  have t1: "wf_teet t1 \<and> (\<forall>p. \<not> is_pending t1 p)"
  proof (cases "otReceiverState t")
    case None
    with wf show ?thesis by (simp add: t1_def is_pending_def)
  next
    case (Some s)
    then obtain st where st: "rStates t s = Some st" using wf_teetD(6) [OF wf] by blast
    let ?u = "onState s (\<lambda>st. st\<lparr>rPool := receiver_clear (rPool st)\<rparr>) t"
    have u: "wf_teet ?u" "otReceiverState ?u = Some s" "rStates ?u s = Some (st\<lparr>rPool := receiver_clear (rPool st)\<rparr>)"
      using onState_wf [OF wf] Some st by simp_all
    show ?thesis
      using endBatch_wf [OF u, of "\<lambda>st. st\<lparr>rPending := None, rReady := False\<rparr>" Aborted] by (simp add: t1_def Some st)
  qed
  have r: "begin_reset epoch t = t1\<lparr>otReceiverState := Some (allocated t1),
      rStates := (rStates t1)(allocated t1 \<mapsto> NewOTReceiverState\<lparr>rEpoch := epoch\<rparr>), allocated := Suc (allocated t1)\<rparr>"
    by (simp add: begin_reset_def t1_def Let_def)
  show none: "\<not> is_pending (begin_reset epoch t) p" for p by (simp add: r is_pending_def NewOTReceiverState_def)
  note d = wf_teetD [OF conjunct1 [OF t1]]
  have no: "rPending st \<noteq> Some p" if "rStates t1 s = Some st" for s st p
    using t1 d(1) [OF that, of p] that by (auto simp: is_pending_def)
  have fin: "rpOutcome x \<noteq> InProgress" if "rPends t1 p = Some x" for p x
    using d(4) [OF that] t1 by blast
  show "wf_teet (begin_reset epoch t)"
  proof (rule wf_teetI)
    show "otReceiverState (begin_reset epoch t) = Some s" if "rStates (begin_reset epoch t) s = Some st" "rPending st = Some p" for s st p
      using that no by (auto simp: r NewOTReceiverState_def split: if_splits)
    show "rpClosed x = 1 \<and> rpEntries x = []" if "rPends (begin_reset epoch t) p = Some x" for p x
      using that d(5) [of p x] fin [of p x] by (simp add: r)
    show "rStates (begin_reset epoch t) n = None \<and> rPends (begin_reset epoch t) n = None \<and> rBases (begin_reset epoch t) n = None \<and>
        rExts (begin_reset epoch t) n = None \<and> controlConn (begin_reset epoch t) \<noteq> Some n"
      if "allocated (begin_reset epoch t) \<le> n" for n
      using that d(7) [of n] by (simp add: r)
    show "rpClosed x = 0 \<and> is_pending (begin_reset epoch t) p"
      if "rPends (begin_reset epoch t) p = Some x" "rpOutcome x = InProgress" for p x
      using that fin [of p x] by (simp add: r)
  qed (use none in \<open>auto simp: r\<close>)
qed

lemma lease_cases:
  "lease current f t = (t', x) \<Longrightarrow> (current t \<and> f t = (t', x)) \<or> (t' = t \<and> x = Inl ControlSuperseded)"
  by (auto simp: lease_def split: if_splits)

lemma begin_claim_state:
  "fst (begin_claim current m b t) =
    (if current t \<and> rqInitial m then begin_reset (rqEpoch m) t else t)"
proof (cases "current t")
  case True
  define t1 where "t1 = (if rqInitial m then begin_reset (rqEpoch m) t else t)"
  have "fst (begin_claim current m b t) = t1"
    unfolding begin_claim_def lease_def Let_def if_P [of "current t", OF True] t1_def [symmetric]
    by (cases "otReceiverState t1"; cases "rStates t1 (the (otReceiverState t1))") simp_all
  with True show ?thesis by (simp add: t1_def)
qed (simp add: begin_claim_def lease_def)

lemma begin_claim_Inr:
  assumes "begin_claim current m b t = (t', Inr s)"
  shows "current t" "otReceiverState t' = Some s"
    "\<exists>st. rStates t' s = Some st \<and> rPending st = None \<and> bStartIndex b = receiver_total_count (rPool st) \<and>
       (rqInitial m \<or> rReady st)"
  using assms by (auto simp: begin_claim_def lease_def Let_def split: option.splits if_splits)

lemma begin_claim_wf: "wf_teet t \<Longrightarrow> wf_teet (fst (begin_claim current m b t))"
  by (simp add: begin_claim_state begin_reset_wf(1))

lemma pending_of_Some:
  assumes "pending_of t = Some (s, st, p, r)"
  shows "otReceiverState t = Some s" "rStates t s = Some st" "rPending st = Some p" "rPends t p = Some r"
    "is_pending t p"
  using assms by (auto simp: pending_of_def is_pending_def split: option.splits)

lemma pending_of_wf:
  assumes "wf_teet t" "pending_of t = Some (s, st, p, r)"
  shows "rpOutcome r = InProgress" "rpGeneration r = controlGeneration t"
  using wf_teetD(3) [OF assms(1) pending_of_Some(5) [OF assms(2)]] pending_of_Some(4) [OF assms(2)] by auto

lemma begin_publish_wf:
  assumes wf: "wf_teet t" and cur: "\<And>t. current t \<Longrightarrow> controlConn t \<noteq> None \<and> controlGeneration t = gen"
  shows "wf_teet (fst (begin_publish current gen m b s base t))"
proof (cases "current t \<and> otReceiverState t = Some s \<and> (\<exists>st. rStates t s = Some st \<and> rPending st = None)")
  case True
  then obtain st where st: "current t" "otReceiverState t = Some s" "rStates t s = Some st" "rPending st = None" by blast
  let ?r = "\<lparr>rpBegin = b, rpInitial = rqInitial m, rpGeneration = gen, rpBase = Some base, rpExtension = None,
      rpEntries = [], rpPhase = AwaitBaseChoices, rpOutcome = InProgress, rpClosed = 0\<rparr>"
  let ?p = "allocated t"
  let ?t = "onState s (\<lambda>st. st\<lparr>rPending := Some ?p\<rparr>) (t\<lparr>rPends := (rPends t)(?p \<mapsto> ?r), allocated := Suc ?p\<rparr>)"
  have e: "begin_publish current gen m b s base t = (?t, Inr ?p)"
    using st by (simp add: begin_publish_def lease_def Let_def)
  note d = wf_teetD [OF wf] and c = cur [OF st(1)]
  have none: "\<not> is_pending t q" for q using st by (simp add: is_pending_def)
  have ip: "is_pending ?t q \<longleftrightarrow> q = ?p" for q using st by (auto simp: is_pending_def)
  have "wf_teet ?t"
  proof (rule wf_teetI)
    show "otReceiverState ?t = Some s'" if "rStates ?t s' = Some st'" "rPending st' = Some q" for s' st' q
      using that st d(1) [of s' st' q] by (auto split: if_splits)
    show "rpClosed x = 0 \<and> is_pending ?t q" if "rPends ?t q = Some x" "rpOutcome x = InProgress" for q x
      using that none d(4) [of q x] unfolding ip by (auto split: if_splits)
    show "rpClosed x = 1 \<and> rpEntries x = []" if "rPends ?t q = Some x" "rpOutcome x \<noteq> InProgress" for q x
      using that d(5) [of q x] by (auto split: if_splits)
    show "rStates ?t n = None \<and> rPends ?t n = None \<and> rBases ?t n = None \<and> rExts ?t n = None \<and> controlConn ?t \<noteq> Some n"
      if "allocated ?t \<le> n" for n
      using that d(7) [of n] d(7) [of s] st by auto
  qed (use c st in \<open>auto simp: ip\<close>)
  then show ?thesis unfolding e by simp
next
  case False
  then have "begin_publish current gen m b s base t = (destroyBase (Some base) t, snd (begin_publish current gen m b s base t))"
    by (auto simp: begin_publish_def lease_def Let_def split: option.splits)
  then show ?thesis using destroy_wf(1) [OF wf] by (metis fst_conv)
qed

lemma choices_claim_cases:
  assumes "choices_claim current gen m t = (t', x)"
  shows "(t' = t \<and> (\<exists>e. x = Inl e)) \<or>
    (\<exists>s st p r. current t \<and> pending_of t = Some (s, st, p, r) \<and> rpPhase r = AwaitBaseChoices \<and>
       x = Inr (s, p, rpBase r) \<and> t' = onPend p (\<lambda>r. r\<lparr>rpPhase := ProcessingChoices\<rparr>) t)"
  using assms by (auto simp: choices_claim_def lease_def split: if_splits option.splits)

lemma choices_compute_cases:
  assumes "choices_compute co rng m s p base t = (t', x)"
  shows "(t' = t \<and> (\<exists>e. x = Inl e) \<and> (rStates t s = None \<or> rPends t p = None)) \<or> (t' = destroyBase base t \<and> (\<exists>e. x = Inl e)) \<or>
    (\<exists>es e. t' = destroyExt (Some (allocated t)) (fst (newExt es (destroyBase base t))) \<and> x = Inl e) \<or>
    (\<exists>r (st :: OTReceiverState) es ents frame seeds cm c rest. rPends t p = Some r \<and> t' = fst (newExt es (destroyBase base t)) \<and>
       x = Inr (allocated t, ents, frame) \<and>
       StartExtensionReceiver (Some rng) seeds (rEpoch st) cm (bSessionID (rpBegin r)) (bStartIndex (rpBegin r))
         (int (unat (bCount (rpBegin r)))) = Inr (es, c, ents, rest))"
proof -
  let ?c = "choices_compute co rng m s p base t"
  have early: ?thesis if "?c = (destroyBase base t, Inl e)" for e
  proof -
    have "t' = destroyBase base t" "x = Inl e" using assms unfolding that by simp_all
    then show ?thesis by blast
  qed
  have missing: ?thesis if "?c = (t, Inl e)" "rStates t s = None \<or> rPends t p = None" for e
  proof -
    have "t' = t" "x = Inl e" using assms unfolding that(1) by simp_all
    then show ?thesis using that(2) by blast
  qed
  show ?thesis
  proof (cases "rStates t s")
    case None
    then show ?thesis by (intro missing) (simp_all add: choices_compute_def)
  next
    case st: (Some st)
    show ?thesis
    proof (cases "rPends t p")
      case None
      then show ?thesis by (intro missing) (simp_all add: choices_compute_def st)
    next
      case r: (Some r)
      show ?thesis
      proof (cases "UnmarshalPrecomputeBaseChoices (rqSetup m) (bSessionID (rpBegin r))")
        case (Inl e)
        then show ?thesis by (intro early) (simp add: choices_compute_def st r)
      next
        case u: (Inr cmsg)
        obtain so y where f: "FinishBaseOTSender co (Option.bind base (rBases t)) cmsg = (so, y)" by fastforce
        show ?thesis
        proof (cases y)
          case (Inl e)
          then show ?thesis by (intro early) (simp add: choices_compute_def st r u f)
        next
          case y: (Inr cs)
          obtain cm seeds where cs: "cs = (cm, seeds)" by fastforce
          show ?thesis
          proof (cases "StartExtensionReceiver (Some rng) seeds (rEpoch st) cm (bSessionID (rpBegin r))
              (bStartIndex (rpBegin r)) (int (unat (bCount (rpBegin r))))")
            case (Inl e)
            then show ?thesis by (intro early) (simp add: choices_compute_def st r u f y cs)
          next
            case z: (Inr v)
            obtain es c ents rest where v: "v = (es, c, ents, rest)" by (cases v)
            show ?thesis
            proof (cases "MarshalPrecomputeCommitment cm (Some c)")
              case (Inl e)
              then have "?c = (destroyExt (Some (allocated t)) (fst (newExt es (destroyBase base t))), Inl (Mpc e))"
                by (simp add: choices_compute_def st r u f y cs z v newExt_def del: of_nat_unat)
              then have "t' = destroyExt (Some (allocated t)) (fst (newExt es (destroyBase base t)))" "x = Inl (Mpc e)"
                using assms by (metis prod.inject)+
              then show ?thesis by blast
            next
              case (Inr frame)
              then have "?c = (fst (newExt es (destroyBase base t)), Inr (allocated t, ents, frame))"
                by (simp add: choices_compute_def st r u f y cs z v newExt_def del: of_nat_unat)
              then have "t' = fst (newExt es (destroyBase base t))" "x = Inr (allocated t, ents, frame)"
                using assms by (metis prod.inject)+
              then have "rPends t p = Some r \<and> t' = fst (newExt es (destroyBase base t)) \<and>
                  x = Inr (allocated t, ents, frame) \<and>
                  StartExtensionReceiver (Some rng) seeds (rEpoch st) cm (bSessionID (rpBegin r))
                    (bStartIndex (rpBegin r)) (int (unat (bCount (rpBegin r)))) = Inr (es, c, ents, rest)"
                using r z [unfolded v] by (intro conjI)
              then show ?thesis by blast
            qed
          qed
        qed
      qed
    qed
  qed
qed

lemma choices_publish_cases:
  assumes "choices_publish current gen s p ext ents t = (t', x)"
  shows "(t' = destroyExt (Some ext) t \<and> (\<exists>e. x = Inl e)) \<or>
    (\<exists>st r. current t \<and> pending_of t = Some (s, st, p, r) \<and> rpPhase r = ProcessingChoices \<and> x = Inr () \<and>
       t' = onPend p (\<lambda>r. r\<lparr>rpExtension := Some ext, rpEntries := ents, rpPhase := AwaitChallenge\<rparr>) t)"
  using assms by (auto simp: choices_publish_def lease_def split: if_splits option.splits sum.splits prod.splits)

lemma challenge_claim_cases:
  assumes "challenge_claim current gen m t = (t', x)"
  shows "(t' = t \<and> (\<exists>e. x = Inl e)) \<or>
    (\<exists>s st p r ext. current t \<and> pending_of t = Some (s, st, p, r) \<and> rpPhase r = AwaitChallenge \<and>
       rpExtension r = Some ext \<and> x = Inr (s, p, ext) \<and>
       t' = onPend p (\<lambda>r. r\<lparr>rpPhase := ProcessingChallenge\<rparr>) t)"
  using assms by (auto simp: challenge_claim_def lease_def split: if_splits option.splits)

lemma challenge_publish_cases:
  assumes "challenge_publish current gen s p t = (t', x)"
  shows "(t' = t \<and> (\<exists>e. x = Inl e)) \<or>
    (\<exists>st r. current t \<and> pending_of t = Some (s, st, p, r) \<and> rpPhase r = ProcessingChallenge \<and> x = Inr () \<and>
       t' = onPend p (\<lambda>r. r\<lparr>rpPhase := AwaitComplete\<rparr>) t)"
  using assms by (auto simp: challenge_publish_def lease_def split: if_splits option.splits)

lemma complete_cases:
  assumes "handleOTPrecomputeComplete current gen psize t = (t', x)"
  shows "(t' = t \<and> (\<exists>e. x = Inl e)) \<or>
    (\<exists>s st p (r :: receiverPrecompute) pool. current t \<and> pending_of t = Some (s, st, p, r) \<and> rpPhase r = AwaitComplete \<and> rpEntries r \<noteq> [] \<and>
       receiver_add (rPool st) (rpEntries r) = (pool, Inr ()) \<and> x = Inr () \<and>
       t' = finishReceiverPrecompute (Some p) Committed
         ((onState s (\<lambda>st. st\<lparr>rPool := pool, rEpoch := ExtensionEpoch (bSessionID (rpBegin r)), rPending := None, rReady := True\<rparr>)
             (onPend p (\<lambda>r. r\<lparr>rpEntries := []\<rparr>) t))\<lparr>otReady := True\<rparr>))"
proof (cases "current t")
  case cur: True
  show ?thesis
  proof (cases "pending_of t")
    case None
    then show ?thesis using assms cur by (auto simp: handleOTPrecomputeComplete_def lease_def)
  next
    case (Some q)
    obtain s st p r where q: "pending_of t = Some (s, st, p, r)" using Some by (cases q) auto
    obtain pool y where a: "receiver_add (rPool st) (rpEntries r) = (pool, y)" by fastforce
    show ?thesis
      using assms cur q a
      by (cases "checkedIndexEnd (receiver_total_count (rPool st)) (int (length (rpEntries r)))"; cases y)
        (auto simp: handleOTPrecomputeComplete_def lease_def Let_def split: if_splits)
  qed
qed (use assms in \<open>auto simp: handleOTPrecomputeComplete_def lease_def\<close>)

text \<open>Consumption and resume replace the pool of the current state only.\<close>

lemma consume_claim_cases:
  assumes "consume_claim current start count t = (t', x)"
  shows "(t' = t \<and> (\<exists>e. x = Inl e)) \<or> (\<exists>s p. t' = t \<and> x = Inr (Inr (s, p))) \<or>
    (\<exists>s st pool y. otReceiverState t = Some s \<and> rStates t s = Some st \<and> rReady st \<and>
       receiver_consume (rPool st) start count = (pool, y) \<and> t' = onState s (\<lambda>st. st\<lparr>rPool := pool\<rparr>) t \<and>
       x = (case y of Inl e \<Rightarrow> Inl (Mpc e) | Inr es \<Rightarrow> Inr (Inl es)))"
proof (cases "current t")
  case cur: True
  show ?thesis
  proof (cases "otReceiverState t")
    case None
    then show ?thesis using assms cur by (auto simp: consume_claim_def lease_def)
  next
    case s: (Some s)
    show ?thesis
    proof (cases "rStates t s")
      case None
      then show ?thesis using assms cur s by (auto simp: consume_claim_def lease_def)
    next
      case st: (Some st)
      obtain pool y where c: "receiver_consume (rPool st) start count = (pool, y)" by fastforce
      show ?thesis
        using assms cur s st c
        by (cases "pendingReceiverCompletionForRange st (rPends t) start count"; cases y)
          (auto simp: consume_claim_def lease_def split: option.splits if_splits)
    qed
  qed
qed (use assms in \<open>auto simp: consume_claim_def lease_def\<close>)

lemma consume_commit_cases:
  assumes "consume_commit current s p start count t = (t', x)"
  shows "(t' = t \<and> (\<exists>e. x = Inl e)) \<or>
    (\<exists>st r pool y. otReceiverState t = Some s \<and> rStates t s = Some st \<and> rPends t p = Some r \<and> rpOutcome r = Committed \<and>
       receiver_consume (rPool st) start count = (pool, y) \<and> t' = onState s (\<lambda>st. st\<lparr>rPool := pool\<rparr>) t \<and>
       x = (case y of Inl e \<Rightarrow> Inl (Mpc e) | Inr es \<Rightarrow> Inr es))"
proof (cases "current t \<and> otReceiverState t = Some s \<and> (\<exists>st. rStates t s = Some st) \<and> (\<exists>r. rPends t p = Some r)")
  case True
  then obtain st r where h: "current t" "otReceiverState t = Some s" "rStates t s = Some st" "rPends t p = Some r" by blast
  obtain pool y where c: "receiver_consume (rPool st) start count = (pool, y)" by fastforce
  show ?thesis using assms h c by (cases y) (auto simp: consume_commit_def lease_def split: if_splits)
qed (use assms in \<open>auto simp: consume_commit_def lease_def split: option.splits if_splits\<close>)

lemma resume_cases:
  assumes "handleOTResumeRequest current epoch nxt t = (t', x)"
  shows "t' = t \<or> (\<exists>s st pool y b. otReceiverState t = Some s \<and> rStates t s = Some st \<and> rReady st \<and> rPending st = None \<and>
       receiver_advance_to (rPool st) nxt = (pool, y) \<and>
       t' = (onState s (\<lambda>st. st\<lparr>rPool := pool\<rparr>) t)\<lparr>otReady := b\<rparr>)"
proof -
  have nop: "onState s f t = (onState s f t)\<lparr>otReady := otReady t\<rparr>" for s f by (simp add: onState_def)
  show ?thesis
  proof (cases "\<exists>s st. otReceiverState t = Some s \<and> rStates t s = Some st")
    case True
    then obtain s st where h: "otReceiverState t = Some s" "rStates t s = Some st" by blast
    obtain pool y where c: "receiver_advance_to (rPool st) nxt = (pool, y)" by fastforce
    show ?thesis
      using assms h c nop [of s "\<lambda>st. st\<lparr>rPool := pool\<rparr>"]
      by (cases y) (auto simp: handleOTResumeRequest_def resumeOTPool_def lease_def split: if_splits)
  qed (use assms in \<open>auto simp: handleOTResumeRequest_def resumeOTPool_def lease_def split: if_splits option.splits\<close>)
qed

end
