(* ===== verification/Tee_T_Concurrent.thy ===== *)
theory Tee_T_Concurrent
  imports Tee_T_Sections "HOL-Library.Multiset"
begin

text \<open>
  All interleavings of the receiver's handlers. A configuration is the state of the service,
  the handlers in flight between two of their sections, and the log of delivered transfers
  as pairs of a receiver state and an index. Every section of every handler, every
  consumption, and every activation, attestation and teardown of a control connection is a
  step. Messages of one control connection are handled one at a time, as its read loop does;
  connections, sessions and teardown run concurrently.
\<close>

section \<open>Steps\<close>

datatype thread =
    TBegin nat u64 OTPrecomputeRequest PrecomputeBegin nat
  | TClear nat nat nat
  | TChoices nat u64 OTPrecomputeRequest nat nat "nat option"
  | TPublish nat u64 nat nat nat "ReceiverOT list"
  | TChallenge nat u64 OTPrecomputeRequest nat nat nat
  | TProve nat u64 nat nat
  | TWait nat nat u64 int

text \<open>The control connection whose read loop runs a handler; waiting consumers have none.\<close>

fun thread_conn :: "thread \<Rightarrow> nat option" where
  "thread_conn (TBegin conn gen m b s) = Some conn"
| "thread_conn (TClear conn s p) = Some conn"
| "thread_conn (TChoices conn gen m s p base) = Some conn"
| "thread_conn (TPublish conn gen s p ext es) = Some conn"
| "thread_conn (TChallenge conn gen m s p ext) = Some conn"
| "thread_conn (TProve conn gen s p) = Some conn"
| "thread_conn (TWait s p start cnt) = None"

definition idle :: "nat \<Rightarrow> thread multiset \<Rightarrow> bool" where
  "idle conn ths \<longleftrightarrow> (\<forall>th \<in># ths. thread_conn th \<noteq> Some conn)"

type_synonym 's config = "'s teet \<times> thread multiset \<times> (nat \<times> nat) list"

definition delivery :: "nat \<Rightarrow> u64 \<Rightarrow> int \<Rightarrow> (nat \<times> nat) list" where
  "delivery s start cnt = map (Pair s) [unat start..<unat start + nat cnt]"

definition small_pools :: "'s teet \<Rightarrow> bool" where
  "small_pools t \<longleftrightarrow> (\<forall>s st. rStates t s = Some st \<longrightarrow> length (rEntries (rPool st)) \<le> 2 ^ 61)"

text \<open>
  A handler that failed or whose write failed goes on to clear its batch (\<open>TClear\<close>). The
  choice between a successful and a failed write is free. A pool is assumed to hold at most
  \<open>2 ^ 61\<close> transfers when a batch is committed, far beyond any memory.
\<close>

inductive teet_step :: "('s, 'b) co_api \<Rightarrow> unit + mark_circuit option \<Rightarrow> 's config \<Rightarrow> 's config \<Rightarrow> bool"
  for co compiled where
  begin_msg: "idle conn ths \<Longrightarrow> begin_check compiled m = Inr b \<Longrightarrow>
    begin_claim (isCurrentControlConnection conn gen) m b t = (t', x) \<Longrightarrow>
    teet_step co compiled (t, ths, lg)
      (t', (case x of Inl _ \<Rightarrow> ths | Inr s \<Rightarrow> add_mset (TBegin conn gen m b s) ths), lg)"
| begin_fail: "teet_step co compiled (t, add_mset (TBegin conn gen m b s) ths, lg) (t, ths, lg)"
| begin_run: "StartBaseOTSender co (Some rng) (bSessionID b) = Inr (ss, msg, rest) \<Longrightarrow> newBase ss t = (t1, base) \<Longrightarrow>
    begin_publish (isCurrentControlConnection conn gen) gen m b s base t1 = (t2, x) \<Longrightarrow>
    teet_step co compiled (t, add_mset (TBegin conn gen m b s) ths, lg)
      (t2, (case x of Inl _ \<Rightarrow> ths | Inr p \<Rightarrow> if sent then ths else add_mset (TClear conn s p) ths), lg)"
| clear: "teet_step co compiled (t, add_mset (TClear conn s p) ths, lg) (clearPendingReceiverPrecompute s p t, ths, lg)"
| choices_msg: "idle conn ths \<Longrightarrow> choices_claim (isCurrentControlConnection conn gen) gen m t = (t', x) \<Longrightarrow>
    teet_step co compiled (t, ths, lg)
      (t', (case x of Inl _ \<Rightarrow> ths | Inr (s, p, base) \<Rightarrow> add_mset (TChoices conn gen m s p base) ths), lg)"
| choices_run: "choices_compute co rng m s p base t = (t', x) \<Longrightarrow>
    teet_step co compiled (t, add_mset (TChoices conn gen m s p base) ths, lg)
      (t', add_mset (case x of Inl _ \<Rightarrow> TClear conn s p | Inr (ext, es, frame) \<Rightarrow> TPublish conn gen s p ext es) ths, lg)"
| choices_pub: "choices_publish (isCurrentControlConnection conn gen) gen s p ext es t = (t', x) \<Longrightarrow>
    teet_step co compiled (t, add_mset (TPublish conn gen s p ext es) ths, lg)
      (t', (case x of Inl _ \<Rightarrow> ths | Inr _ \<Rightarrow> if sent then ths else add_mset (TClear conn s p) ths), lg)"
| challenge_msg: "idle conn ths \<Longrightarrow> challenge_claim (isCurrentControlConnection conn gen) gen m t = (t', x) \<Longrightarrow>
    teet_step co compiled (t, ths, lg)
      (t', (case x of Inl _ \<Rightarrow> ths | Inr (s, p, ext) \<Rightarrow> add_mset (TChallenge conn gen m s p ext) ths), lg)"
| challenge_run: "challenge_compute m p ext t = (t', x) \<Longrightarrow>
    teet_step co compiled (t, add_mset (TChallenge conn gen m s p ext) ths, lg)
      (t', add_mset (case x of Inl _ \<Rightarrow> TClear conn s p | Inr frame \<Rightarrow> TProve conn gen s p) ths, lg)"
| challenge_pub: "challenge_publish (isCurrentControlConnection conn gen) gen s p t = (t', x) \<Longrightarrow>
    teet_step co compiled (t, add_mset (TProve conn gen s p) ths, lg)
      (t', (case x of Inl _ \<Rightarrow> ths | Inr _ \<Rightarrow> if sent then ths else add_mset (TClear conn s p) ths), lg)"
| complete_msg: "idle conn ths \<Longrightarrow> small_pools t \<Longrightarrow>
    handleOTPrecomputeComplete (isCurrentControlConnection conn gen) gen psize t = (t', x) \<Longrightarrow>
    teet_step co compiled (t, ths, lg) (t', ths, lg)"
| resume_msg: "idle conn ths \<Longrightarrow> handleOTResumeRequest (isCurrentControlConnection conn gen) epoch nxt t = (t', x) \<Longrightarrow>
    teet_step co compiled (t, ths, lg) (t', ths, lg)"
| consume_now: "is_go_int cnt \<Longrightarrow> otReceiverState t = Some s \<Longrightarrow>
    consume_claim current start cnt t = (t', Inr (Inl es)) \<Longrightarrow>
    teet_step co compiled (t, ths, lg) (t', ths, lg @ delivery s start cnt)"
| consume_wait: "is_go_int cnt \<Longrightarrow> consume_claim current start cnt t = (t', Inr (Inr (s, p))) \<Longrightarrow>
    teet_step co compiled (t, ths, lg) (t', add_mset (TWait s p start cnt) ths, lg)"
| consume_fail: "is_go_int cnt \<Longrightarrow> consume_claim current start cnt t = (t', Inl e) \<Longrightarrow>
    teet_step co compiled (t, ths, lg) (t', ths, lg)"
| wait_cancel: "teet_step co compiled (t, add_mset (TWait s p start cnt) ths, lg) (t, ths, lg)"
| wait_done: "is_go_int cnt \<Longrightarrow> consume_commit current s p start cnt t = (t', x) \<Longrightarrow>
    teet_step co compiled (t, add_mset (TWait s p start cnt) ths, lg)
      (t', ths, (case x of Inl _ \<Rightarrow> lg | Inr es \<Rightarrow> lg @ delivery s start cnt))"
| activate: "activateControlConnection live t = (t', r) \<Longrightarrow> teet_step co compiled (t, ths, lg) (t', ths, lg)"
| attest: "completeControlAttestationForPair live sent conn gen pid t = (t', x) \<Longrightarrow>
    teet_step co compiled (t, ths, lg) (t', ths, lg)"
| teardown: "tearDownControlConnection live conn gen t = (t', r) \<Longrightarrow> teet_step co compiled (t, ths, lg) (t', ths, lg)"

inductive teet_reach :: "('s, 'b) co_api \<Rightarrow> unit + mark_circuit option \<Rightarrow> 's config \<Rightarrow> bool" for co compiled where
  init: "teet_reach co compiled (newTEET, {#}, [])"
| step: "teet_reach co compiled c \<Longrightarrow> teet_step co compiled c c' \<Longrightarrow> teet_reach co compiled c'"

section \<open>Well-formedness is invariant\<close>

text \<open>Suspension does not depend on the connection fields, which teardown resets first.\<close>

definition reconn ::
  "nat option \<Rightarrow> bool \<Rightarrow> bool \<Rightarrow> bool \<Rightarrow> (bytes \<times> SessionTEEKConnection) list \<Rightarrow> (bytes \<times> controlSessionOwner) list \<Rightarrow>
    's teet \<Rightarrow> 's teet" where
  "reconn c a k h sc so t = t\<lparr>controlConn := c, attestationVerified := a, teekConnected := k, controlHealthy := h,
     sessionConns := sc, sessionOwners := so\<rparr>"

lemma reconn_fields [simp]:
  "otReceiverState (reconn c a k h sc so t) = otReceiverState t" "rStates (reconn c a k h sc so t) = rStates t"
  "rPends (reconn c a k h sc so t) = rPends t" "rBases (reconn c a k h sc so t) = rBases t"
  "rExts (reconn c a k h sc so t) = rExts t" "allocated (reconn c a k h sc so t) = allocated t"
  "controlConn (reconn c a k h sc so t) = c" "controlGeneration (reconn c a k h sc so t) = controlGeneration t"
  by (simp_all add: reconn_def)

lemma reconn_commute:
  "onPend p f (reconn c a k h sc so t) = reconn c a k h sc so (onPend p f t)"
  "onState s g (reconn c a k h sc so t) = reconn c a k h sc so (onState s g t)"
  "destroyBase b (reconn c a k h sc so t) = reconn c a k h sc so (destroyBase b t)"
  "destroyExt e (reconn c a k h sc so t) = reconn c a k h sc so (destroyExt e t)"
  "(reconn c a k h sc so t)\<lparr>otReady := r\<rparr> = reconn c a k h sc so (t\<lparr>otReady := r\<rparr>)"
  by (simp_all add: reconn_def onPend_def onState_def destroyBase_def destroyExt_def split: option.split)

lemma finish_reconn:
  "finishReceiverPrecompute po oc (reconn c a k h sc so t) = reconn c a k h sc so (finishReceiverPrecompute po oc t)"
  by (simp add: finishReceiverPrecompute_def destroyIdleReceiverPrecompute_def Let_def reconn_commute split: option.split)

lemma suspend_reconn:
  "suspendOTReceiverPoolForReconnect (reconn c a k h sc so t) = reconn c a k h sc so (suspendOTReceiverPoolForReconnect t)"
proof -
  have "clearOTReceiverPool (reconn c a k h sc so t) = reconn c a k h sc so (clearOTReceiverPool t)" for t :: "'a teet"
    by (simp add: clearOTReceiverPool_def Let_def reconn_commute finish_reconn split: option.split)
  then show ?thesis
    by (simp add: suspendOTReceiverPoolForReconnect_def Let_def reconn_commute finish_reconn split: option.split)
qed

lemma suspend_drop:
  "suspendOTReceiverPoolForReconnect (drop_generation g t) =
    reconn (controlConn t) (attestationVerified t) (teekConnected t) (controlHealthy t)
      (sessionConns (drop_generation g t)) (sessionOwners (drop_generation g t)) (suspendOTReceiverPoolForReconnect t)"
proof -
  have "drop_generation g t = reconn (controlConn t) (attestationVerified t) (teekConnected t) (controlHealthy t)
      (sessionConns (drop_generation g t)) (sessionOwners (drop_generation g t)) t"
    by (simp add: drop_generation_def reconn_def)
  then show ?thesis using suspend_reconn by metis
qed

lemma suspend_teardown:
  "suspendOTReceiverPoolForReconnect ((drop_generation g t)\<lparr>controlConn := c, attestationVerified := a,
      teekConnected := k, controlHealthy := h\<rparr>) =
   reconn c a k h (sessionConns (drop_generation g t)) (sessionOwners (drop_generation g t))
      (suspendOTReceiverPoolForReconnect t)"
proof -
  have "(drop_generation g t)\<lparr>controlConn := c, attestationVerified := a, teekConnected := k, controlHealthy := h\<rparr> =
      reconn c a k h (sessionConns (drop_generation g t)) (sessionOwners (drop_generation g t)) t"
    by (simp add: drop_generation_def reconn_def)
  then show ?thesis using suspend_reconn by metis
qed

lemma drop_generation_fields [simp]:
  "controlConn (drop_generation g t) = controlConn t" "controlGeneration (drop_generation g t) = controlGeneration t"
  "otReceiverState (drop_generation g t) = otReceiverState t" "rStates (drop_generation g t) = rStates t"
  "rPends (drop_generation g t) = rPends t" "rBases (drop_generation g t) = rBases t"
  "rExts (drop_generation g t) = rExts t" "allocated (drop_generation g t) = allocated t"
  by (simp_all add: drop_generation_def)

lemma suspend_fields [simp]:
  "controlConn (suspendOTReceiverPoolForReconnect t) = controlConn t"
  "controlGeneration (suspendOTReceiverPoolForReconnect t) = controlGeneration t"
  "otReceiverState (suspendOTReceiverPoolForReconnect t) = otReceiverState t"
  "allocated (suspendOTReceiverPoolForReconnect t) = allocated t"
  by (simp_all add: suspendOTReceiverPoolForReconnect_def clearOTReceiverPool_def Let_def split: option.split)

text \<open>The objects after an activation or a teardown are those of the suspended service, or of
  the service itself when no control connection was up.\<close>

lemma activate_state:
  assumes "activateControlConnection live t = (t', r)"
  obtains t1 where "t1 = (if controlConn t = None then t else suspendOTReceiverPoolForReconnect t)"
    "otReceiverState t' = otReceiverState t1" "rStates t' = rStates t1" "rPends t' = rPends t1"
    "rBases t' = rBases t1" "rExts t' = rExts t1" "allocated t' = Suc (allocated t)" "controlConn t' = Some (allocated t)"
  using assms
  by (cases "controlConn t") (auto simp: activateControlConnection_def Let_def suspend_drop)

lemma teardown_state:
  assumes "tearDownControlConnection live conn gen t = (t', r)"
  shows "t' = t \<or> (controlConn t = Some conn \<and> otReceiverState t' = otReceiverState t \<and>
    rStates t' = rStates (suspendOTReceiverPoolForReconnect t) \<and>
    rPends t' = rPends (suspendOTReceiverPoolForReconnect t) \<and> rBases t' = rBases (suspendOTReceiverPoolForReconnect t) \<and>
    rExts t' = rExts (suspendOTReceiverPoolForReconnect t) \<and> allocated t' = allocated t \<and> controlConn t' = None)"
  using assms
  by (auto simp: tearDownControlConnection_def suspend_teardown isCurrentControlConnection_def split: if_splits)

lemma wf_reconnect:
  assumes wf: "wf_teet t" and none: "\<And>p. \<not> is_pending t p"
    and eq: "otReceiverState t' = otReceiverState t" "rStates t' = rStates t" "rPends t' = rPends t"
      "rBases t' = rBases t" "rExts t' = rExts t"
    and a: "allocated t \<le> allocated t'" and c: "\<And>n. allocated t' \<le> n \<Longrightarrow> controlConn t' \<noteq> Some n"
  shows "wf_teet t'"
proof -
  note d = wf_teetD [OF wf]
  have none': "\<not> is_pending t' p" for p using none [of p] eq by (simp add: is_pending_def)
  show ?thesis
  proof (rule wf_teetI)
    show "rpClosed r = 0 \<and> is_pending t' p" if "rPends t' p = Some r" "rpOutcome r = InProgress" for p r
      using that d(4) [of p r] none [of p] eq by simp
    show "rStates t' n = None \<and> rPends t' n = None \<and> rBases t' n = None \<and> rExts t' n = None \<and> controlConn t' \<noteq> Some n"
      if "allocated t' \<le> n" for n
      using that a d(7) [of n] c [OF that] eq by simp
    show "otReceiverState t' = Some s" if "rStates t' s = Some st" "rPending st = Some p" for s st p
      using d(1) that eq by simp
    show "rpClosed r = 1 \<and> rpEntries r = []" if "rPends t' p = Some r" "rpOutcome r \<noteq> InProgress" for p r
      using d(5) that eq by simp
    show "rStates t' s \<noteq> None" if "otReceiverState t' = Some s" for s using d(6) that eq by simp
  qed (use none' in blast)+
qed

lemma activate_wf:
  assumes wf: "wf_teet t" and a: "activateControlConnection live t = (t', r)"
  shows "wf_teet t'" "\<not> is_pending t' p"
proof -
  obtain t1 where t1: "t1 = (if controlConn t = None then t else suspendOTReceiverPoolForReconnect t)"
    and e: "otReceiverState t' = otReceiverState t1" "rStates t' = rStates t1" "rPends t' = rPends t1"
      "rBases t' = rBases t1" "rExts t' = rExts t1" "allocated t' = Suc (allocated t)" "controlConn t' = Some (allocated t)"
    by (rule activate_state [OF a])
  have w: "wf_teet t1" using wf suspend_wf(1) [OF wf] by (simp add: t1)
  have n: "\<not> is_pending t1 p" for p using wf_teetD(2) [OF wf] suspend_wf(2) [OF wf] by (auto simp: t1)
  have "allocated t1 = allocated t" by (simp add: t1)
  then show "wf_teet t'" by (intro wf_reconnect [OF w n e(1-5)]) (simp_all add: e)
  show "\<not> is_pending t' p" using n [of p] e by (simp add: is_pending_def)
qed

lemma teardown_wf:
  assumes wf: "wf_teet t" and a: "tearDownControlConnection live conn gen t = (t', r)"
  shows "wf_teet t'"
  using teardown_state [OF a]
proof
  assume e: "controlConn t = Some conn \<and> otReceiverState t' = otReceiverState t \<and>
    rStates t' = rStates (suspendOTReceiverPoolForReconnect t) \<and>
    rPends t' = rPends (suspendOTReceiverPoolForReconnect t) \<and> rBases t' = rBases (suspendOTReceiverPoolForReconnect t) \<and>
    rExts t' = rExts (suspendOTReceiverPoolForReconnect t) \<and> allocated t' = allocated t \<and> controlConn t' = None"
  show ?thesis by (rule wf_reconnect [OF suspend_wf [OF wf]]) (simp_all add: e)
qed (use wf in simp)

lemma attest_cases:
  assumes "completeControlAttestationForPair live sent conn gen pid t = (t', x)"
  shows "(\<exists>r. tearDownControlConnection live conn gen t = (t', r)) \<or>
    (otReceiverState t' = otReceiverState t \<and> rStates t' = rStates t \<and> rPends t' = rPends t \<and> rBases t' = rBases t \<and>
     rExts t' = rExts t \<and> allocated t' = allocated t \<and> controlConn t' = controlConn t \<and> controlGeneration t' = controlGeneration t)"
  using assms
  by (cases "tearDownControlConnection live conn gen t")
    (auto simp: completeControlAttestationForPair_def split: if_splits)

lemma attest_wf:
  assumes wf: "wf_teet t" and a: "completeControlAttestationForPair live sent conn gen pid t = (t', x)"
  shows "wf_teet t'"
  using attest_cases [OF a]
proof
  assume "\<exists>r. tearDownControlConnection live conn gen t = (t', r)"
  then show ?thesis using teardown_wf [OF wf] by blast
next
  assume e: "otReceiverState t' = otReceiverState t \<and> rStates t' = rStates t \<and> rPends t' = rPends t \<and> rBases t' = rBases t \<and>
     rExts t' = rExts t \<and> allocated t' = allocated t \<and> controlConn t' = controlConn t \<and> controlGeneration t' = controlGeneration t"
  show ?thesis by (rule wf_teet_cong [OF wf]) (auto simp: e)
qed

lemma current_connection:
  "isCurrentControlConnection conn gen t \<Longrightarrow> controlConn t \<noteq> None \<and> controlGeneration t = gen"
  by (simp add: isCurrentControlConnection_def)

lemma choices_claim_wf:
  assumes wf: "wf_teet t" and c: "choices_claim current gen m t = (t', x)"
  shows "wf_teet t'"
  using choices_claim_cases [OF c]
proof
  assume "\<exists>s st p r. current t \<and> pending_of t = Some (s, st, p, r) \<and> rpPhase r = AwaitBaseChoices \<and>
       x = Inr (s, p, rpBase r) \<and> t' = onPend p (\<lambda>r. r\<lparr>rpPhase := ProcessingChoices\<rparr>) t"
  then obtain s st p r where q: "pending_of t = Some (s, st, p, r)"
    and t': "t' = onPend p (\<lambda>r. r\<lparr>rpPhase := ProcessingChoices\<rparr>) t" by blast
  show ?thesis unfolding t'
    by (rule onPend_wf [OF wf _ _ _ pending_of_Some(4) [OF q] pending_of_wf(1) [OF wf q]]) simp_all
qed (use wf in simp)

lemma choices_compute_wf:
  assumes wf: "wf_teet t" and c: "choices_compute co rng m s p base t = (t', x)"
  shows "wf_teet t'"
  using choices_compute_cases [OF c] wf destroy_wf new_wf(2) [OF destroy_wf(1) [OF wf]] by blast

lemma choices_publish_wf:
  assumes wf: "wf_teet t" and c: "choices_publish current gen s p ext es t = (t', x)"
  shows "wf_teet t'"
  using choices_publish_cases [OF c]
proof
  assume "\<exists>st r. current t \<and> pending_of t = Some (s, st, p, r) \<and> rpPhase r = ProcessingChoices \<and> x = Inr () \<and>
       t' = onPend p (\<lambda>r. r\<lparr>rpExtension := Some ext, rpEntries := es, rpPhase := AwaitChallenge\<rparr>) t"
  then obtain st r where q: "pending_of t = Some (s, st, p, r)"
    and t': "t' = onPend p (\<lambda>r. r\<lparr>rpExtension := Some ext, rpEntries := es, rpPhase := AwaitChallenge\<rparr>) t" by blast
  show ?thesis unfolding t'
    by (rule onPend_wf [OF wf _ _ _ pending_of_Some(4) [OF q] pending_of_wf(1) [OF wf q]]) simp_all
qed (use wf destroy_wf(2) in blast)

lemma challenge_claim_wf:
  assumes wf: "wf_teet t" and c: "challenge_claim current gen m t = (t', x)"
  shows "wf_teet t'"
  using challenge_claim_cases [OF c]
proof
  assume "\<exists>s st p r ext. current t \<and> pending_of t = Some (s, st, p, r) \<and> rpPhase r = AwaitChallenge \<and>
       rpExtension r = Some ext \<and> x = Inr (s, p, ext) \<and> t' = onPend p (\<lambda>r. r\<lparr>rpPhase := ProcessingChallenge\<rparr>) t"
  then obtain s st p r where q: "pending_of t = Some (s, st, p, r)"
    and t': "t' = onPend p (\<lambda>r. r\<lparr>rpPhase := ProcessingChallenge\<rparr>) t" by blast
  show ?thesis unfolding t'
    by (rule onPend_wf [OF wf _ _ _ pending_of_Some(4) [OF q] pending_of_wf(1) [OF wf q]]) simp_all
qed (use wf in simp)

lemma challenge_publish_wf:
  assumes wf: "wf_teet t" and c: "challenge_publish current gen s p t = (t', x)"
  shows "wf_teet t'"
  using challenge_publish_cases [OF c]
proof
  assume "\<exists>st r. current t \<and> pending_of t = Some (s, st, p, r) \<and> rpPhase r = ProcessingChallenge \<and> x = Inr () \<and>
       t' = onPend p (\<lambda>r. r\<lparr>rpPhase := AwaitComplete\<rparr>) t"
  then obtain st r where q: "pending_of t = Some (s, st, p, r)"
    and t': "t' = onPend p (\<lambda>r. r\<lparr>rpPhase := AwaitComplete\<rparr>) t" by blast
  show ?thesis unfolding t'
    by (rule onPend_wf [OF wf _ _ _ pending_of_Some(4) [OF q] pending_of_wf(1) [OF wf q]]) simp_all
qed (use wf in simp)

text \<open>A commit is the end of the batch with a new pool: the order of its updates does not matter.\<close>

lemma finish_onState:
  "finishReceiverPrecompute po oc ((onState s g t)\<lparr>otReady := b\<rparr>) = (onState s g (finishReceiverPrecompute po oc t))\<lparr>otReady := b\<rparr>"
proof -
  have c: "onPend p f ((onState s g t)\<lparr>otReady := b\<rparr>) = (onState s g (onPend p f t))\<lparr>otReady := b\<rparr>"
    "destroyBase x ((onState s g t)\<lparr>otReady := b\<rparr>) = (onState s g (destroyBase x t))\<lparr>otReady := b\<rparr>"
    "destroyExt x ((onState s g t)\<lparr>otReady := b\<rparr>) = (onState s g (destroyExt x t))\<lparr>otReady := b\<rparr>" for t :: "'a teet" and p f x
    by (simp_all add: onPend_def onState_def destroyBase_def destroyExt_def split: option.split)
  show ?thesis
    by (simp add: finishReceiverPrecompute_def destroyIdleReceiverPrecompute_def Let_def c split: option.split)
qed

lemma complete_wf:
  assumes wf: "wf_teet t" and c: "handleOTPrecomputeComplete current gen psize t = (t', x)"
  shows "wf_teet t'"
  using complete_cases [OF c]
proof
  assume "\<exists>s st p (r :: receiverPrecompute) pool. current t \<and> pending_of t = Some (s, st, p, r) \<and> rpPhase r = AwaitComplete \<and> rpEntries r \<noteq> [] \<and>
       receiver_add (rPool st) (rpEntries r) = (pool, Inr ()) \<and> x = Inr () \<and>
       t' = finishReceiverPrecompute (Some p) Committed
         ((onState s (\<lambda>st. st\<lparr>rPool := pool, rEpoch := ExtensionEpoch (bSessionID (rpBegin r)), rPending := None, rReady := True\<rparr>)
             (onPend p (\<lambda>r. r\<lparr>rpEntries := []\<rparr>) t))\<lparr>otReady := True\<rparr>)"
  then obtain s st p and r :: receiverPrecompute and pool where q: "pending_of t = Some (s, st, p, r)"
    and t': "t' = finishReceiverPrecompute (Some p) Committed
         ((onState s (\<lambda>st. st\<lparr>rPool := pool, rEpoch := ExtensionEpoch (bSessionID (rpBegin r)), rPending := None, rReady := True\<rparr>)
             (onPend p (\<lambda>r. r\<lparr>rpEntries := []\<rparr>) t))\<lparr>otReady := True\<rparr>)" by blast
  note p = pending_of_Some [OF q] and w = pending_of_wf [OF wf q]
  let ?u = "onPend p (\<lambda>r. r\<lparr>rpEntries := []\<rparr>) t"
  have u: "wf_teet ?u" by (rule onPend_wf [OF wf _ _ _ p(4) w(1)]) simp_all
  have "otReceiverState ?u = Some s" "rStates ?u s = Some st" using p by simp_all
  from endBatch_wf(1) [OF u this, of "\<lambda>st. st\<lparr>rPool := pool, rEpoch := ExtensionEpoch (bSessionID (rpBegin r)), rPending := None, rReady := True\<rparr>" Committed]
  show ?thesis unfolding t' finish_onState otReady_wf using p(3) by simp
qed (use wf in simp)

lemma consume_wf:
  assumes wf: "wf_teet t"
  shows "consume_claim current start cnt t = (t', x) \<Longrightarrow> wf_teet t'"
    "consume_commit current s p start cnt t = (t', y) \<Longrightarrow> wf_teet t'"
    "handleOTResumeRequest current epoch nxt t = (t', z) \<Longrightarrow> wf_teet t'"
proof -
  have pool: "wf_teet (onState s (\<lambda>st. st\<lparr>rPool := q\<rparr>) t)" for s q by (rule onState_wf [OF wf]) simp
  show "consume_claim current start cnt t = (t', x) \<Longrightarrow> wf_teet t'"
    using consume_claim_cases [of current start cnt t t' x] wf pool by blast
  show "consume_commit current s p start cnt t = (t', y) \<Longrightarrow> wf_teet t'"
    using consume_commit_cases [of current s p start cnt t t' y] wf pool by blast
  show "handleOTResumeRequest current epoch nxt t = (t', z) \<Longrightarrow> wf_teet t'"
    using resume_cases [of current epoch nxt t t' z] wf pool by (metis otReady_wf)
qed

lemma challenge_compute_wf: "wf_teet t \<Longrightarrow> challenge_compute m p ext t = (t', x) \<Longrightarrow> wf_teet t'"
  using destroy_wf(2) by (simp add: challenge_compute_def) blast

lemma step_wf:
  assumes "teet_step co compiled c c'" "wf_teet (fst c)"
  shows "wf_teet (fst c')"
  using assms
proof (cases rule: teet_step.cases)
  case (begin_msg conn ths m b gen t t' x lg)
  then show ?thesis using assms(2) begin_claim_wf [of t "isCurrentControlConnection conn gen" m b] by simp
next
  case (begin_run rng b ss msg rest t t1 base conn gen m s t2 x ths lg sent)
  have "wf_teet t1" using begin_run assms(2) new_wf(1) [of t ss] by simp
  from begin_publish_wf [OF this, of "isCurrentControlConnection conn gen" gen m b s base] current_connection begin_run
  show ?thesis by (metis fst_conv)
next
  case (clear t conn s p ths lg)
  then show ?thesis using assms(2) clearPending_wf by simp
next
  case (choices_msg conn ths gen m t t' x lg)
  then show ?thesis using assms(2) choices_claim_wf by (metis fst_conv)
next
  case (choices_run rng m s p base t t' x conn gen ths lg)
  then show ?thesis using assms(2) choices_compute_wf by (metis fst_conv)
next
  case (choices_pub conn gen s p ext es t t' x ths lg sent)
  then show ?thesis using assms(2) choices_publish_wf by (metis fst_conv)
next
  case (challenge_msg conn ths gen m t t' x lg)
  then show ?thesis using assms(2) challenge_claim_wf by (metis fst_conv)
next
  case (challenge_run m p ext t t' x conn gen s ths lg)
  then show ?thesis using assms(2) challenge_compute_wf by (metis fst_conv)
next
  case (challenge_pub conn gen s p t t' x ths lg sent)
  then show ?thesis using assms(2) challenge_publish_wf by (metis fst_conv)
next
  case (complete_msg conn ths t gen psize t' x lg)
  then show ?thesis using assms(2) complete_wf by (metis fst_conv)
next
  case (resume_msg conn ths gen epoch nxt t t' x lg)
  then show ?thesis using assms(2) consume_wf(3) by (metis fst_conv)
next
  case (consume_now cnt t s current start t' es ths lg)
  then show ?thesis using assms(2) consume_wf(1) by (metis fst_conv)
next
  case (consume_wait cnt current start t t' s p ths lg)
  then show ?thesis using assms(2) consume_wf(1) by (metis fst_conv)
next
  case (consume_fail cnt current start t t' e ths lg)
  then show ?thesis using assms(2) consume_wf(1) by (metis fst_conv)
next
  case (wait_done cnt current s p start t t' x ths lg)
  then show ?thesis using assms(2) consume_wf(2) by (metis fst_conv)
next
  case (activate live t t' r ths lg)
  then show ?thesis using assms(2) activate_wf(1) by (metis fst_conv)
next
  case (attest live sent conn gen pid t t' x ths lg)
  then show ?thesis using assms(2) attest_wf by (metis fst_conv)
next
  case (teardown live conn gen t t' r ths lg)
  then show ?thesis using assms(2) teardown_wf by (metis fst_conv)
qed simp_all

lemma reach_wf: "teet_reach co compiled c \<Longrightarrow> wf_teet (fst c)"
proof (induction rule: teet_reach.induct)
  case init
  show ?case by (simp add: wf_teet_def is_pending_def newTEET_def)
qed (rule step_wf)

end
