(* ===== verification/Tee_T_Replay.thy ===== *)
theory Tee_T_Replay
  imports Tee_T_Concurrent
begin

text \<open>
  The pools of the receiver under all interleavings: a committed batch fits its pool, and no
  transfer is ever delivered twice.
\<close>

section \<open>The invariant\<close>

definition count_ok :: "PrecomputeBegin \<Rightarrow> bool" where
  "count_ok b \<longleftrightarrow> 0 < unat (bCount b) \<and> unat (bCount b) \<le> MaxPrecomputeOTs"

definition fills :: "PrecomputeBegin \<Rightarrow> ReceiverOT list \<Rightarrow> bool" where
  "fills b es \<longleftrightarrow> length es = unat (bCount b) \<and> consecutive (bStartIndex b) (map rIndex es)"

text \<open>A state that is not ready has an empty pool.\<close>

definition pools_ok :: "'s teet \<Rightarrow> bool" where
  "pools_ok t \<longleftrightarrow> (\<forall>s st. rStates t s = Some st \<longrightarrow>
     receiver_inv (rPool st) \<and> (rReady st \<or> rEntries (rPool st) = []))"

text \<open>A pending batch starts where its pool ends, and once it has transfers they are the ones
  that were announced.\<close>

definition batch_ok :: "OTReceiverState \<Rightarrow> receiverPrecompute \<Rightarrow> bool" where
  "batch_ok st r \<longleftrightarrow> count_ok (rpBegin r) \<and> unat (bStartIndex (rpBegin r)) = receiver_end (rPool st) \<and>
     (if rpPhase r = AwaitBaseChoices \<or> rpPhase r = ProcessingChoices then rpEntries r = []
      else fills (rpBegin r) (rpEntries r))"

definition pend_ok :: "'s teet \<Rightarrow> bool" where
  "pend_ok t \<longleftrightarrow> (\<forall>s st p r. pending_of t = Some (s, st, p, r) \<longrightarrow> batch_ok st r)"

text \<open>A delivered transfer is gone from its pool and lies below the pool's end; a state that
  was cleared after deliveries has no batch pending any more.\<close>

definition log_ok :: "'s teet \<Rightarrow> (nat \<times> nat) list \<Rightarrow> bool" where
  "log_ok t lg \<longleftrightarrow> distinct lg \<and> (\<forall>s i. (s, i) \<in> set lg \<longrightarrow>
     (\<exists>st. rStates t s = Some st \<and> i \<notin> dom (unused (rPool st)) \<and>
        (if rReady st then i < receiver_end (rPool st) else rPending st = None)))"

text \<open>A handler between the two sections of a begin request still finds the state it
  validated, as long as its connection is current.\<close>

fun thread_ok :: "'s teet \<Rightarrow> (nat \<times> nat) list \<Rightarrow> thread \<Rightarrow> bool" where
  "thread_ok t lg (TBegin conn gen m b s) \<longleftrightarrow> count_ok b \<and>
     (controlConn t = Some conn \<longrightarrow> otReceiverState t = Some s \<and>
        (\<exists>st. rStates t s = Some st \<and> rPending st = None \<and> unat (bStartIndex b) = receiver_end (rPool st) \<and>
           (rReady st \<or> (\<forall>i. (s, i) \<notin> set lg))))"
| "thread_ok t lg (TPublish conn gen s p ext es) \<longleftrightarrow> (\<exists>r. rPends t p = Some r \<and> fills (rpBegin r) es)"
| "thread_ok t lg _ \<longleftrightarrow> True"

definition conns_ok :: "'s teet \<Rightarrow> thread multiset \<Rightarrow> bool" where
  "conns_ok t ths \<longleftrightarrow> (\<forall>th \<in># ths. \<forall>conn. thread_conn th = Some conn \<longrightarrow> conn < allocated t)"

definition one_each :: "thread multiset \<Rightarrow> bool" where
  "one_each ths \<longleftrightarrow> (\<forall>th rest conn. ths = add_mset th rest \<longrightarrow> thread_conn th = Some conn \<longrightarrow> idle conn rest)"

definition replay_inv :: "'s config \<Rightarrow> bool" where
  "replay_inv c \<longleftrightarrow> (case c of (t, ths, lg) \<Rightarrow>
     pools_ok t \<and> pend_ok t \<and> log_ok t lg \<and> (\<forall>th \<in># ths. thread_ok t lg th) \<and> conns_ok t ths \<and> one_each ths)"

lemma one_each_add:
  assumes "one_each ths" "\<And>conn. thread_conn th = Some conn \<Longrightarrow> idle conn ths"
  shows "one_each (add_mset th ths)"
  unfolding one_each_def
proof (intro allI impI)
  fix th' rest conn assume e: "add_mset th ths = add_mset th' rest" and c: "thread_conn th' = Some conn"
  show "idle conn rest"
  proof (cases "th = th'")
    case True
    then show ?thesis using e c assms(2) by simp
  next
    case False
    then obtain k where k: "ths = add_mset th' k" "rest = add_mset th k" using e by (metis add_eq_conv_ex)
    have "idle conn k" using assms(1) k(1) c by (simp add: one_each_def)
    moreover have "thread_conn th \<noteq> Some conn"
      using assms(2) [of conn] k(1) c by (auto simp: idle_def)
    ultimately show ?thesis by (simp add: k(2) idle_def)
  qed
qed

lemma one_each_remove: "one_each (add_mset th ths) \<Longrightarrow> one_each ths"
  unfolding one_each_def
proof (intro allI impI)
  fix th' rest conn
  assume o: "\<forall>tha rest conn. add_mset th ths = add_mset tha rest \<longrightarrow> thread_conn tha = Some conn \<longrightarrow> idle conn rest"
    and e: "ths = add_mset th' rest" and c: "thread_conn th' = Some conn"
  have "add_mset th ths = add_mset th' (add_mset th rest)" by (simp add: e add_mset_commute)
  then have "idle conn (add_mset th rest)" using o c by blast
  then show "idle conn rest" by (simp add: idle_def)
qed

lemma one_each_other: "one_each (add_mset th ths) \<Longrightarrow> thread_conn th = Some conn \<Longrightarrow> idle conn ths"
  unfolding one_each_def by blast

lemma one_each_replace:
  "one_each (add_mset th ths) \<Longrightarrow> thread_conn th' = thread_conn th \<Longrightarrow> one_each (add_mset th' ths)"
  by (rule one_each_add [OF one_each_remove], assumption, rule one_each_other, assumption, simp)

lemma replay_invI:
  "pools_ok t \<Longrightarrow> pend_ok t \<Longrightarrow> log_ok t lg \<Longrightarrow> (\<And>th. th \<in># ths \<Longrightarrow> thread_ok t lg th) \<Longrightarrow> conns_ok t ths \<Longrightarrow>
    one_each ths \<Longrightarrow> replay_inv (t, ths, lg)"
  by (simp add: replay_inv_def)

lemma replay_invD:
  assumes "replay_inv (t, ths, lg)"
  shows "pools_ok t" "pend_ok t" "log_ok t lg" "th \<in># ths \<Longrightarrow> thread_ok t lg th" "conns_ok t ths" "one_each ths"
  using assms by (simp_all add: replay_inv_def)

section \<open>Framing\<close>

text \<open>What a thread relies on survives a step that keeps the connection and, for every
  receiver state, its end, its readiness and the absence of a pending batch; it also survives
  when the thread's connection is not current.\<close>

definition keeps_begins :: "'s teet \<Rightarrow> 's teet \<Rightarrow> bool" where
  "keeps_begins t t' \<longleftrightarrow> (\<forall>p r. rPends t p = Some r \<longrightarrow> (\<exists>r'. rPends t' p = Some r' \<and> rpBegin r' = rpBegin r))"

definition calm :: "'s teet \<Rightarrow> 's teet \<Rightarrow> bool" where
  "calm t t' \<longleftrightarrow> otReceiverState t' = otReceiverState t \<and> controlConn t' = controlConn t \<and> keeps_begins t t' \<and>
     (\<forall>s st. rStates t s = Some st \<longrightarrow> (\<exists>st'. rStates t' s = Some st' \<and> (rPending st = None \<longrightarrow> rPending st' = None) \<and>
        receiver_end (rPool st') = receiver_end (rPool st) \<and> rReady st' = rReady st))"

lemma thread_ok_calm:
  assumes "thread_ok t lg th" "calm t t'"
    and lg: "\<And>s i. (s, i) \<in> set lg' \<Longrightarrow> (s, i) \<notin> set lg \<Longrightarrow> \<exists>st. rStates t s = Some st \<and> rReady st"
  shows "thread_ok t' lg' th"
proof (cases th)
  case (TBegin conn gen m b s)
  have "otReceiverState t' = Some s \<and> (\<exists>st. rStates t' s = Some st \<and> rPending st = None \<and>
      unat (bStartIndex b) = receiver_end (rPool st) \<and> (rReady st \<or> (\<forall>i. (s, i) \<notin> set lg')))"
    if "controlConn t' = Some conn"
  proof -
    have "controlConn t = Some conn" using that assms(2) by (simp add: calm_def)
    then obtain st where st: "otReceiverState t = Some s" "rStates t s = Some st" "rPending st = None"
      "unat (bStartIndex b) = receiver_end (rPool st)" "rReady st \<or> (\<forall>i. (s, i) \<notin> set lg)"
      using assms(1) TBegin by auto
    then obtain st' where "rStates t' s = Some st'" "rPending st' = None"
      "receiver_end (rPool st') = receiver_end (rPool st)" "rReady st' = rReady st"
      using assms(2) unfolding calm_def by blast
    moreover have "rReady st \<or> (\<forall>i. (s, i) \<notin> set lg')" using lg [of s] st(2,5) by auto
    ultimately show ?thesis using st assms(2) by (simp add: calm_def)
  qed
  then show ?thesis using assms(1) TBegin by simp
next
  case (TPublish conn gen s p ext es)
  then show ?thesis using assms unfolding calm_def keeps_begins_def by (metis thread_ok.simps(2))
qed simp_all

lemma thread_ok_stale:
  assumes "thread_ok t lg th" "keeps_begins t t'"
    "\<And>conn. thread_conn th = Some conn \<Longrightarrow> controlConn t' \<noteq> Some conn"
  shows "thread_ok t' lg' th"
proof (cases th)
  case (TPublish conn gen s p ext es)
  then show ?thesis using assms unfolding keeps_begins_def by (metis thread_ok.simps(2))
qed (use assms in auto)

section \<open>What the steps do to states and batches\<close>

lemma keeps_refl: "rPends t' = rPends t \<Longrightarrow> keeps_begins t t'"
  by (simp add: keeps_begins_def)

lemma keeps_trans: "keeps_begins t t1 \<Longrightarrow> keeps_begins t1 t2 \<Longrightarrow> keeps_begins t t2"
  unfolding keeps_begins_def by metis

lemma keeps_onPend: "(\<And>x. rpBegin (f x) = rpBegin x) \<Longrightarrow> keeps_begins t (onPend p f t)"
  by (auto simp: keeps_begins_def)

lemma keeps_finish: "keeps_begins t (finishReceiverPrecompute po oc t)"
proof (cases po)
  case (Some p)
  show ?thesis
  proof (cases "\<exists>r. rPends t p = Some r \<and> rpOutcome r = InProgress")
    case True
    then obtain r where r: "rPends t p = Some r" "rpOutcome r = InProgress" by blast
    show ?thesis using finish_pends(1) [OF r] r(1) by (auto simp: keeps_begins_def Some)
  next
    case False
    then have "finishReceiverPrecompute po oc t = t"
      by (cases "rPends t p") (auto simp: finishReceiverPrecompute_def Some)
    then show ?thesis by (simp add: keeps_begins_def)
  qed
qed (simp add: keeps_begins_def)

definition forget :: "OTReceiverState \<Rightarrow> OTReceiverState" where
  "forget st = st\<lparr>rPool := receiver_clear (rPool st), rPending := None, rReady := False\<rparr>"

lemma clearPending_effect:
  "rStates (clearPendingReceiverPrecompute s p t) = rStates t \<or>
   rStates (clearPendingReceiverPrecompute s p t) = (rStates t)(s := map_option (\<lambda>st. st\<lparr>rPending := None\<rparr>) (rStates t s))"
  "keeps_begins t (clearPendingReceiverPrecompute s p t)"
  "otReceiverState (clearPendingReceiverPrecompute s p t) = otReceiverState t"
  "controlConn (clearPendingReceiverPrecompute s p t) = controlConn t"
  "allocated (clearPendingReceiverPrecompute s p t) = allocated t"
  using keeps_finish [of t "Some p" Aborted]
  by (auto simp: clearPendingReceiverPrecompute_def keeps_begins_def)

lemma suspend_effect:
  assumes "wf_teet t"
  shows "rStates (suspendOTReceiverPoolForReconnect t) x = (if otReceiverState t = Some x
      then map_option (\<lambda>st. if rReady st then st\<lparr>rPending := None\<rparr> else forget st) (rStates t x) else rStates t x)"
    "keeps_begins t (suspendOTReceiverPoolForReconnect t)"
proof -
  show "rStates (suspendOTReceiverPoolForReconnect t) x = (if otReceiverState t = Some x
      then map_option (\<lambda>st. if rReady st then st\<lparr>rPending := None\<rparr> else forget st) (rStates t x) else rStates t x)"
    by (cases "otReceiverState t"; cases "rStates t (the (otReceiverState t))")
      (auto simp: suspendOTReceiverPoolForReconnect_def clearOTReceiverPool_def forget_def Let_def)
  have k: "keeps_begins u (clearOTReceiverPool u)" for u :: "'a teet"
    using keeps_finish [of u _ Aborted]
    by (auto simp: clearOTReceiverPool_def Let_def keeps_begins_def split: option.split)
  have k1: "keeps_begins t (onState s g (finishReceiverPrecompute po Aborted t))" for s g po
    using keeps_finish [of t po Aborted] by (simp add: keeps_begins_def)
  show "keeps_begins t (suspendOTReceiverPoolForReconnect t)"
    using k k1 keeps_trans [OF k1 k] keeps_refl [of t t]
    by (simp add: suspendOTReceiverPoolForReconnect_def Let_def split: option.split)
qed

lemma begin_reset_effect:
  shows "rStates (begin_reset epoch t) x = (if x = allocated t then Some (NewOTReceiverState\<lparr>rEpoch := epoch\<rparr>)
      else if otReceiverState t = Some x then map_option forget (rStates t x) else rStates t x)"
    "keeps_begins t (begin_reset epoch t)" "otReceiverState (begin_reset epoch t) = Some (allocated t)"
    "allocated (begin_reset epoch t) = Suc (allocated t)" "controlConn (begin_reset epoch t) = controlConn t"
proof -
  have k: "keeps_begins t (onState s f (finishReceiverPrecompute po Aborted (onState s g t)))" for s f g po
    using keeps_finish [of "onState s g t" po Aborted] by (simp add: keeps_begins_def)
  show "rStates (begin_reset epoch t) x = (if x = allocated t then Some (NewOTReceiverState\<lparr>rEpoch := epoch\<rparr>)
      else if otReceiverState t = Some x then map_option forget (rStates t x) else rStates t x)"
    "otReceiverState (begin_reset epoch t) = Some (allocated t)" "allocated (begin_reset epoch t) = Suc (allocated t)"
    "controlConn (begin_reset epoch t) = controlConn t"
    by (cases "otReceiverState t"; cases "rStates t (the (otReceiverState t))";
        auto simp: begin_reset_def forget_def Let_def)+
  show "keeps_begins t (begin_reset epoch t)"
    using k keeps_refl [of t t]
    by (cases "otReceiverState t"; cases "rStates t (the (otReceiverState t))")
      (auto simp: begin_reset_def Let_def keeps_begins_def)
qed

section \<open>Pools and log\<close>

text \<open>A change of one receiver state that makes nothing deliverable and keeps the end of a
  ready pool; a state that is not ready afterwards has no pending batch.\<close>

definition shrunk :: "OTReceiverState \<Rightarrow> OTReceiverState \<Rightarrow> bool" where
  "shrunk st st' \<longleftrightarrow> receiver_inv (rPool st') \<and> (rReady st' \<or> rEntries (rPool st') = []) \<and>
     dom (unused (rPool st')) \<subseteq> dom (unused (rPool st)) \<and>
     (if rReady st' then rReady st \<and> receiver_end (rPool st') = receiver_end (rPool st) else rPending st' = None)"

lemma pools_log_shrunk:
  assumes "pools_ok t" "log_ok t lg"
    and old: "\<And>x st. rStates t x = Some st \<Longrightarrow> \<exists>st'. rStates t' x = Some st' \<and> (st' = st \<or> shrunk st st')"
    and new: "\<And>x st'. rStates t x = None \<Longrightarrow> rStates t' x = Some st' \<Longrightarrow>
      receiver_inv (rPool st') \<and> (rReady st' \<or> rEntries (rPool st') = [])"
  shows "pools_ok t'" "log_ok t' lg"
proof -
  show "pools_ok t'" unfolding pools_ok_def
  proof (intro allI impI)
    fix x st' assume st': "rStates t' x = Some st'"
    show "receiver_inv (rPool st') \<and> (rReady st' \<or> rEntries (rPool st') = [])"
    proof (cases "rStates t x")
      case (Some st)
      from old [OF this] st' have "st' = st \<or> shrunk st st'" by auto
      then show ?thesis using Some assms(1) by (auto simp: pools_ok_def shrunk_def)
    qed (use new st' in blast)
  qed
  have "\<exists>st'. rStates t' s = Some st' \<and> i \<notin> dom (unused (rPool st')) \<and>
      (if rReady st' then i < receiver_end (rPool st') else rPending st' = None)" if "(s, i) \<in> set lg" for s i
  proof -
    obtain st where st: "rStates t s = Some st" "i \<notin> dom (unused (rPool st))"
      "if rReady st then i < receiver_end (rPool st) else rPending st = None"
      using assms(2) \<open>(s, i) \<in> set lg\<close> unfolding log_ok_def by blast
    from old [OF st(1)] obtain st' where st': "rStates t' s = Some st'" "st' = st \<or> shrunk st st'" by blast
    then show ?thesis using st(2,3) unfolding shrunk_def by (auto split: if_splits)
  qed
  then show "log_ok t' lg" using assms(2) unfolding log_ok_def by blast
qed

lemma forget_shrunk: "shrunk st (forget st)"
  using receiver_clear_inv [of "rPool st"] by (simp add: shrunk_def forget_def receiver_clear_def)

lemma unpend_shrunk:
  "pools_ok t \<Longrightarrow> rStates t s = Some st \<Longrightarrow> shrunk st (st\<lparr>rPending := None\<rparr>)"
  by (simp add: shrunk_def pools_ok_def)

lemma new_state_ok:
  "receiver_inv (rPool (NewOTReceiverState\<lparr>rEpoch := e\<rparr>)) \<and> rEntries (rPool (NewOTReceiverState\<lparr>rEpoch := e\<rparr>)) = []"
  using NewReceiverPool_inv(1) by (simp add: NewOTReceiverState_def NewReceiverPool_def)

lemma no_pending_of: "(\<And>p. \<not> is_pending t p) \<Longrightarrow> pending_of t = None"
  by (auto simp: pending_of_def is_pending_def split: option.split)

lemma begin_reset_pools:
  assumes "wf_teet t" "pools_ok t" "log_ok t lg"
  shows "pools_ok (begin_reset epoch t)" "log_ok (begin_reset epoch t) lg" "pend_ok (begin_reset epoch t)"
    "(allocated t, i) \<notin> set lg"
proof -
  have a: "rStates t (allocated t) = None" using wf_teetD(7) [OF assms(1), of "allocated t"] by blast
  note p = pools_log_shrunk [OF assms(2,3), of "begin_reset epoch t"]
  have old: "\<exists>st'. rStates (begin_reset epoch t) x = Some st' \<and> (st' = st \<or> shrunk st st')" if "rStates t x = Some st" for x st
    using that a forget_shrunk by (auto simp: begin_reset_effect(1))
  have new: "receiver_inv (rPool st') \<and> (rReady st' \<or> rEntries (rPool st') = [])"
    if "rStates t x = None" "rStates (begin_reset epoch t) x = Some st'" for x st'
    using that new_state_ok by (auto simp: begin_reset_effect(1) split: if_splits)
  show "pools_ok (begin_reset epoch t)" "log_ok (begin_reset epoch t) lg" by (rule p, fact old, fact new)+
  show "pend_ok (begin_reset epoch t)"
    using no_pending_of [OF begin_reset_wf(2) [OF assms(1)]] by (simp add: pend_ok_def)
  show "(allocated t, i) \<notin> set lg" using assms(3) a unfolding log_ok_def by force
qed

lemma suspend_pools:
  assumes "wf_teet t" "pools_ok t" "log_ok t lg"
  shows "pools_ok (suspendOTReceiverPoolForReconnect t)" "log_ok (suspendOTReceiverPoolForReconnect t) lg"
    "pend_ok (suspendOTReceiverPoolForReconnect t)"
proof -
  note p = pools_log_shrunk [OF assms(2,3), of "suspendOTReceiverPoolForReconnect t"]
  have old: "\<exists>st'. rStates (suspendOTReceiverPoolForReconnect t) x = Some st' \<and> (st' = st \<or> shrunk st st')"
    if "rStates t x = Some st" for x st
    using that forget_shrunk unpend_shrunk [OF assms(2) that] by (auto simp: suspend_effect(1) [OF assms(1)])
  have new: "receiver_inv (rPool st') \<and> (rReady st' \<or> rEntries (rPool st') = [])"
    if "rStates t x = None" "rStates (suspendOTReceiverPoolForReconnect t) x = Some st'" for x st'
    using that by (auto simp: suspend_effect(1) [OF assms(1)] split: if_splits)
  show "pools_ok (suspendOTReceiverPoolForReconnect t)" "log_ok (suspendOTReceiverPoolForReconnect t) lg"
    by (rule p, fact old, fact new)+
  show "pend_ok (suspendOTReceiverPoolForReconnect t)"
    using no_pending_of [OF suspend_wf(2) [OF assms(1)]] by (simp add: pend_ok_def)
qed

text \<open>Steps that only touch batches, base and extension states.\<close>

lemma same_states:
  assumes "rStates t' = rStates t"
  shows "pools_ok t' = pools_ok t" "log_ok t' lg = log_ok t lg"
  using assms by (simp_all add: pools_ok_def log_ok_def)

lemma calm_same_states:
  "otReceiverState t' = otReceiverState t \<Longrightarrow> controlConn t' = controlConn t \<Longrightarrow> rStates t' = rStates t \<Longrightarrow>
    keeps_begins t t' \<Longrightarrow> calm t t'"
  by (simp add: calm_def)

lemma clearPending_pools:
  assumes "wf_teet t" "pools_ok t" "log_ok t lg" "pend_ok t"
  shows "pools_ok (clearPendingReceiverPrecompute s p t)" "log_ok (clearPendingReceiverPrecompute s p t) lg"
    "pend_ok (clearPendingReceiverPrecompute s p t)" "calm t (clearPendingReceiverPrecompute s p t)"
proof -
  let ?t = "clearPendingReceiverPrecompute s p t"
  note e = clearPending_effect [where s = s and p = p and t = t]
  have ch: "\<exists>st'. rStates ?t x = Some st' \<and> (st' = st \<or> st' = st\<lparr>rPending := None\<rparr>)" if "rStates t x = Some st" for x st
    using e(1) that by auto
  have dom: "rStates t x = None \<Longrightarrow> rStates ?t x = None" for x using e(1) by auto
  note p = pools_log_shrunk [OF assms(2,3), of ?t]
  have old: "\<exists>st'. rStates ?t x = Some st' \<and> (st' = st \<or> shrunk st st')" if "rStates t x = Some st" for x st
    using ch [OF that] unpend_shrunk [OF assms(2) that] by blast
  show "pools_ok ?t" "log_ok ?t lg" by (rule p, fact old, use dom in force)+
  show "calm t ?t" unfolding calm_def using e(2-4) ch by fastforce
  show "pend_ok ?t"
  proof (cases "otReceiverState t = Some s \<and> (\<exists>st. rStates t s = Some st \<and> rPending st = Some p)")
    case True
    then have "pending_of ?t = None" by (auto simp: pending_of_def clearPendingReceiverPrecompute_def)
    then show ?thesis by (simp add: pend_ok_def)
  next
    case False
    then have "?t = t" by (auto simp: clearPendingReceiverPrecompute_def split: option.splits)
    then show ?thesis using assms(4) by simp
  qed
qed

section \<open>Pool steps\<close>

lemma pending_of_cong:
  "otReceiverState t' = otReceiverState t \<Longrightarrow> rStates t' = rStates t \<Longrightarrow> rPends t' = rPends t \<Longrightarrow> pending_of t' = pending_of t"
  by (simp add: pending_of_def cong: option.case_cong)

lemma otReady_inv:
  "pending_of (t\<lparr>otReady := b\<rparr>) = pending_of t" "pools_ok (t\<lparr>otReady := b\<rparr>) = pools_ok t"
  "log_ok (t\<lparr>otReady := b\<rparr>) lg = log_ok t lg" "pend_ok (t\<lparr>otReady := b\<rparr>) = pend_ok t"
  using pending_of_cong [of "t\<lparr>otReady := b\<rparr>" t] by (simp_all add: pools_ok_def log_ok_def pend_ok_def)

lemma total_end: "receiver_inv p \<Longrightarrow> unat (receiver_total_count p) = receiver_end p"
  by (simp add: receiver_total_count_def receiver_total_inv)

lemma unused_below_end: "i \<in> dom (unused p) \<Longrightarrow> i < receiver_end p"
  by (auto simp: unused_def split: if_splits)

text \<open>A step that replaces the pool of a ready current state by one with the same end and no
  new transfers.\<close>

lemma pool_step:
  assumes pools: "pools_ok t" "log_ok t lg" "pend_ok t" and st: "rStates t s = Some st" "rReady st"
    and q: "receiver_inv q" "dom (unused q) \<subseteq> dom (unused (rPool st))" "receiver_end q = receiver_end (rPool st)"
  shows "pools_ok (onState s (\<lambda>st. st\<lparr>rPool := q\<rparr>) t)" "log_ok (onState s (\<lambda>st. st\<lparr>rPool := q\<rparr>) t) lg"
    "pend_ok (onState s (\<lambda>st. st\<lparr>rPool := q\<rparr>) t)" "calm t (onState s (\<lambda>st. st\<lparr>rPool := q\<rparr>) t)"
proof -
  let ?t = "onState s (\<lambda>st. st\<lparr>rPool := q\<rparr>) t"
  have old: "\<exists>st'. rStates ?t x = Some st' \<and> (st' = sx \<or> shrunk sx st')" if "rStates t x = Some sx" for x sx
    using that st q by (auto simp: shrunk_def)
  note p = pools_log_shrunk [OF pools(1,2), of ?t]
  have new: "receiver_inv (rPool st') \<and> (rReady st' \<or> rEntries (rPool st') = [])"
    if "rStates t x = None" "rStates ?t x = Some st'" for x st' using that by (auto split: if_splits)
  show "pools_ok ?t" "log_ok ?t lg" by (rule p, fact old, fact new)+
  show "calm t ?t" using st q by (auto simp: calm_def keeps_begins_def)
  show "pend_ok ?t" unfolding pend_ok_def
  proof (intro allI impI)
    fix s' st' p r assume "pending_of ?t = Some (s', st', p, r)"
    note h = pending_of_Some [OF this]
    obtain st0 where st0: "rStates t s' = Some st0" "rPending st0 = Some p" "receiver_end (rPool st') = receiver_end (rPool st0)"
      using h(2,3) st q(3) by (cases "s' = s") auto
    have "pending_of t = Some (s', st0, p, r)" using h st0 by (simp add: pending_of_def)
    then show "batch_ok st' r" using pools(3) st0(3) by (auto simp: pend_ok_def batch_ok_def)
  qed
qed

lemma log_add:
  assumes lg: "log_ok t lg" and st: "rStates t s = Some st" "rReady st"
    and pool: "receiver_inv (rPool st)" and go: "is_go_int cnt"
    and c: "receiver_consume (rPool st) start cnt = (q, Inr es)"
  shows "log_ok (onState s (\<lambda>st. st\<lparr>rPool := q\<rparr>) t) (lg @ delivery s start cnt)"
proof -
  note cc = receiver_consume_cases [OF pool go c]
  let ?is = "[unat start..<unat start + nat cnt]" and ?t = "onState s (\<lambda>st. st\<lparr>rPool := q\<rparr>) t"
  have dom: "i \<in> dom (unused (rPool st))" if "i \<in> set ?is" for i
  proof -
    have "unused (rPool st) i \<in> set (map Some es)" unfolding cc(3) using that by simp
    then show ?thesis by auto
  qed
  have fresh: "(s, i) \<notin> set lg" if "i \<in> set ?is" for i
    using dom [OF that] lg st(1) unfolding log_ok_def by (metis option.inject)
  have "distinct (lg @ delivery s start cnt)"
    using lg fresh by (auto simp: log_ok_def delivery_def distinct_map inj_on_def)
  moreover have "\<exists>st'. rStates ?t s' = Some st' \<and> i \<notin> dom (unused (rPool st')) \<and>
      (if rReady st' then i < receiver_end (rPool st') else rPending st' = None)"
    if "(s', i) \<in> set (lg @ delivery s start cnt)" for s' i
  proof (cases "(s', i) \<in> set lg")
    case True
    then obtain st0 where st0: "rStates t s' = Some st0" "i \<notin> dom (unused (rPool st0))"
      "if rReady st0 then i < receiver_end (rPool st0) else rPending st0 = None"
      using lg unfolding log_ok_def by blast
    show ?thesis
    proof (cases "s' = s")
      case True
      then have e: "st0 = st" using st0(1) st(1) by simp
      have "i \<notin> dom (unused q)" using st0(2) by (simp add: cc(4) e)
      then show ?thesis using st0 st True cc(5) by (simp add: e)
    qed (use st0 in simp)
  next
    case False
    then have i: "s' = s" "i \<in> set ?is" using that by (auto simp: delivery_def)
    have "i < receiver_end (rPool st)" by (rule unused_below_end [OF dom [OF i(2)]])
    moreover have "i \<notin> dom (unused q)" using i(2) by (auto simp: cc(4))
    ultimately show ?thesis using st cc(5) i(1) by simp
  qed
  ultimately show ?thesis unfolding log_ok_def by blast
qed

text \<open>The common part of both consumption steps; a pool that is not ready delivers nothing.\<close>

lemma consume_inv:
  assumes inv: "replay_inv (t, ths, lg)" and go: "is_go_int cnt" and st: "rStates t s = Some st"
    and c: "receiver_consume (rPool st) start cnt = (q, y)"
  shows "replay_inv (onState s (\<lambda>st. st\<lparr>rPool := q\<rparr>) t, ths, case y of Inl _ \<Rightarrow> lg | Inr _ \<Rightarrow> lg @ delivery s start cnt)"
proof (cases y)
  case (Inl e)
  then have "q = rPool st" using receiver_consume_failed c by blast
  then have "onState s (\<lambda>st. st\<lparr>rPool := q\<rparr>) t = t" using st by (simp add: onState_def fun_upd_idem)
  then show ?thesis using inv Inl by simp
next
  case (Inr es)
  note d = replay_invD [OF inv]
  have p: "receiver_inv (rPool st)" "rReady st \<or> rEntries (rPool st) = []" using d(1) st by (auto simp: pools_ok_def)
  note cc = receiver_consume_cases [OF p(1) go c [unfolded Inr]]
  have "es \<noteq> []" using cc(2,3) by auto
  then obtain e where "Some e \<in> set (map Some es)" by (cases es) auto
  then have "dom (unused (rPool st)) \<noteq> {}" unfolding cc(3) by force
  then have r: "rReady st" using p(2) by (auto simp: unused_def receiver_end_def split: if_splits)
  have sub: "dom (unused q) \<subseteq> dom (unused (rPool st))" by (simp add: cc(4))
  note ps = pool_step [OF d(1,3,2) st r cc(1) sub cc(5)]
  have lg: "log_ok (onState s (\<lambda>st. st\<lparr>rPool := q\<rparr>) t) (lg @ delivery s start cnt)"
    by (rule log_add [OF d(3) st r p(1) go c [unfolded Inr]])
  have th: "thread_ok (onState s (\<lambda>st. st\<lparr>rPool := q\<rparr>) t) (lg @ delivery s start cnt) th" if "th \<in># ths" for th
    by (rule thread_ok_calm [OF d(4) [OF that] ps(4)]) (use st r in \<open>auto simp: delivery_def\<close>)
  show ?thesis unfolding Inr sum.case
    by (rule replay_invI [OF ps(1,3) lg th]) (use d(5,6) in \<open>simp_all add: conns_ok_def\<close>)
qed

lemma resume_inv:
  assumes inv: "replay_inv (t, ths, lg)" and h: "handleOTResumeRequest current epoch nxt t = (t', x)"
  shows "replay_inv (t', ths, lg)"
  using resume_cases [OF h]
proof
  assume "\<exists>s st pool y b. otReceiverState t = Some s \<and> rStates t s = Some st \<and> rReady st \<and> rPending st = None \<and>
       receiver_advance_to (rPool st) nxt = (pool, y) \<and>
       t' = (onState s (\<lambda>st. st\<lparr>rPool := pool\<rparr>) t)\<lparr>otReady := b\<rparr>"
  then obtain s st q y b where st: "rStates t s = Some st" "rReady st"
    and a: "receiver_advance_to (rPool st) nxt = (q, y)"
    and t': "t' = (onState s (\<lambda>st. st\<lparr>rPool := q\<rparr>) t)\<lparr>otReady := b\<rparr>" by blast
  note d = replay_invD [OF inv]
  have p: "receiver_inv (rPool st)" using d(1) st by (auto simp: pools_ok_def)
  have "receiver_inv q \<and> dom (unused q) \<subseteq> dom (unused (rPool st)) \<and> receiver_end q = receiver_end (rPool st)"
  proof (cases y)
    case (Inl e)
    then have "q = rPool st" using receiver_advance_failed a by blast
    then show ?thesis using p by simp
  next
    case (Inr u)
    then have "receiver_advance_to (rPool st) nxt = (q, Inr ())" using a by simp
    from receiver_advance_cases(1,2,6) [OF p this] show ?thesis by simp
  qed
  then have q: "receiver_inv q" "dom (unused q) \<subseteq> dom (unused (rPool st))" "receiver_end q = receiver_end (rPool st)"
    by blast+
  note ps = pool_step [OF d(1,3,2) st q]
  have c: "calm t t'" using ps(4) by (simp add: t' calm_def keeps_begins_def)
  show ?thesis
  proof (rule replay_invI)
    show "pools_ok t'" "log_ok t' lg" "pend_ok t'" using ps(1-3) by (simp_all only: t' otReady_inv)
    show "thread_ok t' lg th" if "th \<in># ths" for th by (rule thread_ok_calm [OF d(4) [OF that] c]) blast
    show "conns_ok t' ths" using d(5) by (simp add: t' conns_ok_def)
  qed (rule d(6))
qed (use inv in simp)

section \<open>Batch steps\<close>

lemma inv_calm:
  assumes "replay_inv (t, ths, lg)" "calm t t'" "pools_ok t'" "log_ok t' lg" "pend_ok t'" "allocated t \<le> allocated t'"
  shows "replay_inv (t', ths, lg)"
proof (rule replay_invI [OF assms(3,5,4)])
  note d = replay_invD [OF assms(1)]
  show "thread_ok t' lg th" if "th \<in># ths" for th by (rule thread_ok_calm [OF d(4) [OF that] assms(2)]) blast
  show "conns_ok t' ths" using d(5) assms(6) by (meson conns_ok_def less_le_trans)
  show "one_each ths" by (rule d(6))
qed

lemma inv_stale:
  assumes "replay_inv (t, ths, lg)" "keeps_begins t t'" "pools_ok t'" "log_ok t' lg" "pend_ok t'" "allocated t \<le> allocated t'"
    and stale: "\<And>th conn. th \<in># ths \<Longrightarrow> thread_conn th = Some conn \<Longrightarrow> controlConn t' \<noteq> Some conn"
  shows "replay_inv (t', ths, lg)"
proof (rule replay_invI [OF assms(3,5,4)])
  note d = replay_invD [OF assms(1)]
  show "thread_ok t' lg th" if "th \<in># ths" for th by (rule thread_ok_stale [OF d(4) [OF that] assms(2) stale [OF that]])
  show "conns_ok t' ths" using d(5) assms(6) by (meson conns_ok_def less_le_trans)
  show "one_each ths" by (rule d(6))
qed

lemma inv_same:
  fixes t t' :: "'s teet"
  assumes inv: "replay_inv (t, ths, lg)"
    and e: "rStates t' = rStates t" "otReceiverState t' = otReceiverState t" "controlConn t' = controlConn t"
      "rPends t' = rPends t" "allocated t \<le> allocated t'"
  shows "replay_inv (t', ths, lg)"
proof (rule inv_calm [OF inv])
  note d = replay_invD [OF inv]
  show "calm t t'" by (simp add: calm_def keeps_begins_def e)
  show "pools_ok t'" "log_ok t' lg" using d(1,3) by (simp_all add: same_states [OF e(1)])
  show "pend_ok t'" using d(2) using pending_of_cong [OF e(2,1,4)] by (simp add: pend_ok_def)
qed (rule e)

lemma inv_remove: "replay_inv (t, add_mset th ths, lg) \<Longrightarrow> replay_inv (t, ths, lg)"
  using one_each_remove by (auto simp: replay_inv_def conns_ok_def)

lemma inv_add:
  assumes "replay_inv (t, ths, lg)" "thread_ok t lg th"
    "\<And>conn. thread_conn th = Some conn \<Longrightarrow> idle conn ths \<and> conn < allocated t"
  shows "replay_inv (t, add_mset th ths, lg)"
  using assms one_each_add [of ths th] by (auto simp: replay_inv_def conns_ok_def)

lemma inv_replace:
  assumes "replay_inv (t, add_mset th ths, lg)" "thread_conn th' = thread_conn th" "thread_ok t lg th'"
  shows "replay_inv (t, add_mset th' ths, lg)"
  using assms one_each_replace [of th ths th'] by (auto simp: replay_inv_def conns_ok_def)

lemma inv_onPend:
  assumes inv: "replay_inv (t, ths, lg)" and q: "pending_of t = Some (s, st, p, r)"
    and b: "batch_ok st (f r)" and f: "\<And>x. rpBegin (f x) = rpBegin x"
  shows "replay_inv (onPend p f t, ths, lg)"
proof (rule inv_calm [OF inv])
  note d = replay_invD [OF inv] and h = pending_of_Some [OF q]
  show "calm t (onPend p f t)" using keeps_onPend [of f t p, OF f] by (simp add: calm_def)
  show "pools_ok (onPend p f t)" "log_ok (onPend p f t) lg" using d(1,3) same_states [of "onPend p f t" t] by simp_all
  have "pending_of (onPend p f t) = Some (s, st, p, f r)" using h by (simp add: pending_of_def)
  then show "pend_ok (onPend p f t)" using b by (simp add: pend_ok_def)
qed simp

lemma current_bound: "wf_teet t \<Longrightarrow> isCurrentControlConnection conn gen t \<Longrightarrow> conn < allocated t"
  using wf_teetD(7) [of t conn] by (cases "allocated t \<le> conn") (auto simp: isCurrentControlConnection_def)

lemma pend_batch: "replay_inv (t, ths, lg) \<Longrightarrow> pending_of t = Some (s, st, p, r) \<Longrightarrow> batch_ok st r"
  using replay_invD(2) by (fastforce simp: pend_ok_def)

lemma choices_claim_inv:
  assumes inv: "replay_inv (t, ths, lg)" and wf: "wf_teet t" and i: "idle conn ths"
    and c: "choices_claim (isCurrentControlConnection conn gen) gen m t = (t', x)"
  shows "replay_inv (t', (case x of Inl _ \<Rightarrow> ths | Inr (s, p, base) \<Rightarrow> add_mset (TChoices conn gen m s p base) ths), lg)"
  using choices_claim_cases [OF c]
proof
  assume "\<exists>s st p r. isCurrentControlConnection conn gen t \<and> pending_of t = Some (s, st, p, r) \<and> rpPhase r = AwaitBaseChoices \<and>
       x = Inr (s, p, rpBase r) \<and> t' = onPend p (\<lambda>r. r\<lparr>rpPhase := ProcessingChoices\<rparr>) t"
  then obtain s st p r where h: "isCurrentControlConnection conn gen t" "pending_of t = Some (s, st, p, r)"
    "rpPhase r = AwaitBaseChoices" "x = Inr (s, p, rpBase r)" "t' = onPend p (\<lambda>r. r\<lparr>rpPhase := ProcessingChoices\<rparr>) t" by blast
  have b: "batch_ok st (r\<lparr>rpPhase := ProcessingChoices\<rparr>)" using pend_batch [OF inv h(2)] h(3) by (simp add: batch_ok_def)
  have i': "replay_inv (t', ths, lg)" unfolding h(5) by (rule inv_onPend [OF inv h(2)]) (use b in simp_all)
  have "replay_inv (t', add_mset (TChoices conn gen m s p (rpBase r)) ths, lg)"
    by (rule inv_add [OF i']) (use i current_bound [OF wf h(1)] in \<open>simp_all add: h(5)\<close>)
  then show ?thesis by (simp add: h(4))
qed (use inv in auto)

lemma challenge_claim_inv:
  assumes inv: "replay_inv (t, ths, lg)" and wf: "wf_teet t" and i: "idle conn ths"
    and c: "challenge_claim (isCurrentControlConnection conn gen) gen m t = (t', x)"
  shows "replay_inv (t', (case x of Inl _ \<Rightarrow> ths | Inr (s, p, ext) \<Rightarrow> add_mset (TChallenge conn gen m s p ext) ths), lg)"
  using challenge_claim_cases [OF c]
proof
  assume "\<exists>s st p r ext. isCurrentControlConnection conn gen t \<and> pending_of t = Some (s, st, p, r) \<and> rpPhase r = AwaitChallenge \<and>
       rpExtension r = Some ext \<and> x = Inr (s, p, ext) \<and> t' = onPend p (\<lambda>r. r\<lparr>rpPhase := ProcessingChallenge\<rparr>) t"
  then obtain s st p r ext where h: "isCurrentControlConnection conn gen t" "pending_of t = Some (s, st, p, r)"
    "rpPhase r = AwaitChallenge" "x = Inr (s, p, ext)" "t' = onPend p (\<lambda>r. r\<lparr>rpPhase := ProcessingChallenge\<rparr>) t" by blast
  have b: "batch_ok st (r\<lparr>rpPhase := ProcessingChallenge\<rparr>)" using pend_batch [OF inv h(2)] h(3) by (simp add: batch_ok_def)
  have i': "replay_inv (t', ths, lg)" unfolding h(5) by (rule inv_onPend [OF inv h(2)]) (use b in simp_all)
  have "replay_inv (t', add_mset (TChallenge conn gen m s p ext) ths, lg)"
    by (rule inv_add [OF i']) (use i current_bound [OF wf h(1)] in \<open>simp_all add: h(5)\<close>)
  then show ?thesis by (simp add: h(4))
qed (use inv in auto)

lemma challenge_publish_inv:
  assumes inv: "replay_inv (t, add_mset (TProve conn gen s p) ths, lg)"
    and c: "challenge_publish (isCurrentControlConnection conn gen) gen s p t = (t', x)"
  shows "replay_inv (t', (case x of Inl _ \<Rightarrow> ths | Inr _ \<Rightarrow> if sent then ths else add_mset (TClear conn s p) ths), lg)"
proof -
  have "replay_inv (t', add_mset (TClear conn s p) ths, lg)"
    using challenge_publish_cases [OF c]
  proof
    assume "\<exists>st r. isCurrentControlConnection conn gen t \<and> pending_of t = Some (s, st, p, r) \<and> rpPhase r = ProcessingChallenge \<and>
      x = Inr () \<and> t' = onPend p (\<lambda>r. r\<lparr>rpPhase := AwaitComplete\<rparr>) t"
    then obtain st r where h: "pending_of t = Some (s, st, p, r)" "rpPhase r = ProcessingChallenge"
      "t' = onPend p (\<lambda>r. r\<lparr>rpPhase := AwaitComplete\<rparr>) t" by blast
    have b: "batch_ok st (r\<lparr>rpPhase := AwaitComplete\<rparr>)" using pend_batch [OF inv h(1)] h(2) by (simp add: batch_ok_def)
    have "replay_inv (t', add_mset (TProve conn gen s p) ths, lg)"
      unfolding h(3) by (rule inv_onPend [OF inv h(1)]) (use b in simp_all)
    then show ?thesis by (rule inv_replace) simp_all
  next
    assume "t' = t \<and> (\<exists>e. x = Inl e)"
    then show ?thesis using inv_replace [OF inv, of "TClear conn s p"] by simp
  qed
  then show ?thesis using inv_remove by (cases x) auto
qed

lemma choices_publish_inv:
  assumes inv: "replay_inv (t, add_mset (TPublish conn gen s p ext es) ths, lg)"
    and c: "choices_publish (isCurrentControlConnection conn gen) gen s p ext es t = (t', x)"
  shows "replay_inv (t', (case x of Inl _ \<Rightarrow> ths | Inr _ \<Rightarrow> if sent then ths else add_mset (TClear conn s p) ths), lg)"
proof -
  have inv': "replay_inv (t, add_mset (TClear conn s p) ths, lg)" by (rule inv_replace [OF inv]) simp_all
  have "replay_inv (t', add_mset (TClear conn s p) ths, lg)"
    using choices_publish_cases [OF c]
  proof
    assume "\<exists>st r. isCurrentControlConnection conn gen t \<and> pending_of t = Some (s, st, p, r) \<and> rpPhase r = ProcessingChoices \<and>
      x = Inr () \<and> t' = onPend p (\<lambda>r. r\<lparr>rpExtension := Some ext, rpEntries := es, rpPhase := AwaitChallenge\<rparr>) t"
    then obtain st r where h: "pending_of t = Some (s, st, p, r)" "rpPhase r = ProcessingChoices"
      "t' = onPend p (\<lambda>r. r\<lparr>rpExtension := Some ext, rpEntries := es, rpPhase := AwaitChallenge\<rparr>) t" by blast
    have "thread_ok t lg (TPublish conn gen s p ext es)" by (rule replay_invD(4) [OF inv]) simp
    then have "fills (rpBegin r) es" using pending_of_Some(4) [OF h(1)] by simp
    then have b: "batch_ok st (r\<lparr>rpExtension := Some ext, rpEntries := es, rpPhase := AwaitChallenge\<rparr>)"
      using pend_batch [OF inv h(1)] by (simp add: batch_ok_def)
    show ?thesis unfolding h(3) by (rule inv_onPend [OF inv' h(1)]) (use b in simp_all)
  next
    assume "t' = destroyExt (Some ext) t \<and> (\<exists>e. x = Inl e)"
    then show ?thesis by (intro inv_same [OF inv']) simp_all
  qed
  then show ?thesis using inv_remove by (cases x) auto
qed

lemma extension_fills:
  assumes "StartExtensionReceiver rng seeds epoch cm sid (bStartIndex b) (int (unat (bCount b))) = Inr (es, c, ents, rest)"
  shows "fills b ents"
proof -
  obtain raw cs where h: "hashReceiverOTs raw cs (bStartIndex b) (int (unat (bCount b))) = Inr ents"
    using assms by (auto simp: StartExtensionReceiver_def Let_def split: option.splits)
  have "unat (bCount b) < 2 ^ 32" using unsigned_less [of "bCount b"] by simp
  then have go: "is_go_int (int (unat (bCount b)))" by (intro is_go_int_small) simp
  obtain e where e: "checkedIndexEnd (bStartIndex b) (int (unat (bCount b))) = Inr e"
    using h by (auto simp: hashReceiverOTs_def simp del: of_nat_unat)
  have "unat (bStartIndex b) + unat (bCount b) < 2 ^ 64"
    using checkedIndexEnd_ok [OF go, of "bStartIndex b"] e by (auto simp del: of_nat_unat)
  then show ?thesis using h
    by (auto simp: hashReceiverOTs_def fills_def consecutive_def comp_def simp del: of_nat_unat)
qed

lemma choices_compute_inv:
  assumes inv: "replay_inv (t, add_mset (TChoices conn gen m s p base) ths, lg)"
    and c: "choices_compute co rng m s p base t = (t', x)"
  shows "replay_inv (t', add_mset (case x of Inl _ \<Rightarrow> TClear conn s p | Inr (ext, es, frame) \<Rightarrow> TPublish conn gen s p ext es) ths, lg)"
proof -
  have same: "replay_inv (t', add_mset (TChoices conn gen m s p base) ths, lg)"
    by (rule inv_same [OF inv]) (use choices_compute_cases [OF c] in \<open>auto simp: newExt_def\<close>)
  show ?thesis
  proof (cases x)
    case (Inl e)
    then show ?thesis using inv_replace [OF same, of "TClear conn s p"] by simp
  next
    case (Inr y)
    obtain r and st :: OTReceiverState and es ents frame seeds cm k rest where h: "rPends t p = Some r"
      "t' = fst (newExt es (destroyBase base t))" "x = Inr (allocated t, ents, frame)"
      "StartExtensionReceiver (Some rng) seeds (rEpoch st) cm (bSessionID (rpBegin r)) (bStartIndex (rpBegin r))
         (int (unat (bCount (rpBegin r)))) = Inr (es, k, ents, rest)"
      using choices_compute_cases [OF c] Inr by blast
    have "thread_ok t' lg (TPublish conn gen s p (allocated t) ents)"
      using h(1,2) extension_fills [OF h(4)] by (simp add: newExt_def)
    then show ?thesis using inv_replace [OF same] by (simp add: h(3))
  qed
qed

section \<open>Begin, completion and reconnection\<close>

lemma stale_others:
  assumes "idle conn ths" "controlConn t = Some conn"
  shows "th \<in># ths \<Longrightarrow> thread_conn th = Some c \<Longrightarrow> controlConn t \<noteq> Some c"
  using assms by (auto simp: idle_def)

lemma begin_check_count: "begin_check compiled m = Inr b \<Longrightarrow> count_ok b"
  by (auto simp: begin_check_def count_ok_def ValidatePrecomputeCount_iff simp del: of_nat_unat split: sum.splits if_splits)

lemma begin_claim_inv:
  assumes inv: "replay_inv (t, ths, lg)" and wf: "wf_teet t" and i: "idle conn ths" and b: "begin_check compiled m = Inr b"
    and c: "begin_claim (isCurrentControlConnection conn gen) m b t = (t', x)"
  shows "replay_inv (t', (case x of Inl _ \<Rightarrow> ths | Inr s \<Rightarrow> add_mset (TBegin conn gen m b s) ths), lg)"
proof -
  note d = replay_invD [OF inv]
  let ?cur = "isCurrentControlConnection conn gen"
  have t': "t' = (if ?cur t \<and> rqInitial m then begin_reset (rqEpoch m) t else t)"
    using begin_claim_state [of ?cur m b t] c by simp
  note br = begin_reset_pools [OF wf d(1,3)] and be = begin_reset_effect [where t = t and epoch = "rqEpoch m"]
  have inv': "replay_inv (t', ths, lg)"
  proof (cases "?cur t \<and> rqInitial m")
    case True
    then have cc: "controlConn t' = Some conn" by (simp add: t' be isCurrentControlConnection_def)
    show ?thesis
      by (rule inv_stale [OF inv _ _ _ _ _ stale_others [OF i cc]]) (use True br be in \<open>simp_all add: t'\<close>)
  qed (use inv t' in auto)
  show ?thesis
  proof (cases x)
    case (Inr s)
    note k = begin_claim_Inr [OF c [unfolded Inr]]
    then obtain st where st: "rStates t' s = Some st" "rPending st = None"
      "bStartIndex b = receiver_total_count (rPool st)" "rqInitial m \<or> rReady st" by blast
    have "receiver_inv (rPool st)" using replay_invD(1) [OF inv'] st(1) by (auto simp: pools_ok_def)
    then have e: "unat (bStartIndex b) = receiver_end (rPool st)" by (simp add: st(3) total_end)
    have "rReady st \<or> (\<forall>i. (s, i) \<notin> set lg)"
      using st(4) k(1,2) br(4) be(3) by (auto simp: t')
    then have "thread_ok t' lg (TBegin conn gen m b s)" using st e k(2) begin_check_count [OF b] by auto
    then have "replay_inv (t', add_mset (TBegin conn gen m b s) ths, lg)"
      by (rule inv_add [OF inv']) (use i current_bound [OF wf k(1)] be(4) in \<open>auto simp: t'\<close>)
    then show ?thesis by (simp add: Inr)
  qed (use inv' in simp)
qed

lemma begin_publish_cases:
  assumes "begin_publish current gen m b s base t = (t', x)"
  shows "(t' = destroyBase (Some base) t \<and> (\<exists>e. x = Inl e)) \<or>
    (\<exists>st. current t \<and> otReceiverState t = Some s \<and> rStates t s = Some st \<and> rPending st = None \<and> x = Inr (allocated t) \<and>
       t' = onState s (\<lambda>st. st\<lparr>rPending := Some (allocated t)\<rparr>)
         (t\<lparr>rPends := (rPends t)(allocated t \<mapsto> \<lparr>rpBegin = b, rpInitial = rqInitial m, rpGeneration = gen,
            rpBase = Some base, rpExtension = None, rpEntries = [], rpPhase = AwaitBaseChoices,
            rpOutcome = InProgress, rpClosed = 0\<rparr>), allocated := Suc (allocated t)\<rparr>))"
  using assms by (auto simp: begin_publish_def lease_def Let_def split: if_splits option.splits)

lemma begin_publish_inv:
  assumes inv: "replay_inv (t, add_mset (TBegin conn gen m b s) ths, lg)" and wf: "wf_teet t"
    and c: "begin_publish (isCurrentControlConnection conn gen) gen m b s base t = (t', x)"
  shows "replay_inv (t', add_mset (TClear conn s p) ths, lg)"
proof -
  have inv': "replay_inv (t, add_mset (TClear conn s p) ths, lg)" by (rule inv_replace [OF inv]) simp_all
  let ?r = "\<lparr>rpBegin = b, rpInitial = rqInitial m, rpGeneration = gen, rpBase = Some base, rpExtension = None,
      rpEntries = [], rpPhase = AwaitBaseChoices, rpOutcome = InProgress, rpClosed = 0\<rparr>"
  let ?n = "allocated t" and ?f = "\<lambda>st :: OTReceiverState. st\<lparr>rPending := Some (allocated t)\<rparr>"
  show ?thesis
    using begin_publish_cases [OF c]
  proof
    assume "t' = destroyBase (Some base) t \<and> (\<exists>e. x = Inl e)"
    then show ?thesis by (intro inv_same [OF inv']) simp_all
  next
    assume "\<exists>st. isCurrentControlConnection conn gen t \<and> otReceiverState t = Some s \<and> rStates t s = Some st \<and> rPending st = None \<and>
      x = Inr ?n \<and> t' = onState s ?f (t\<lparr>rPends := (rPends t)(?n \<mapsto> ?r), allocated := Suc ?n\<rparr>)"
    then obtain st where h: "isCurrentControlConnection conn gen t" "otReceiverState t = Some s" "rStates t s = Some st"
      "rPending st = None" and t': "t' = onState s ?f (t\<lparr>rPends := (rPends t)(?n \<mapsto> ?r), allocated := Suc ?n\<rparr>)" by blast
    have cc: "controlConn t = Some conn" using h(1) by (simp add: isCurrentControlConnection_def)
    have "thread_ok t lg (TBegin conn gen m b s)" by (rule replay_invD(4) [OF inv]) simp
    then have k: "count_ok b" "unat (bStartIndex b) = receiver_end (rPool st)" "rReady st \<or> (\<forall>i. (s, i) \<notin> set lg)"
      using cc h(3) by auto
    note d = replay_invD [OF inv]
    have fresh: "rPends t ?n = None" using wf_teetD(7) [OF wf, of ?n] by simp
    have e: "rStates t' = (rStates t)(s \<mapsto> ?f st)" using h(3) by (simp add: t')
    have "replay_inv (t', ths, lg)"
    proof (rule inv_stale [OF inv_remove [OF inv]])
      show "keeps_begins t t'" using fresh by (auto simp: keeps_begins_def t')
      show "pools_ok t'" using d(1) h(3) by (auto simp: pools_ok_def e split: if_splits)
      have "pending_of t' = Some (s, ?f st, ?n, ?r)" using h(2,3) by (simp add: pending_of_def t')
      then show "pend_ok t'" using k by (simp add: pend_ok_def batch_ok_def)
      have "\<exists>sx'. rStates t' x = Some sx' \<and> rPool sx' = rPool sx \<and> rReady sx' = rReady sx \<and> (x \<noteq> s \<longrightarrow> sx' = sx)"
        if "rStates t x = Some sx" for x sx using that h(3) by (auto simp: e)
      then show "log_ok t' lg" using d(3) k(3) h(3) unfolding log_ok_def by (metis option.inject)
      show "controlConn t' \<noteq> Some c" if "th \<in># ths" "thread_conn th = Some c" for th c
        using stale_others [OF one_each_other [OF d(6)] cc that] by (simp add: t')
    qed (simp add: t')
    moreover have "idle conn ths" by (rule one_each_other [OF d(6)]) simp
    ultimately show ?thesis
      using current_bound [OF wf h(1)] by (intro inv_add) (simp_all add: t')
  qed
qed

lemma complete_inv:
  assumes inv: "replay_inv (t, ths, lg)" and wf: "wf_teet t" and i: "idle conn ths" and small: "small_pools t"
    and c: "handleOTPrecomputeComplete (isCurrentControlConnection conn gen) gen psize t = (t', x)"
  shows "replay_inv (t', ths, lg)"
  using complete_cases [OF c]
proof
  let ?f = "\<lambda>pool (r :: receiverPrecompute) st :: OTReceiverState. st\<lparr>rPool := pool, rEpoch := ExtensionEpoch (bSessionID (rpBegin r)),
      rPending := None, rReady := True\<rparr>"
  assume "\<exists>s st p (r :: receiverPrecompute) pool. isCurrentControlConnection conn gen t \<and> pending_of t = Some (s, st, p, r) \<and>
       rpPhase r = AwaitComplete \<and> rpEntries r \<noteq> [] \<and> receiver_add (rPool st) (rpEntries r) = (pool, Inr ()) \<and> x = Inr () \<and>
       t' = finishReceiverPrecompute (Some p) Committed ((onState s (?f pool r) (onPend p (\<lambda>r. r\<lparr>rpEntries := []\<rparr>) t))\<lparr>otReady := True\<rparr>)"
  then obtain s st p r pool where h: "isCurrentControlConnection conn gen t" "pending_of t = Some (s, st, p, r)"
    "rpPhase r = AwaitComplete" and a: "receiver_add (rPool st) (rpEntries r) = (pool, Inr ())"
    and t': "t' = finishReceiverPrecompute (Some p) Committed
      ((onState s (?f pool r) (onPend p (\<lambda>r. r\<lparr>rpEntries := []\<rparr>) t))\<lparr>otReady := True\<rparr>)" by blast
  note d = replay_invD [OF inv] and p = pending_of_Some [OF h(2)]
  have b: "length (rpEntries r) \<le> MaxPrecomputeOTs"
    using pend_batch [OF inv h(2)] h(3) by (auto simp: batch_ok_def fills_def count_ok_def)
  have "length (rEntries (rPool st)) \<le> 2 ^ 61" using small p(2) by (auto simp: small_pools_def)
  then have fits: "length (rEntries (rPool st)) + length (rpEntries r) \<le> 2 ^ 62"
    using b by (simp add: MaxPrecomputeOTs_def OTPoolInitialSize_def)
  have pi: "receiver_inv (rPool st)" using d(1) p(2) by (auto simp: pools_ok_def)
  note add = receiver_add_cases [OF pi fits a]
  have e: "rStates t' = (rStates t)(s \<mapsto> ?f pool r st)" using p(2) by (simp add: t')
  have cc: "controlConn t' = Some conn" using h(1) by (simp add: t' isCurrentControlConnection_def)
  show ?thesis
  proof (rule inv_stale [OF inv _ _ _ _ _ stale_others [OF i cc]])
    have "keeps_begins t ((onState s (?f pool r) (onPend p (\<lambda>r. r\<lparr>rpEntries := []\<rparr>) t))\<lparr>otReady := True\<rparr>)"
      by (auto simp: keeps_begins_def)
    then show "keeps_begins t t'" unfolding t' by (rule keeps_trans [OF _ keeps_finish])
    show "pools_ok t'" using d(1) add(1) by (auto simp: pools_ok_def e split: if_splits)
    have "otReceiverState t' = Some s" using p(1) by (simp add: t')
    then have "pending_of t' = None" by (simp add: pending_of_def e)
    then show "pend_ok t'" by (simp add: pend_ok_def)
    have old: "(s, i) \<in> set lg \<Longrightarrow> i \<notin> dom (unused (rPool st)) \<and> i < receiver_end (rPool st)" for i
      using d(3) p(2,3) unfolding log_ok_def by (metis option.distinct(1) option.inject)
    then have "(s, i) \<in> set lg \<Longrightarrow> i \<notin> dom (unused pool) \<and> i < receiver_end pool" for i
      unfolding add(2,3) by (fastforce simp: map_add_def split: option.splits if_splits)
    then show "log_ok t' lg" using d(3) by (auto simp: log_ok_def e)
  qed (simp_all add: t')
qed (use inv in simp)

lemma activate_inv:
  assumes inv: "replay_inv (t, ths, lg)" and wf: "wf_teet t" and a: "activateControlConnection live t = (t', r)"
  shows "replay_inv (t', ths, lg)"
proof -
  obtain t1 where t1: "t1 = (if controlConn t = None then t else suspendOTReceiverPoolForReconnect t)"
    and e: "otReceiverState t' = otReceiverState t1" "rStates t' = rStates t1" "rPends t' = rPends t1"
      "rBases t' = rBases t1" "rExts t' = rExts t1" "allocated t' = Suc (allocated t)" "controlConn t' = Some (allocated t)"
    by (rule activate_state [OF a])
  note d = replay_invD [OF inv] and sp = suspend_pools [OF wf d(1,3)] and k = suspend_effect(2) [OF wf]
  have p1: "pools_ok t1" "log_ok t1 lg" using d(1,3) sp by (simp_all add: t1)
  show ?thesis
  proof (rule inv_stale [OF inv])
    show "keeps_begins t t'" using k by (auto simp: keeps_begins_def e t1)
    show "pools_ok t'" "log_ok t' lg" using p1 same_states [OF e(2)] by simp_all
    have "pending_of t' = None" by (rule no_pending_of) (rule activate_wf(2) [OF wf a])
    then show "pend_ok t'" by (simp add: pend_ok_def)
    show "controlConn t' \<noteq> Some c" if "th \<in># ths" "thread_conn th = Some c" for th c
      using d(5) that by (auto simp: conns_ok_def e)
  qed (simp add: e)
qed

lemma teardown_inv:
  assumes inv: "replay_inv (t, ths, lg)" and wf: "wf_teet t" and a: "tearDownControlConnection live conn gen t = (t', r)"
  shows "replay_inv (t', ths, lg)"
  using teardown_state [OF a]
proof
  let ?s = "suspendOTReceiverPoolForReconnect t"
  assume e: "controlConn t = Some conn \<and> otReceiverState t' = otReceiverState t \<and> rStates t' = rStates ?s \<and>
    rPends t' = rPends ?s \<and> rBases t' = rBases ?s \<and> rExts t' = rExts ?s \<and> allocated t' = allocated t \<and> controlConn t' = None"
  note d = replay_invD [OF inv] and sp = suspend_pools [OF wf d(1,3)] and k = suspend_effect(2) [OF wf]
  show ?thesis
  proof (rule inv_stale [OF inv])
    show "keeps_begins t t'" using k by (auto simp: keeps_begins_def e)
    show "pools_ok t'" "log_ok t' lg" using sp same_states [of t' ?s] e by simp_all
    have "pending_of t' = pending_of ?s" by (rule pending_of_cong) (simp_all add: e)
    then show "pend_ok t'" using sp(3) by (simp add: pend_ok_def)
  qed (simp_all add: e)
qed (use inv in simp)

lemma attest_inv:
  assumes inv: "replay_inv (t, ths, lg)" and wf: "wf_teet t"
    and a: "completeControlAttestationForPair live sent conn gen pid t = (t', x)"
  shows "replay_inv (t', ths, lg)"
  using attest_cases [OF a]
proof
  assume "\<exists>r. tearDownControlConnection live conn gen t = (t', r)"
  then show ?thesis using teardown_inv [OF inv wf] by blast
qed (rule inv_same [OF inv], simp_all)

lemma clear_inv:
  assumes inv: "replay_inv (t, ths, lg)" and wf: "wf_teet t"
  shows "replay_inv (clearPendingReceiverPrecompute s p t, ths, lg)"
proof -
  note d = replay_invD [OF inv] and c = clearPending_pools [OF wf d(1,3,2)]
  show ?thesis by (rule inv_calm [OF inv c(4,1,2,3)]) (simp add: clearPending_effect(5))
qed

section \<open>Every reachable configuration\<close>

lemma step_inv:
  assumes "teet_step co compiled c c'" "wf_teet (fst c)" "replay_inv c"
  shows "replay_inv c'"
  using assms(1)
proof (cases rule: teet_step.cases)
  case (begin_msg conn ths m b gen t t' x lg)
  then show ?thesis using begin_claim_inv [of t ths lg conn compiled m b gen t' x] assms(2,3) by simp
next
  case (begin_fail t conn gen m b s ths lg)
  then show ?thesis using inv_remove assms(3) by blast
next
  case (begin_run rng b ss msg rest t t1 base conn gen m s t2 x ths lg sent)
  have i: "replay_inv (t, add_mset (TBegin conn gen m b s) ths, lg)" using assms(3) begin_run(1) by simp
  have wf: "wf_teet t1" using new_wf(1) [of t ss] assms(2) begin_run(1,4) by simp
  have "replay_inv (t1, add_mset (TBegin conn gen m b s) ths, lg)"
    by (rule inv_same [OF i]) (use begin_run(4) in \<open>auto simp: newBase_def\<close>)
  from begin_publish_inv [OF this wf begin_run(5)]
  have i2: "replay_inv (t2, add_mset (TClear conn s p) ths, lg)" for p .
  show ?thesis using i2 inv_remove [OF i2] begin_run(2) by (simp split: sum.split)
next
  case (clear t conn s p ths lg)
  then show ?thesis using clear_inv [OF inv_remove] assms(2,3) by simp
next
  case (choices_msg conn ths gen m t t' x lg)
  then show ?thesis using choices_claim_inv [of t ths lg conn gen m t' x] assms(2,3) by simp
next
  case (choices_run rng m s p base t t' x conn gen ths lg)
  then show ?thesis using choices_compute_inv [of t conn gen m s p base ths lg co rng t' x] assms(3) by simp
next
  case (choices_pub conn gen s p ext es t t' x ths lg sent)
  then show ?thesis using choices_publish_inv [of t conn gen s p ext es ths lg t' x sent] assms(3) by simp
next
  case (challenge_msg conn ths gen m t t' x lg)
  then show ?thesis using challenge_claim_inv [of t ths lg conn gen m t' x] assms(2,3) by simp
next
  case (challenge_run m p ext t t' x conn gen s ths lg)
  have i: "replay_inv (t, add_mset (TChallenge conn gen m s p ext) ths, lg)" using assms(3) challenge_run(1) by simp
  have "replay_inv (t', add_mset (TChallenge conn gen m s p ext) ths, lg)"
    by (rule inv_same [OF i]) (use challenge_run(3) in \<open>auto simp: challenge_compute_def\<close>)
  then show ?thesis unfolding challenge_run(2) by (rule inv_replace) (simp_all split: sum.split)
next
  case (challenge_pub conn gen s p t t' x ths lg sent)
  then show ?thesis using challenge_publish_inv [of t conn gen s p ths lg t' x sent] assms(3) by simp
next
  case (complete_msg conn ths t gen psize t' x lg)
  then show ?thesis using complete_inv [of t ths lg conn gen psize t' x] assms(2,3) by simp
next
  case (resume_msg conn ths gen epoch nxt t t' x lg)
  then show ?thesis using resume_inv assms(3) by blast
next
  case (consume_now cnt t s current start t' es ths lg)
  have "\<exists>s st pool y. otReceiverState t = Some s \<and> rStates t s = Some st \<and> rReady st \<and>
      receiver_consume (rPool st) start cnt = (pool, y) \<and> t' = onState s (\<lambda>st. st\<lparr>rPool := pool\<rparr>) t \<and>
      (Inr (Inl es) :: tee_error + ReceiverOT list + nat \<times> nat) = (case y of Inl e \<Rightarrow> Inl (Mpc e) | Inr es \<Rightarrow> Inr (Inl es))"
    using consume_claim_cases [OF consume_now(5)] by simp
  then obtain s' st q y where h: "otReceiverState t = Some s'" "rStates t s' = Some st" "receiver_consume (rPool st) start cnt = (q, y)"
    "t' = onState s' (\<lambda>st. st\<lparr>rPool := q\<rparr>) t" "(Inr (Inl es) :: tee_error + ReceiverOT list + nat \<times> nat) = (case y of Inl e \<Rightarrow> Inl (Mpc e) | Inr es \<Rightarrow> Inr (Inl es))" by blast
  have "s' = s" using h(1) consume_now(4) by simp
  then show ?thesis using consume_inv [of t ths lg cnt s st start q y] h(2-5) consume_now(1-3) assms(3) by (cases y) simp_all
next
  case (consume_wait cnt current start t t' s p ths lg)
  have y: "Inr (Inr (s, p)) \<noteq> (case y of Inl e \<Rightarrow> Inl (Mpc e) | Inr es \<Rightarrow> Inr (Inl es))" for y :: "mpc_error + ReceiverOT list"
    by (cases y) simp_all
  then have "t' = t" using consume_claim_cases [OF consume_wait(4)] by blast
  then show ?thesis using inv_add [of t ths lg "TWait s p start cnt"] consume_wait(1,2) assms(3) by simp
next
  case (consume_fail cnt current start t t' e ths lg)
  have i: "replay_inv (t, ths, lg)" using assms(3) consume_fail(1) by simp
  have y: "Inl e = (case y of Inl e \<Rightarrow> Inl (Mpc e) | Inr es \<Rightarrow> Inr (Inl es)) \<Longrightarrow> \<exists>e. y = Inl e" for y :: "mpc_error + ReceiverOT list"
    by (cases y) simp_all
  have "t' = t \<or> (\<exists>s st pool e. rStates t s = Some st \<and> receiver_consume (rPool st) start cnt = (pool, Inl e) \<and>
      t' = onState s (\<lambda>st. st\<lparr>rPool := pool\<rparr>) t)"
    using consume_claim_cases [OF consume_fail(4)] y by blast
  then show ?thesis using consume_inv [OF i consume_fail(3)] i consume_fail(2) by fastforce
next
  case (wait_cancel t s p start cnt ths lg)
  then show ?thesis using inv_remove assms(3) by blast
next
  case (wait_done cnt current s p start t t' x ths lg)
  have i: "replay_inv (t, ths, lg)" using assms(3) inv_remove wait_done(1) by blast
  show ?thesis
    using consume_commit_cases [OF wait_done(4)]
  proof
    assume "\<exists>st r pool y. otReceiverState t = Some s \<and> rStates t s = Some st \<and> rPends t p = Some r \<and> rpOutcome r = Committed \<and>
       receiver_consume (rPool st) start cnt = (pool, y) \<and> t' = onState s (\<lambda>st. st\<lparr>rPool := pool\<rparr>) t \<and>
       x = (case y of Inl e \<Rightarrow> Inl (Mpc e) | Inr es \<Rightarrow> Inr es)"
    then obtain st q y where h: "rStates t s = Some st" "receiver_consume (rPool st) start cnt = (q, y)"
      "t' = onState s (\<lambda>st. st\<lparr>rPool := q\<rparr>) t" "x = (case y of Inl e \<Rightarrow> Inl (Mpc e) | Inr es \<Rightarrow> Inr es)" by blast
    show ?thesis using consume_inv [OF i wait_done(3) h(1,2)] wait_done(2) h(3,4) by (cases y) simp_all
  next
    assume "t' = t \<and> (\<exists>e. x = Inl e)"
    then show ?thesis using i wait_done(2) by auto
  qed
next
  case (activate live t t' r ths lg)
  then show ?thesis using activate_inv assms(2,3) by (metis fst_conv)
next
  case (attest live sent conn gen pid t t' x ths lg)
  then show ?thesis using attest_inv assms(2,3) by (metis fst_conv)
next
  case (teardown live conn gen t t' r ths lg)
  then show ?thesis using teardown_inv assms(2,3) by (metis fst_conv)
qed

lemma reach_inv: "teet_reach co compiled c \<Longrightarrow> replay_inv c"
proof (induction rule: teet_reach.induct)
  case init
  show ?case
    by (simp add: replay_inv_def pools_ok_def pend_ok_def log_ok_def conns_ok_def one_each_def newTEET_def pending_of_def)
next
  case (step c c')
  show ?case by (rule step_inv [OF step(2) reach_wf [OF step(1)] step(3)])
qed

end
