(* ===== verification/Exchange_Receiver.thy ===== *)
theory Exchange_Receiver
  imports Exchange_Frames Tee_T_Replay
begin

text \<open>
  The receiver's part of an honest exchange: what each of its four handlers does when the
  request it gets is the one the batch is waiting for.
\<close>

section \<open>The four messages\<close>

definition t_waits :: "nat \<Rightarrow> u64 \<Rightarrow> 's teet \<Rightarrow> nat \<Rightarrow> OTReceiverState \<Rightarrow> nat \<Rightarrow> receiverPrecompute \<Rightarrow> bool" where
  "t_waits conn gen t s st p r \<longleftrightarrow>
     isCurrentControlConnection conn gen t \<and> pending_of t = Some (s, st, p, r) \<and> rpGeneration r = gen"

lemma t_waits_onPend:
  assumes "t_waits conn gen t s st p r" "rpGeneration (f r) = gen"
  shows "t_waits conn gen (onPend p f t) s st p (f r)"
  using assms pending_of_Some [of t s st p r]
  by (simp add: t_waits_def isCurrentControlConnection_def) (simp add: pending_of_def)

lemma t_waits_same:
  fixes t t' :: "'s teet"
  assumes "t_waits conn gen t s st p r" "otReceiverState t' = otReceiverState t" "rStates t' = rStates t"
    "rPends t' = rPends t" "controlConn t' = controlConn t" "controlGeneration t' = controlGeneration t"
  shows "t_waits conn gen t' s st p r"
  using assms pending_of_cong [of t' t] by (simp add: t_waits_def isCurrentControlConnection_def)

definition new_batch :: "PrecomputeBegin \<Rightarrow> bool \<Rightarrow> u64 \<Rightarrow> nat \<Rightarrow> receiverPrecompute" where
  "new_batch b initial gen base = \<lparr>rpBegin = b, rpInitial = initial, rpGeneration = gen, rpBase = Some base,
     rpExtension = None, rpEntries = [], rpPhase = AwaitBaseChoices, rpOutcome = InProgress, rpClosed = 0\<rparr>"

lemma receiver_begins:
  assumes c: "begin_check compiled m = Inr b" and cl: "begin_claim (isCurrentControlConnection conn gen) m b t = (t1, Inr s)"
    and cur: "isCurrentControlConnection conn gen t1"
    and st: "rStates t1 s = Some st" and ss: "StartBaseOTSender co (Some rng) (bSessionID b) = Inr (ss, msg, rest)"
    and f: "MarshalPrecomputeBaseSetup (bSessionID b) msg = Inr f"
  obtains t' p base where "handleOTPrecomputeBegin co compiled rng True conn gen m t = (t', Inr f)"
    "t_waits conn gen t' s (st\<lparr>rPending := Some p\<rparr>) p (new_batch b (rqInitial m) gen base)" "rBases t' base = Some ss"
proof -
  note k = begin_claim_Inr [OF cl]
  have pend: "rPending st = None" using k(3) st by auto
  let ?t2 = "t1\<lparr>rBases := (rBases t1)(allocated t1 \<mapsto> ss), allocated := Suc (allocated t1)\<rparr>"
  let ?p = "Suc (allocated t1)" and ?r = "new_batch b (rqInitial m) gen (allocated t1)"
  let ?t' = "onState s (\<lambda>st. st\<lparr>rPending := Some ?p\<rparr>) (?t2\<lparr>rPends := (rPends t1)(?p \<mapsto> ?r), allocated := Suc ?p\<rparr>)"
  have "begin_publish (isCurrentControlConnection conn gen) gen m b s (allocated t1) ?t2 = (?t', Inr ?p)"
    using cur k(2) st pend
    by (simp add: begin_publish_def lease_def Let_def isCurrentControlConnection_def new_batch_def)
  then have "handleOTPrecomputeBegin co compiled rng True conn gen m t = (?t', Inr f)"
    using c cl ss f by (simp add: handleOTPrecomputeBegin_def newBase_def)
  moreover have "t_waits conn gen ?t' s (st\<lparr>rPending := Some ?p\<rparr>) ?p ?r"
    using cur k(2) st by (simp add: t_waits_def isCurrentControlConnection_def pending_of_def) (simp add: new_batch_def)
  ultimately show ?thesis by (rule that) simp
qed

lemma receiver_commits_to:
  assumes w: "t_waits conn gen t s st p r" and ph: "rpPhase r = AwaitBaseChoices"
    and base: "rpBase r = Some base" "rBases t base = Some ss"
    and m: "rqCount m = bCount (rpBegin r)" "rqInitial m = rpInitial r" "rqEpoch m = rEpoch st"
    and u: "UnmarshalPrecomputeBaseChoices (rqSetup m) (bSessionID (rpBegin r)) = Inr choices"
    and fin: "snd (FinishBaseOTSender co (Some ss) choices) = Inr (cm, seeds)"
    and start: "StartExtensionReceiver (Some rng) seeds (rEpoch st) cm (bSessionID (rpBegin r)) (bStartIndex (rpBegin r))
      (int (unat (bCount (rpBegin r)))) = Inr (rx, com, rots, rest)"
    and f: "MarshalPrecomputeCommitment cm (Some com) = Inr f"
  obtains t' e where "handleOTPrecomputeChoices co rng True conn gen m t = (t', Inr f)"
    "t_waits conn gen t' s st p (r\<lparr>rpExtension := Some e, rpEntries := rots, rpPhase := AwaitChallenge\<rparr>)" "rExts t' e = Some rx"
proof -
  let ?c = "isCurrentControlConnection conn gen"
  have q: "?c t" "pending_of t = Some (s, st, p, r)" "rpGeneration r = gen" using w by (simp_all add: t_waits_def)
  note p = pending_of_Some [OF q(2)]
  let ?r1 = "r\<lparr>rpPhase := ProcessingChoices\<rparr>"
  define t1 where "t1 = onPend p (\<lambda>r. r\<lparr>rpPhase := ProcessingChoices\<rparr>) t"
  have w1: "t_waits conn gen t1 s st p ?r1" unfolding t1_def by (rule t_waits_onPend [OF w]) (simp add: q)
  have claim: "choices_claim ?c gen m t = (t1, Inr (s, p, Some base))"
    using q m ph base by (simp add: choices_claim_def lease_def t1_def)
  define t2 where "t2 = fst (newExt rx (destroyBase (Some base) t1))"
  have q1: "pending_of t1 = Some (s, st, p, ?r1)" using w1 by (simp add: t_waits_def)
  note p1 = pending_of_Some [OF q1]
  obtain z where z: "FinishBaseOTSender co (Some ss) choices = (z, Inr (cm, seeds))"
    using fin by (cases "FinishBaseOTSender co (Some ss) choices") auto
  have b1: "rBases t1 base = Some ss" using base by (simp add: t1_def)
  have comp: "choices_compute co rng m s p (Some base) t1 = (t2, Inr (allocated t1, rots, f))"
    unfolding choices_compute_def using p1 u z b1 start f
    by (simp add: t2_def newExt_def del: of_nat_unat)
  have w2: "t_waits conn gen t2 s st p ?r1" by (rule t_waits_same [OF w1]) (simp_all add: t2_def newExt_def)
  define t3 where "t3 = onPend p (\<lambda>r. r\<lparr>rpExtension := Some (allocated t1), rpEntries := rots, rpPhase := AwaitChallenge\<rparr>) t2"
  have pub: "choices_publish ?c gen s p (allocated t1) rots t2 = (t3, Inr ())"
    using w2 by (simp add: choices_publish_def lease_def t_waits_def t3_def)
  have "handleOTPrecomputeChoices co rng True conn gen m t = (t3, Inr f)"
    by (simp add: handleOTPrecomputeChoices_def claim comp pub)
  moreover have "t_waits conn gen t3 s st p (r\<lparr>rpExtension := Some (allocated t1), rpEntries := rots, rpPhase := AwaitChallenge\<rparr>)"
    using t_waits_onPend [OF w2, of "\<lambda>r. r\<lparr>rpExtension := Some (allocated t1), rpEntries := rots, rpPhase := AwaitChallenge\<rparr>"] q
    by (simp add: t3_def)
  moreover have "rExts t3 (allocated t1) = Some rx" by (simp add: t3_def t2_def newExt_def)
  ultimately show ?thesis by (rule that)
qed

lemma receiver_proves:
  assumes w: "t_waits conn gen t s st p r" and ph: "rpPhase r = AwaitChallenge" "rpEntries r \<noteq> []"
    and ext: "rpExtension r = Some e" "rExts t e = Some rx"
    and m: "rqCount m = bCount (rpBegin r)" "rqInitial m = rpInitial r" "rqEpoch m = rEpoch st"
    and u: "UnmarshalExtensionChallengeFor (rqSetup m) (bSessionID (rpBegin r)) (int (unat (bCount (rpBegin r)))) = Inr ch"
    and fin: "snd (FinishExtensionReceiver (Some rx) (Some ch)) = Inr pf" and f: "MarshalExtensionProof (Some pf) = Inr f"
  obtains t' where "handleOTPrecomputeChallenge True conn gen m t = (t', Inr f)"
    "t_waits conn gen t' s st p (r\<lparr>rpPhase := AwaitComplete\<rparr>)"
proof -
  let ?c = "isCurrentControlConnection conn gen"
  have q: "?c t" "pending_of t = Some (s, st, p, r)" "rpGeneration r = gen" using w by (simp_all add: t_waits_def)
  let ?r1 = "r\<lparr>rpPhase := ProcessingChallenge\<rparr>"
  define t1 where "t1 = onPend p (\<lambda>r. r\<lparr>rpPhase := ProcessingChallenge\<rparr>) t"
  have w1: "t_waits conn gen t1 s st p ?r1" unfolding t1_def by (rule t_waits_onPend [OF w]) (simp add: q)
  have claim: "challenge_claim ?c gen m t = (t1, Inr (s, p, e))"
    using q m ph ext by (simp add: challenge_claim_def lease_def t1_def)
  have q1: "pending_of t1 = Some (s, st, p, ?r1)" using w1 by (simp add: t_waits_def)
  define t2 where "t2 = destroyExt (Some e) t1"
  have e1: "rExts t1 e = Some rx" using ext by (simp add: t1_def)
  have comp: "challenge_compute m p e t1 = (t2, Inr f)"
    using pending_of_Some(4) [OF q1] u fin f e1 by (simp add: challenge_compute_def t2_def del: of_nat_unat)
  have w2: "t_waits conn gen t2 s st p ?r1" by (rule t_waits_same [OF w1]) (simp_all add: t2_def)
  define t3 where "t3 = onPend p (\<lambda>r. r\<lparr>rpPhase := AwaitComplete\<rparr>) t2"
  have pub: "challenge_publish ?c gen s p t2 = (t3, Inr ())"
    using w2 by (simp add: challenge_publish_def lease_def t_waits_def t3_def)
  have "handleOTPrecomputeChallenge True conn gen m t = (t3, Inr f)"
    by (simp add: handleOTPrecomputeChallenge_def claim comp pub)
  moreover have "t_waits conn gen t3 s st p (r\<lparr>rpPhase := AwaitComplete\<rparr>)"
    using t_waits_onPend [OF w2, of "\<lambda>r. r\<lparr>rpPhase := AwaitComplete\<rparr>"] q by (simp add: t3_def)
  ultimately show ?thesis by (rule that)
qed

lemma receiver_completes:
  assumes w: "t_waits conn gen t s st p r" and ph: "rpPhase r = AwaitComplete" "rpEntries r \<noteq> []"
    and tot: "checkedIndexEnd (receiver_total_count (rPool st)) (int (length (rpEntries r))) = Inr psize"
    and add: "receiver_add (rPool st) (rpEntries r) = (pool, Inr ())"
  obtains t' where "handleOTPrecomputeComplete (isCurrentControlConnection conn gen) gen psize t = (t', Inr ())"
    "otReceiverState t' = Some s" "isCurrentControlConnection conn gen t'" "otReady t'"
    "rStates t' s = Some (st\<lparr>rPool := pool, rEpoch := ExtensionEpoch (bSessionID (rpBegin r)), rPending := None, rReady := True\<rparr>)"
proof -
  have q: "isCurrentControlConnection conn gen t" "pending_of t = Some (s, st, p, r)" "rpGeneration r = gen"
    using w by (simp_all add: t_waits_def)
  note p = pending_of_Some [OF q(2)]
  let ?f = "\<lambda>st. st\<lparr>rPool := pool, rEpoch := ExtensionEpoch (bSessionID (rpBegin r)), rPending := None, rReady := True\<rparr>"
  let ?t = "finishReceiverPrecompute (Some p) Committed ((onState s ?f (onPend p (\<lambda>r. r\<lparr>rpEntries := []\<rparr>) t))\<lparr>otReady := True\<rparr>)"
  have run: "handleOTPrecomputeComplete (isCurrentControlConnection conn gen) gen psize t = (?t, Inr ())"
    using q ph tot add by (simp add: handleOTPrecomputeComplete_def lease_def Let_def)
  have cur: "isCurrentControlConnection conn gen ?t" using q(1) by (simp add: isCurrentControlConnection_def)
  have rd: "otReady ?t" by (simp add: finish_onState)
  show ?thesis by (rule that [OF run _ cur rd]) (use p in simp_all)
qed

end
