(* ===== verification/Tee_T_Erasure.thy ===== *)
theory Tee_T_Erasure
  imports Tee_T_Replay
begin

text \<open>
  Erasure of the receiver's secrets: a base-transfer or extension state that still holds
  secrets belongs to the batch in progress or to a handler in flight, so once neither is
  left every such state has been wiped.
\<close>

section \<open>The invariant\<close>

definition base_wiped :: "'s BaseOTSenderState \<Rightarrow> bool" where
  "base_wiped ss \<longleftrightarrow> bsUsed ss \<and> bsSetup ss = None \<and> bsSession ss = replicate 32 0 \<and>
     bsSeeds ss = replicate BaseOTCount seed_pair_zero"

definition ext_wiped :: "ExtensionReceiverState \<Rightarrow> bool" where
  "ext_wiped es \<longleftrightarrow> rsUsed es \<and> rsChoices es = [] \<and> tMatrix es = [] \<and> rsCommitment es = commitment_zero"

lemma destroy_wiped: "base_wiped (base_sender_destroy ss)" "ext_wiped (extension_receiver_destroy es)"
  by (simp_all add: base_wiped_def ext_wiped_def base_sender_destroy_def clearBaseOTSenderState_def
      extension_receiver_destroy_def clearExtensionReceiverState_def)

definition holds_base :: "receiverPrecompute \<Rightarrow> nat \<Rightarrow> bool" where
  "holds_base r b \<longleftrightarrow> rpOutcome r = InProgress \<and> rpPhase r = AwaitBaseChoices \<and> rpBase r = Some b"

definition holds_ext :: "receiverPrecompute \<Rightarrow> nat \<Rightarrow> bool" where
  "holds_ext r e \<longleftrightarrow> rpOutcome r = InProgress \<and> rpPhase r = AwaitChallenge \<and> rpExtension r = Some e"

fun uses_base :: "thread \<Rightarrow> nat \<Rightarrow> bool" where
  "uses_base (TChoices conn gen m s p base) b \<longleftrightarrow> base = Some b"
| "uses_base _ b \<longleftrightarrow> False"

fun uses_ext :: "thread \<Rightarrow> nat \<Rightarrow> bool" where
  "uses_ext (TPublish conn gen s p ext es) e \<longleftrightarrow> ext = e"
| "uses_ext (TChallenge conn gen m s p ext) e \<longleftrightarrow> ext = e"
| "uses_ext _ e \<longleftrightarrow> False"

definition base_owned :: "'s teet \<Rightarrow> thread multiset \<Rightarrow> nat \<Rightarrow> bool" where
  "base_owned t ths b \<longleftrightarrow> (\<exists>p r. rPends t p = Some r \<and> holds_base r b) \<or> (\<exists>th \<in># ths. uses_base th b)"

definition ext_owned :: "'s teet \<Rightarrow> thread multiset \<Rightarrow> nat \<Rightarrow> bool" where
  "ext_owned t ths e \<longleftrightarrow> (\<exists>p r. rPends t p = Some r \<and> holds_ext r e) \<or> (\<exists>th \<in># ths. uses_ext th e)"

fun refs_ok :: "'s teet \<Rightarrow> thread \<Rightarrow> bool" where
  "refs_ok t (TChoices conn gen m s p base) \<longleftrightarrow> rStates t s \<noteq> None \<and> rPends t p \<noteq> None"
| "refs_ok t (TWait s p start cnt) \<longleftrightarrow> rPends t p \<noteq> None"
| "refs_ok t _ \<longleftrightarrow> True"

definition erase_inv :: "'s teet \<Rightarrow> thread multiset \<Rightarrow> bool" where
  "erase_inv t ths \<longleftrightarrow>
     (\<forall>b ss. rBases t b = Some ss \<longrightarrow> base_wiped ss \<or> base_owned t ths b) \<and>
     (\<forall>e es. rExts t e = Some es \<longrightarrow> ext_wiped es \<or> ext_owned t ths e) \<and>
     (\<forall>th \<in># ths. refs_ok t th)"

lemma consume_wait_refs:
  assumes "consume_claim current start cnt t = (t', Inr (Inr (s, p)))"
  shows "t' = t" "rPends t p \<noteq> None"
  using assms
  by (auto simp: consume_claim_def lease_def pendingReceiverCompletionForRange_def Let_def
      split: if_splits option.splits sum.splits prod.splits)

lemma erase_step:
  assumes inv: "erase_inv t ths"
    and b: "\<And>b ss. rBases t' b = Some ss \<Longrightarrow> rBases t b = Some ss \<or> base_wiped ss \<or> base_owned t' ths' b"
      "\<And>b ss. rBases t' b = Some ss \<Longrightarrow> base_owned t ths b \<Longrightarrow> base_wiped ss \<or> base_owned t' ths' b"
    and e: "\<And>e es. rExts t' e = Some es \<Longrightarrow> rExts t e = Some es \<or> ext_wiped es \<or> ext_owned t' ths' e"
      "\<And>e es. rExts t' e = Some es \<Longrightarrow> ext_owned t ths e \<Longrightarrow> ext_wiped es \<or> ext_owned t' ths' e"
    and r: "\<And>th. th \<in># ths' \<Longrightarrow> refs_ok t' th"
  shows "erase_inv t' ths'"
  unfolding erase_inv_def
proof (intro conjI allI impI ballI)
  show "base_wiped ss \<or> base_owned t' ths' x" if "rBases t' x = Some ss" for x ss
    using b [OF that] inv unfolding erase_inv_def by blast
  show "ext_wiped es \<or> ext_owned t' ths' x" if "rExts t' x = Some es" for x es
    using e [OF that] inv unfolding erase_inv_def by blast
qed (rule r)

text \<open>References stay valid because stores only grow.\<close>

definition grows :: "'s teet \<Rightarrow> 's teet \<Rightarrow> bool" where
  "grows t t' \<longleftrightarrow> (\<forall>x. rStates t x \<noteq> None \<longrightarrow> rStates t' x \<noteq> None) \<and> (\<forall>x. rPends t x \<noteq> None \<longrightarrow> rPends t' x \<noteq> None)"

lemma refs_grow: "refs_ok t th \<Longrightarrow> grows t t' \<Longrightarrow> refs_ok t' th"
  by (cases th) (simp_all add: grows_def)

lemma erase_refs: "erase_inv t ths \<Longrightarrow> th \<in># ths \<Longrightarrow> refs_ok t th"
  by (simp add: erase_inv_def)

text \<open>A change of batches and states that wipes what it disowns.\<close>

lemma erase_frame:
  assumes inv: "erase_inv t ths" and g: "grows t t'"
    and b: "\<And>b ss. rBases t' b = Some ss \<Longrightarrow> rBases t b = Some ss \<or> base_wiped ss"
      "\<And>p r b ss. rBases t' b = Some ss \<Longrightarrow> rPends t p = Some r \<Longrightarrow> holds_base r b \<Longrightarrow>
         base_wiped ss \<or> (\<exists>r'. rPends t' p = Some r' \<and> holds_base r' b)"
    and e: "\<And>e es. rExts t' e = Some es \<Longrightarrow> rExts t e = Some es \<or> ext_wiped es"
      "\<And>p r e es. rExts t' e = Some es \<Longrightarrow> rPends t p = Some r \<Longrightarrow> holds_ext r e \<Longrightarrow>
         ext_wiped es \<or> (\<exists>r'. rPends t' p = Some r' \<and> holds_ext r' e)"
  shows "erase_inv t' ths"
proof (rule erase_step [OF inv])
  show "rBases t x = Some ss \<or> base_wiped ss \<or> base_owned t' ths x" if "rBases t' x = Some ss" for x ss
    using b(1) [OF that] by blast
  show "rExts t x = Some es \<or> ext_wiped es \<or> ext_owned t' ths x" if "rExts t' x = Some es" for x es
    using e(1) [OF that] by blast
  show "base_wiped ss \<or> base_owned t' ths x" if "rBases t' x = Some ss" "base_owned t ths x" for x ss
    using b(2) [OF that(1)] that(2) unfolding base_owned_def by blast
  show "ext_wiped es \<or> ext_owned t' ths x" if "rExts t' x = Some es" "ext_owned t ths x" for x es
    using e(2) [OF that(1)] that(2) unfolding ext_owned_def by blast
  show "refs_ok t' th" if "th \<in># ths" for th by (rule refs_grow [OF erase_refs [OF inv that] g])
qed

lemma erase_same:
  fixes t t' :: "'s teet"
  assumes "erase_inv t ths" "rBases t' = rBases t" "rExts t' = rExts t" "rPends t' = rPends t"
    "\<And>x. rStates t x \<noteq> None \<Longrightarrow> rStates t' x \<noteq> None"
  shows "erase_inv t' ths"
  by (rule erase_frame [OF assms(1)]) (use assms(2-) in \<open>auto simp: grows_def\<close>)

lemma erase_onState: "erase_inv t ths \<Longrightarrow> erase_inv (onState s f t) ths"
  by (erule erase_same) auto

lemma erase_ready: "erase_inv t ths \<Longrightarrow> erase_inv (t\<lparr>otReady := b\<rparr>) ths"
  by (erule erase_same) simp_all

lemma wipe_at_cases: "wipe_at a f m x = Some y \<Longrightarrow> m x = Some y \<or> (\<exists>z. y = f z)"
  by (auto simp: wipe_at_def split: option.splits if_splits)

lemma wipe_at_hit: "wipe_at (Some x) f m x = Some y \<Longrightarrow> \<exists>z. y = f z"
  by (auto simp: wipe_at_def)

lemma erase_finish:
  assumes inv: "erase_inv t ths"
  shows "erase_inv (finishReceiverPrecompute po oc t) ths"
proof (cases "\<exists>p r. po = Some p \<and> rPends t p = Some r \<and> rpOutcome r = InProgress")
  case True
  then obtain p r where r: "po = Some p" "rPends t p = Some r" "rpOutcome r = InProgress" by blast
  note f = finish_pends [OF r(2,3), of oc]
  show ?thesis unfolding r(1)
  proof (rule erase_frame [OF inv])
    show "grows t (finishReceiverPrecompute (Some p) oc t)" by (simp add: grows_def f(1))
    show "rBases t x = Some ss \<or> base_wiped ss" if "rBases (finishReceiverPrecompute (Some p) oc t) x = Some ss" for x ss
      using that wipe_at_cases [of "rpBase r" base_sender_destroy "rBases t" x ss] destroy_wiped(1)
      by (auto simp: f(2) split: if_splits)
    show "rExts t x = Some es \<or> ext_wiped es" if "rExts (finishReceiverPrecompute (Some p) oc t) x = Some es" for x es
      using that wipe_at_cases [of "rpExtension r" extension_receiver_destroy "rExts t" x es] destroy_wiped(2)
      by (auto simp: f(3) split: if_splits)
    show "base_wiped ss \<or> (\<exists>r'. rPends (finishReceiverPrecompute (Some p) oc t) q = Some r' \<and> holds_base r' x)"
      if "rBases (finishReceiverPrecompute (Some p) oc t) x = Some ss" "rPends t q = Some r''" "holds_base r'' x" for q r'' x ss
      using that r(2) wipe_at_hit [of x base_sender_destroy "rBases t" ss] destroy_wiped(1)
      by (cases "q = p") (auto simp: f holds_base_def)
    show "ext_wiped es \<or> (\<exists>r'. rPends (finishReceiverPrecompute (Some p) oc t) q = Some r' \<and> holds_ext r' x)"
      if "rExts (finishReceiverPrecompute (Some p) oc t) x = Some es" "rPends t q = Some r''" "holds_ext r'' x" for q r'' x es
      using that r(2) wipe_at_hit [of x extension_receiver_destroy "rExts t" es] destroy_wiped(2)
      by (cases "q = p") (auto simp: f holds_ext_def)
  qed
next
  case False
  then have "finishReceiverPrecompute po oc t = t"
    by (cases po) (auto simp: finishReceiverPrecompute_def split: option.split)
  then show ?thesis using inv by simp
qed

lemma erase_clearPending: "erase_inv t ths \<Longrightarrow> erase_inv (clearPendingReceiverPrecompute s p t) ths"
  by (simp add: clearPendingReceiverPrecompute_def erase_onState erase_finish)

lemma erase_clearPool: "erase_inv t ths \<Longrightarrow> erase_inv (clearOTReceiverPool t) ths"
  by (auto simp: clearOTReceiverPool_def Let_def intro!: erase_ready erase_onState erase_finish split: option.split)

lemma erase_suspend: "erase_inv t ths \<Longrightarrow> erase_inv (suspendOTReceiverPoolForReconnect t) ths"
  by (auto simp: suspendOTReceiverPoolForReconnect_def Let_def
      intro!: erase_clearPool erase_onState erase_finish split: option.split)

lemma erase_reset:
  assumes "erase_inv t ths"
  shows "erase_inv (begin_reset epoch t) ths"
proof -
  define t1 where "t1 = (case otReceiverState t of None \<Rightarrow> t | Some s \<Rightarrow> (case rStates t s of None \<Rightarrow> t
      | Some st \<Rightarrow> onState s (\<lambda>st. st\<lparr>rPending := None, rReady := False\<rparr>)
          (finishReceiverPrecompute (rPending st) Aborted (onState s (\<lambda>st. st\<lparr>rPool := receiver_clear (rPool st)\<rparr>) t))))"
  have "erase_inv t1 ths" using assms
    by (auto simp: t1_def intro!: erase_onState erase_finish split: option.split)
  then show ?thesis unfolding begin_reset_def t1_def [symmetric] Let_def by (rule erase_same) simp_all
qed

section \<open>The steps\<close>

lemma erase_remove:
  "erase_inv t (add_mset th ths) \<Longrightarrow> (\<And>b. \<not> uses_base th b) \<Longrightarrow> (\<And>e. \<not> uses_ext th e) \<Longrightarrow> erase_inv t ths"
  by (auto simp: erase_inv_def base_owned_def ext_owned_def)

lemma erase_add: "erase_inv t ths \<Longrightarrow> refs_ok t th \<Longrightarrow> erase_inv t (add_mset th ths)"
  by (auto simp: erase_inv_def base_owned_def ext_owned_def)

text \<open>A batch that changes its phase outside of its two waiting phases, and one whose states
  move to the handler that claimed it.\<close>

lemma erase_onPend:
  assumes inv: "erase_inv t ths" and f: "\<And>x b. holds_base x b \<Longrightarrow> x = r \<Longrightarrow> uses_base th b"
    "\<And>x e. holds_ext x e \<Longrightarrow> x = r \<Longrightarrow> uses_ext th e" and r: "rPends t p = Some r" and th: "refs_ok (onPend p f t) th"
  shows "erase_inv (onPend p f t) (add_mset th ths)"
proof (rule erase_step [OF inv])
  have g: "grows t (onPend p f t)" by (auto simp: grows_def)
  show "refs_ok (onPend p f t) th'" if "th' \<in># add_mset th ths" for th'
    using that th refs_grow [OF erase_refs [OF inv] g] by auto
  show "base_wiped ss \<or> base_owned (onPend p f t) (add_mset th ths) b" if o: "base_owned t ths b" for b ss
  proof (cases "\<exists>q r'. rPends t q = Some r' \<and> holds_base r' b")
    case True
    then obtain q r' where q: "rPends t q = Some r'" "holds_base r' b" by blast
    show ?thesis
    proof (cases "q = p")
      case True
      then have "uses_base th b" using f(1) q r by simp
      then show ?thesis by (simp add: base_owned_def)
    next
      case False
      then have "rPends (onPend p f t) q = Some r'" using q(1) by simp
      then show ?thesis using q(2) unfolding base_owned_def by blast
    qed
  qed (use o in \<open>auto simp: base_owned_def\<close>)
  show "ext_wiped es \<or> ext_owned (onPend p f t) (add_mset th ths) e" if o: "ext_owned t ths e" for e es
  proof (cases "\<exists>q r'. rPends t q = Some r' \<and> holds_ext r' e")
    case True
    then obtain q r' where q: "rPends t q = Some r'" "holds_ext r' e" by blast
    show ?thesis
    proof (cases "q = p")
      case True
      then have "uses_ext th e" using f(2) q r by simp
      then show ?thesis by (simp add: ext_owned_def)
    next
      case False
      then have "rPends (onPend p f t) q = Some r'" using q(1) by simp
      then show ?thesis using q(2) unfolding ext_owned_def by blast
    qed
  qed (use o in \<open>auto simp: ext_owned_def\<close>)
qed simp_all

lemma erase_phase:
  assumes inv: "erase_inv t ths" and r: "rPends t p = Some r" "rpPhase r \<noteq> AwaitBaseChoices" "rpPhase r \<noteq> AwaitChallenge"
  shows "erase_inv (onPend p f t) ths"
proof (rule erase_remove [of _ "TClear 0 0 0"])
  show "erase_inv (onPend p f t) (add_mset (TClear 0 0 0) ths)"
    by (rule erase_onPend [OF inv _ _ r(1)]) (use r in \<open>auto simp: holds_base_def holds_ext_def\<close>)
qed simp_all

lemma erase_begin_run:
  assumes inv: "erase_inv t ths" and wf: "wf_teet t" and n: "newBase ss t = (t1, base)"
    and p: "begin_publish current gen m b s base t1 = (t2, x)"
  shows "erase_inv t2 ths"
proof -
  have t1: "t1 = t\<lparr>rBases := (rBases t)(allocated t \<mapsto> ss), allocated := Suc (allocated t)\<rparr>" "base = allocated t"
    using n by (auto simp: newBase_def)
  let ?r = "\<lparr>rpBegin = b, rpInitial = rqInitial m, rpGeneration = gen, rpBase = Some base, rpExtension = None,
      rpEntries = [], rpPhase = AwaitBaseChoices, rpOutcome = InProgress, rpClosed = 0\<rparr>"
  show ?thesis
    using begin_publish_cases [OF p]
  proof
    assume "t2 = destroyBase (Some base) t1 \<and> (\<exists>e. x = Inl e)"
    then have e: "rBases t2 = (rBases t)(base \<mapsto> base_sender_destroy ss)" "rExts t2 = rExts t" "rPends t2 = rPends t"
      "rStates t2 = rStates t" by (simp_all add: t1 wipe_at_def)
    show ?thesis
      by (rule erase_frame [OF inv]) (use destroy_wiped(1) in \<open>auto simp: e grows_def split: if_splits\<close>)
  next
    assume "\<exists>st. current t1 \<and> otReceiverState t1 = Some s \<and> rStates t1 s = Some st \<and> rPending st = None \<and> x = Inr (allocated t1) \<and>
       t2 = onState s (\<lambda>st. st\<lparr>rPending := Some (allocated t1)\<rparr>)
         (t1\<lparr>rPends := (rPends t1)(allocated t1 \<mapsto> ?r), allocated := Suc (allocated t1)\<rparr>)"
    then have e: "rBases t2 = (rBases t)(base \<mapsto> ss)" "rExts t2 = rExts t" "rPends t2 = (rPends t)(Suc base \<mapsto> ?r)"
      and g: "grows t t2"
      by (auto simp: t1 grows_def)
    have fresh: "rPends t (Suc base) = None" using wf_teetD(7) [OF wf, of "Suc base"] by (simp add: t1)
    have own: "base_owned t2 ths base" by (auto simp: base_owned_def e holds_base_def)
    show ?thesis
    proof (rule erase_step [OF inv])
      show "rBases t y = Some ss' \<or> base_wiped ss' \<or> base_owned t2 ths y" if "rBases t2 y = Some ss'" for y ss'
        using that own by (auto simp: e(1) split: if_splits)
      show "base_wiped ss' \<or> base_owned t2 ths y" if "base_owned t ths y" for y ss'
        using that fresh unfolding base_owned_def e(3) by (metis fun_upd_apply option.distinct(1))
      show "ext_wiped es \<or> ext_owned t2 ths y" if "ext_owned t ths y" for y es
        using that fresh unfolding ext_owned_def e(3) by (metis fun_upd_apply option.distinct(1))
      show "refs_ok t2 th" if "th \<in># ths" for th by (rule refs_grow [OF erase_refs [OF inv that] g])
    qed (simp add: e(2))
  qed
qed

lemma erase_destroyExt:
  assumes inv: "erase_inv t (add_mset th ths)" and u: "\<And>b. \<not> uses_base th b" "\<And>e. uses_ext th e \<Longrightarrow> e = x"
  shows "erase_inv (destroyExt (Some x) t) ths"
proof (rule erase_step [OF inv])
  show "refs_ok (destroyExt (Some x) t) th'" if "th' \<in># ths" for th'
    by (rule refs_grow [OF erase_refs [OF inv]]) (use that in \<open>auto simp: grows_def\<close>)
  show "base_wiped ss \<or> base_owned (destroyExt (Some x) t) ths b" if "base_owned t (add_mset th ths) b" for b ss
    using that u(1) by (auto simp: base_owned_def)
  show "rExts t e = Some es \<or> ext_wiped es \<or> ext_owned (destroyExt (Some x) t) ths e"
    if "rExts (destroyExt (Some x) t) e = Some es" for e es
    using that wipe_at_cases [of "Some x" extension_receiver_destroy "rExts t" e es] destroy_wiped(2) by auto
  show "ext_wiped es \<or> ext_owned (destroyExt (Some x) t) ths e"
    if h: "rExts (destroyExt (Some x) t) e = Some es" "ext_owned t (add_mset th ths) e" for e es
  proof (cases "e = x")
    case True
    then show ?thesis using h(1) wipe_at_hit [of x extension_receiver_destroy "rExts t" es] destroy_wiped(2) by auto
  next
    case False
    then have "\<not> uses_ext th e" using u(2) by blast
    then show ?thesis using h(2) by (auto simp: ext_owned_def)
  qed
qed simp

lemma erase_compute:
  assumes inv: "erase_inv t (add_mset (TChoices conn gen m s p base) ths)"
    and c: "choices_compute co rng m s p base t = (t', x)"
  shows "erase_inv t' (add_mset (case x of Inl _ \<Rightarrow> TClear conn s p | Inr (ext, es, frame) \<Rightarrow> TPublish conn gen s p ext es) ths)"
proof -
  let ?th = "case x of Inl _ \<Rightarrow> TClear conn s p | Inr (ext, es, frame) \<Rightarrow> TPublish conn gen s p ext es"
  have refs: "rStates t s \<noteq> None" "rPends t p \<noteq> None" using erase_refs [OF inv, of "TChoices conn gen m s p base"] by simp_all
  have th: "\<not> uses_base ?th b" "refs_ok t' ?th" for b by (simp_all split: sum.split)
  have k: "rBases t' = wipe_at base base_sender_destroy (rBases t)" "rPends t' = rPends t" "rStates t' = rStates t"
    "rExts t' = rExts t \<or> (\<exists>es. rExts t' = (rExts t)(allocated t \<mapsto> es) \<and> (ext_wiped es \<or> (\<exists>ents frame. x = Inr (allocated t, ents, frame))))"
    using choices_compute_cases [OF c] refs destroy_wiped(2) by (auto simp: newExt_def wipe_at_def split: option.splits)
  show ?thesis
  proof (rule erase_step [OF inv])
    show "refs_ok t' th'" if "th' \<in># add_mset ?th ths" for th'
      using that th(2) refs_grow [OF erase_refs [OF inv], of th' t'] by (auto simp: grows_def k)
    show "rBases t b = Some ss \<or> base_wiped ss \<or> base_owned t' (add_mset ?th ths) b" if "rBases t' b = Some ss" for b ss
      using that wipe_at_cases [of base base_sender_destroy "rBases t" b ss] destroy_wiped(1) by (auto simp: k(1))
    show "base_wiped ss \<or> base_owned t' (add_mset ?th ths) b"
      if "rBases t' b = Some ss" "base_owned t (add_mset (TChoices conn gen m s p base) ths) b" for b ss
      using that wipe_at_hit [of b base_sender_destroy "rBases t" ss] destroy_wiped(1)
      by (cases "base = Some b") (auto simp: k base_owned_def)
    have new: "ext_owned t' (add_mset ?th ths) (allocated t)" if "x = Inr (allocated t, ents, frame)" for ents frame
      using that by (simp add: ext_owned_def)
    show "rExts t e = Some es \<or> ext_wiped es \<or> ext_owned t' (add_mset ?th ths) e" if "rExts t' e = Some es" for e es
      using that k(4) new by (auto split: if_splits)
    show "ext_wiped es \<or> ext_owned t' (add_mset ?th ths) e"
      if "ext_owned t (add_mset (TChoices conn gen m s p base) ths) e" for e es
      using that by (auto simp: ext_owned_def k(2))
  qed
qed

lemma erase_choices_claim:
  assumes inv: "erase_inv t ths" and c: "choices_claim current gen m t = (t', x)"
  shows "erase_inv t' (case x of Inl _ \<Rightarrow> ths | Inr (s, p, base) \<Rightarrow> add_mset (TChoices conn gen m s p base) ths)"
  using choices_claim_cases [OF c]
proof
  assume "\<exists>s st p r. current t \<and> pending_of t = Some (s, st, p, r) \<and> rpPhase r = AwaitBaseChoices \<and>
       x = Inr (s, p, rpBase r) \<and> t' = onPend p (\<lambda>r. r\<lparr>rpPhase := ProcessingChoices\<rparr>) t"
  then obtain s st p r where h: "pending_of t = Some (s, st, p, r)" "rpPhase r = AwaitBaseChoices"
    "x = Inr (s, p, rpBase r)" "t' = onPend p (\<lambda>r. r\<lparr>rpPhase := ProcessingChoices\<rparr>) t" by blast
  note p = pending_of_Some [OF h(1)]
  have "erase_inv t' (add_mset (TChoices conn gen m s p (rpBase r)) ths)"
    unfolding h(4) by (rule erase_onPend [OF inv _ _ p(4)]) (use p h(2) in \<open>auto simp: holds_base_def holds_ext_def\<close>)
  then show ?thesis by (simp add: h(3))
qed (use inv in auto)

lemma erase_challenge_claim:
  assumes inv: "erase_inv t ths" and c: "challenge_claim current gen m t = (t', x)"
  shows "erase_inv t' (case x of Inl _ \<Rightarrow> ths | Inr (s, p, ext) \<Rightarrow> add_mset (TChallenge conn gen m s p ext) ths)"
  using challenge_claim_cases [OF c]
proof
  assume "\<exists>s st p r ext. current t \<and> pending_of t = Some (s, st, p, r) \<and> rpPhase r = AwaitChallenge \<and>
       rpExtension r = Some ext \<and> x = Inr (s, p, ext) \<and> t' = onPend p (\<lambda>r. r\<lparr>rpPhase := ProcessingChallenge\<rparr>) t"
  then obtain s st p r ext where h: "pending_of t = Some (s, st, p, r)" "rpPhase r = AwaitChallenge" "rpExtension r = Some ext"
    "x = Inr (s, p, ext)" "t' = onPend p (\<lambda>r. r\<lparr>rpPhase := ProcessingChallenge\<rparr>) t" by blast
  note p = pending_of_Some [OF h(1)]
  have "erase_inv t' (add_mset (TChallenge conn gen m s p ext) ths)"
    unfolding h(5) by (rule erase_onPend [OF inv _ _ p(4)]) (use h(2,3) in \<open>auto simp: holds_base_def holds_ext_def\<close>)
  then show ?thesis by (simp add: h(4))
qed (use inv in auto)

lemma erase_choices_publish:
  assumes inv: "erase_inv t (add_mset (TPublish conn gen s p ext es) ths)" and wf: "wf_teet t"
    and c: "choices_publish current gen s p ext es t = (t', x)"
  shows "erase_inv t' ths"
  using choices_publish_cases [OF c]
proof
  assume "\<exists>st r. current t \<and> pending_of t = Some (s, st, p, r) \<and> rpPhase r = ProcessingChoices \<and> x = Inr () \<and>
       t' = onPend p (\<lambda>r. r\<lparr>rpExtension := Some ext, rpEntries := es, rpPhase := AwaitChallenge\<rparr>) t"
  then obtain st r where h: "pending_of t = Some (s, st, p, r)" "rpPhase r = ProcessingChoices"
    "t' = onPend p (\<lambda>r. r\<lparr>rpExtension := Some ext, rpEntries := es, rpPhase := AwaitChallenge\<rparr>) t" by blast
  note p = pending_of_Some [OF h(1)] and w = pending_of_wf(1) [OF wf h(1)]
  have i: "erase_inv t' (add_mset (TPublish conn gen s p ext es) ths)"
    unfolding h(3) by (rule erase_phase [OF inv p(4)]) (simp_all add: h(2))
  have own: "ext_owned t' ths ext" using p(4) w by (auto simp: ext_owned_def h(3) holds_ext_def)
  show ?thesis
    by (rule erase_step [OF i]) (use own erase_refs [OF i] in \<open>auto simp: base_owned_def ext_owned_def\<close>)
next
  assume "t' = destroyExt (Some ext) t \<and> (\<exists>e. x = Inl e)"
  then show ?thesis using erase_destroyExt [OF inv] by simp
qed

lemma erase_challenge_publish:
  assumes inv: "erase_inv t (add_mset (TProve conn gen s p) ths)"
    and c: "challenge_publish current gen s p t = (t', x)"
  shows "erase_inv t' ths"
proof -
  have i: "erase_inv t ths" by (rule erase_remove [OF inv]) simp_all
  show ?thesis
    using challenge_publish_cases [OF c]
  proof
    assume "\<exists>st r. current t \<and> pending_of t = Some (s, st, p, r) \<and> rpPhase r = ProcessingChallenge \<and> x = Inr () \<and>
       t' = onPend p (\<lambda>r. r\<lparr>rpPhase := AwaitComplete\<rparr>) t"
    then obtain st r where h: "pending_of t = Some (s, st, p, r)" "rpPhase r = ProcessingChallenge"
      "t' = onPend p (\<lambda>r. r\<lparr>rpPhase := AwaitComplete\<rparr>) t" by blast
    show ?thesis unfolding h(3) by (rule erase_phase [OF i pending_of_Some(4) [OF h(1)]]) (simp_all add: h(2))
  qed (use i in simp)
qed

lemma erase_complete:
  assumes inv: "erase_inv t ths" and c: "handleOTPrecomputeComplete current gen psize t = (t', x)"
  shows "erase_inv t' ths"
  using complete_cases [OF c]
proof
  assume "\<exists>s st p (r :: receiverPrecompute) pool. current t \<and> pending_of t = Some (s, st, p, r) \<and> rpPhase r = AwaitComplete \<and> rpEntries r \<noteq> [] \<and>
       receiver_add (rPool st) (rpEntries r) = (pool, Inr ()) \<and> x = Inr () \<and>
       t' = finishReceiverPrecompute (Some p) Committed
         ((onState s (\<lambda>st. st\<lparr>rPool := pool, rEpoch := ExtensionEpoch (bSessionID (rpBegin r)), rPending := None, rReady := True\<rparr>)
             (onPend p (\<lambda>r. r\<lparr>rpEntries := []\<rparr>) t))\<lparr>otReady := True\<rparr>)"
  then obtain s st p and r :: receiverPrecompute and pool where h: "pending_of t = Some (s, st, p, r)" "rpPhase r = AwaitComplete"
    "t' = finishReceiverPrecompute (Some p) Committed
         ((onState s (\<lambda>st. st\<lparr>rPool := pool, rEpoch := ExtensionEpoch (bSessionID (rpBegin r)), rPending := None, rReady := True\<rparr>)
             (onPend p (\<lambda>r. r\<lparr>rpEntries := []\<rparr>) t))\<lparr>otReady := True\<rparr>)" by blast
  have "erase_inv (onPend p (\<lambda>r. r\<lparr>rpEntries := []\<rparr>) t) ths"
    by (rule erase_phase [OF inv pending_of_Some(4) [OF h(1)]]) (simp_all add: h(2))
  then show ?thesis unfolding h(3) by (intro erase_finish erase_ready erase_onState)
qed (use inv in simp)

lemma erase_reconnect:
  assumes inv: "erase_inv t ths"
  shows "activateControlConnection live t = (t', r) \<Longrightarrow> erase_inv t' ths"
    "tearDownControlConnection live conn gen t = (t', r') \<Longrightarrow> erase_inv t' ths"
    "completeControlAttestationForPair live sent conn gen pid t = (t', x) \<Longrightarrow> erase_inv t' ths"
proof -
  have act: "erase_inv t' ths" if a: "activateControlConnection live t = (t', r)"
  proof -
    obtain t1 where t1: "t1 = (if controlConn t = None then t else suspendOTReceiverPoolForReconnect t)"
      and e: "otReceiverState t' = otReceiverState t1" "rStates t' = rStates t1" "rPends t' = rPends t1"
        "rBases t' = rBases t1" "rExts t' = rExts t1" "allocated t' = Suc (allocated t)" "controlConn t' = Some (allocated t)"
      by (rule activate_state [OF a])
    have "erase_inv t1 ths" using inv erase_suspend [OF inv] by (simp add: t1)
    then show ?thesis by (rule erase_same) (simp_all add: e)
  qed
  have tear: "erase_inv t' ths" if a: "tearDownControlConnection live conn gen t = (t', r')" for r'
    using teardown_state [OF a]
  proof
    assume e: "controlConn t = Some conn \<and> otReceiverState t' = otReceiverState t \<and>
      rStates t' = rStates (suspendOTReceiverPoolForReconnect t) \<and>
      rPends t' = rPends (suspendOTReceiverPoolForReconnect t) \<and> rBases t' = rBases (suspendOTReceiverPoolForReconnect t) \<and>
      rExts t' = rExts (suspendOTReceiverPoolForReconnect t) \<and> allocated t' = allocated t \<and> controlConn t' = None"
    show ?thesis by (rule erase_same [OF erase_suspend [OF inv]]) (simp_all add: e)
  qed (use inv in simp)
  show "activateControlConnection live t = (t', r) \<Longrightarrow> erase_inv t' ths" by (rule act)
  show "tearDownControlConnection live conn gen t = (t', r') \<Longrightarrow> erase_inv t' ths" by (rule tear)
  show "erase_inv t' ths" if a: "completeControlAttestationForPair live sent conn gen pid t = (t', x)"
    using attest_cases [OF a]
  proof
    assume "\<exists>r. tearDownControlConnection live conn gen t = (t', r)"
    then show ?thesis using tear by blast
  qed (rule erase_same [OF inv], simp_all)
qed

section \<open>Every reachable configuration\<close>

lemma erase_step_inv:
  assumes "teet_step co compiled c c'" "wf_teet (fst c)" "erase_inv (fst c) (fst (snd c))"
  shows "erase_inv (fst c') (fst (snd c'))"
  using assms(1)
proof (cases rule: teet_step.cases)
  case (begin_msg conn ths m b gen t t' x lg)
  have i: "erase_inv t ths" using assms(3) begin_msg(1) by simp
  have "t' = (if isCurrentControlConnection conn gen t \<and> rqInitial m then begin_reset (rqEpoch m) t else t)"
    using begin_claim_state [of "isCurrentControlConnection conn gen" m b t] begin_msg(5) by simp
  then have "erase_inv t' ths" using i erase_reset [OF i] by simp
  then show ?thesis using begin_msg(2) erase_add [of t' ths] by (cases x) auto
next
  case (begin_fail t conn gen m b s ths lg)
  then show ?thesis using erase_remove [of t "TBegin conn gen m b s" ths] assms(3) by simp
next
  case (begin_run rng b ss msg rest t t1 base conn gen m s t2 x ths lg sent)
  have i: "erase_inv t ths" by (rule erase_remove [of t "TBegin conn gen m b s" ths]) (use assms(3) begin_run(1) in simp_all)
  have "erase_inv t2 ths" by (rule erase_begin_run [OF i _ begin_run(4,5)]) (use assms(2) begin_run(1) in simp)
  then show ?thesis using begin_run(2) erase_add [of t2 ths] by (cases x) auto
next
  case (clear t conn s p ths lg)
  have "erase_inv t ths" by (rule erase_remove [of t "TClear conn s p" ths]) (use assms(3) clear(1) in simp_all)
  then show ?thesis using clear(2) erase_clearPending by simp
next
  case (choices_msg conn ths gen m t t' x lg)
  then show ?thesis using erase_choices_claim [of t ths] assms(3) by simp
next
  case (choices_run rng m s p base t t' x conn gen ths lg)
  then show ?thesis using erase_compute [of t conn gen m s p base ths] assms(3) by simp
next
  case (choices_pub conn gen s p ext es t t' x ths lg sent)
  have "erase_inv t' ths"
    by (rule erase_choices_publish [OF _ _ choices_pub(3)]) (use assms(2,3) choices_pub(1) in simp_all)
  then show ?thesis using choices_pub(2) erase_add [of t' ths] by (cases x) auto
next
  case (challenge_msg conn ths gen m t t' x lg)
  then show ?thesis using erase_challenge_claim [of t ths] assms(3) by simp
next
  case (challenge_run m p ext t t' x conn gen s ths lg)
  have t': "t' = destroyExt (Some ext) t" using challenge_run(3) by (simp add: challenge_compute_def)
  have "erase_inv t' ths" unfolding t'
    by (rule erase_destroyExt [of t "TChallenge conn gen m s p ext"]) (use assms(3) challenge_run(1) in simp_all)
  then show ?thesis using challenge_run(2) erase_add [of t' ths] by (cases x) auto
next
  case (challenge_pub conn gen s p t t' x ths lg sent)
  have "erase_inv t' ths" by (rule erase_challenge_publish [OF _ challenge_pub(3)]) (use assms(3) challenge_pub(1) in simp)
  then show ?thesis using challenge_pub(2) erase_add [of t' ths] by (cases x) auto
next
  case (complete_msg conn ths t gen psize t' x lg)
  then show ?thesis using erase_complete [of t ths] assms(3) by simp
next
  case (resume_msg conn ths gen epoch nxt t t' x lg)
  have i: "erase_inv t ths" using assms(3) resume_msg(1) by simp
  have "erase_inv t' ths" using resume_cases [OF resume_msg(4)] i erase_ready [OF erase_onState [OF i]] by metis
  then show ?thesis using resume_msg(2) by simp
next
  case (consume_now cnt t s current start t' es ths lg)
  have i: "erase_inv t ths" using assms(3) consume_now(1) by simp
  have "erase_inv t' ths" using consume_claim_cases [OF consume_now(5)] i erase_onState [OF i] by metis
  then show ?thesis using consume_now(2) by simp
next
  case (consume_wait cnt current start t t' s p ths lg)
  have i: "erase_inv t ths" using assms(3) consume_wait(1) by simp
  show ?thesis using consume_wait(2) consume_wait_refs [OF consume_wait(4)] erase_add [OF i] by simp
next
  case (consume_fail cnt current start t t' e ths lg)
  have i: "erase_inv t ths" using assms(3) consume_fail(1) by simp
  have "erase_inv t' ths" using consume_claim_cases [OF consume_fail(4)] i erase_onState [OF i] by metis
  then show ?thesis using consume_fail(2) by simp
next
  case (wait_cancel t s p start cnt ths lg)
  then show ?thesis using erase_remove [of t "TWait s p start cnt" ths] assms(3) by simp
next
  case (wait_done cnt current s p start t t' x ths lg)
  have i: "erase_inv t ths" by (rule erase_remove [of t "TWait s p start cnt" ths]) (use assms(3) wait_done(1) in simp_all)
  have "erase_inv t' ths" using consume_commit_cases [OF wait_done(4)] i erase_onState [OF i] by metis
  then show ?thesis using wait_done(2) by simp
next
  case (activate live t t' r ths lg)
  then show ?thesis using erase_reconnect(1) [of t ths] assms(3) by simp
next
  case (attest live sent conn gen pid t t' x ths lg)
  then show ?thesis using erase_reconnect(3) [of t ths] assms(3) by simp
next
  case (teardown live conn gen t t' r ths lg)
  then show ?thesis using erase_reconnect(2) [of t ths] assms(3) by simp
qed

lemma reach_erase: "teet_reach co compiled c \<Longrightarrow> erase_inv (fst c) (fst (snd c))"
proof (induction rule: teet_reach.induct)
  case init
  show ?case by (simp add: erase_inv_def newTEET_def)
next
  case (step c c')
  show ?case by (rule erase_step_inv [OF step(2) reach_wf [OF step(1)] step(3)])
qed

end
