(* ===== verification/Exchange.thy ===== *)
theory Exchange
  imports Exchange_Receiver Exchange_Sender Tee_T_Erasure
begin

text \<open>
  The two services together: the sender's opening request, the three requests and responses,
  and the completion, each handled by the other side's handler. An honest exchange over the
  current control connection always commits, on both sides, and leaves the pools in step.
\<close>

section \<open>The exchange\<close>

text \<open>The messages after the opening request, in protocol order. A handler that refuses a message
  ends the exchange.\<close>

definition exchange_messages ::
  "('s, 'b) co_api \<Rightarrow> unit + mark_circuit option \<Rightarrow> bytes \<Rightarrow> bytes \<Rightarrow> bytes \<Rightarrow> bytes \<Rightarrow> nat \<Rightarrow> u64 \<Rightarrow> nat \<Rightarrow> u64 \<Rightarrow>
    OTPrecomputeRequest \<Rightarrow> 'b teek \<Rightarrow> 's teet \<Rightarrow> ('b teek \<times> 's teet) option" where
  "exchange_messages co compiled rS rR rngR rngS ck gk ct gt rq tk tt =
     (case handleOTPrecomputeRequest co compiled rS True ct gt rq tt of
        (_, Inl _) \<Rightarrow> None
      | (tt1, Inr d1) \<Rightarrow>
     (case handleOTPrecomputeResponse co rR True (\<lambda>t. t) ck gk (rqCount rq) d1 tk of
        (tk1, Inr (Inl rq1)) \<Rightarrow>
     (case handleOTPrecomputeRequest co compiled rngR True ct gt rq1 tt1 of
        (_, Inl _) \<Rightarrow> None
      | (tt2, Inr d2) \<Rightarrow>
     (case handleOTPrecomputeResponse co rngS True (\<lambda>t. t) ck gk (rqCount rq1) d2 tk1 of
        (tk2, Inr (Inl rq2)) \<Rightarrow>
     (case handleOTPrecomputeRequest co compiled [] True ct gt rq2 tt2 of
        (_, Inl _) \<Rightarrow> None
      | (tt3, Inr d3) \<Rightarrow>
     (case handleOTPrecomputeResponse co [] True (\<lambda>t. t) ck gk (rqCount rq2) d3 tk2 of
        (tk3, Inr (Inr poolSize)) \<Rightarrow>
     (case handleOTPrecomputeComplete (isCurrentControlConnection ct gt) gt poolSize tt3 of
        (_, Inl _) \<Rightarrow> None
      | (tt4, Inr _) \<Rightarrow> Some (tk3, tt4))
      | _ \<Rightarrow> None))
      | _ \<Rightarrow> None))
      | _ \<Rightarrow> None))"

definition precompute_exchange ::
  "('s, 'b) co_api \<Rightarrow> unit + mark_circuit option \<Rightarrow> bytes \<Rightarrow> bytes \<Rightarrow> bytes \<Rightarrow> bytes \<Rightarrow> bytes \<Rightarrow> nat \<Rightarrow> u64 \<Rightarrow> nat \<Rightarrow> u64 \<Rightarrow>
    int \<Rightarrow> bool \<Rightarrow> nat option \<Rightarrow> controlConnectionToken option \<Rightarrow> 'b teek \<Rightarrow> 's teet \<Rightarrow> ('b teek \<times> 's teet) option" where
  "precompute_exchange co compiled rI rS rR rngR rngS ck gk ct gt cnt initial claim origin tk tt =
     (case perform_start compiled rI True cnt initial claim origin tk of
        (_, Inl _) \<Rightarrow> None
      | (tk1, Inr (_, _, rq)) \<Rightarrow> exchange_messages co compiled rS rR rngR rngS ck gk ct gt rq tk1 tt)"

text \<open>Two services between batches: each has an idle, ready pool under its current control
  connection, the epochs are equal and the pools hold the two halves of the same transfers.\<close>

definition settled ::
  "nat \<Rightarrow> u64 \<Rightarrow> nat \<Rightarrow> u64 \<Rightarrow> bytes \<Rightarrow> SenderPool \<Rightarrow> ReceiverPool \<Rightarrow> 'b teek \<Rightarrow> 's teet \<Rightarrow> bool" where
  "settled ck gk ct gt epoch sp rp tk tt \<longleftrightarrow>
     isCurrentControl ck gk tk \<and> isCurrentControlConnection ct gt tt \<and> otReady tt \<and> pools_match sp rp \<and>
     (\<exists>s st s' st'. kOtState tk = Some s \<and> kStates tk s = Some st \<and> kPending st = None \<and> kReady st \<and> kPool st = sp \<and>
        otReceiverState tt = Some s' \<and> rStates tt s' = Some st' \<and> rPending st' = None \<and> rReady st' \<and> rPool st' = rp \<and>
        kEpoch st = epoch \<and> rEpoch st' = epoch)"

section \<open>An honest exchange commits\<close>

lemma precompute_count:
  assumes "ValidatePrecomputeCount cnt = Inr ()"
  shows "0 < cnt" "cnt \<le> int MaxPrecomputeOTs" "int (unat (of_int cnt :: u32)) = cnt" "is_go_int cnt"
proof -
  show c: "0 < cnt" "cnt \<le> int MaxPrecomputeOTs"
    using assms by (auto simp: ValidatePrecomputeCount_def split: if_splits)
  obtain padded where pad: "extensionPaddedCount cnt = Inr padded"
    using extensionPaddedCount_ok [of cnt] c by (auto simp: MaxPrecomputeOTs_def OTPoolInitialSize_def)
  show "int (unat (of_int cnt :: u32)) = cnt" using padded_words(1) [OF pad] c(1) by simp
  show "is_go_int cnt" using c by (simp add: is_go_int_def MaxPrecomputeOTs_def OTPoolInitialSize_def)
qed

lemma begin_accepted:
  assumes v: "ValidatePrecomputeCount cnt = Inr ()" and e: "checkedIndexEnd start cnt = Inr e"
    and init: "Initialize compiled = Inr x" and u: "UnmarshalPrecomputeBegin f = Inr (begin_of sid start cnt epoch)"
  shows "begin_check compiled \<lparr>rqCount = of_int cnt, rqSetup = f, rqInitial = i, rqEpoch = epoch\<rparr> =
    Inr (begin_of sid start cnt epoch)"
  using v e init u precompute_count(3) [OF v] by (simp add: begin_check_def begin_of_def del: of_nat_unat)

lemma committed_pool_match:
  "pools_match (committed_pool q pool) rp \<longleftrightarrow> pools_match pool rp" "remaining (committed_pool q pool) = remaining pool"
  by (simp_all add: committed_pool_def sender_release_claim_def pools_match_def sender_inv_def remaining_def sender_offset_def)

definition request_of :: "int \<Rightarrow> bytes \<Rightarrow> bool \<Rightarrow> bytes \<Rightarrow> OTPrecomputeRequest" where
  "request_of cnt frame initial epoch = \<lparr>rqCount = of_int cnt, rqSetup = frame, rqInitial = initial, rqEpoch = epoch\<rparr>"

lemma request_of_fields [simp]:
  "rqCount (request_of cnt frame initial epoch) = of_int cnt" "rqSetup (request_of cnt frame initial epoch) = frame"
  "rqInitial (request_of cnt frame initial epoch) = initial" "rqEpoch (request_of cnt frame initial epoch) = epoch"
  by (simp_all add: request_of_def)

lemma k_request_of: "k_request q st frame = request_of (spCount q) frame (spInitial q) (kEpoch st)"
  by (simp add: k_request_def request_of_def)

lemma new_sender_fields [simp]:
  "spSession (new_sender sid cnt start initial ck gk claim) = sid" "spCount (new_sender sid cnt start initial ck gk claim) = cnt"
  "spStartIndex (new_sender sid cnt start initial ck gk claim) = start" "spInitial (new_sender sid cnt start initial ck gk claim) = initial"
  "spBase (new_sender sid cnt start initial ck gk claim) = None" "spDone (new_sender sid cnt start initial ck gk claim) = None"
  "spPhase (new_sender sid cnt start initial ck gk claim) = SAwaitBaseSetup" "spClaim (new_sender sid cnt start initial ck gk claim) = claim"
  by (simp_all add: new_sender_def)

lemma begin_of_fields [simp]:
  "bSessionID (begin_of sid start cnt epoch) = sid" "bStartIndex (begin_of sid start cnt epoch) = start"
  "bCount (begin_of sid start cnt epoch) = of_int cnt" "bEpoch (begin_of sid start cnt epoch) = epoch"
  by (simp_all add: begin_of_def)

lemma new_batch_fields [simp]:
  "rpBegin (new_batch b initial gt base) = b" "rpInitial (new_batch b initial gt base) = initial"
  "rpBase (new_batch b initial gt base) = Some base" "rpPhase (new_batch b initial gt base) = AwaitBaseChoices"
  by (simp_all add: new_batch_def)

text \<open>The base transfer: the setup, the choices and the commitment.\<close>

lemma exchange_base:
  assumes steps: "run_steps co rS rR rngR rngS epoch sid start cnt h" and frames: "run_frames sid start cnt epoch h"
    and v: "ValidatePrecomputeCount cnt = Inr ()" and e: "checkedIndexEnd start cnt = Inr psize"
    and init: "Initialize compiled = Inr x"
    and kw: "k_waits ck gk tk s st p (new_sender sid cnt start initial ck gk claim)" and ke: "kEpoch st = epoch"
    and f: "MarshalPrecomputeBegin (begin_of sid start cnt epoch) = Inr f" and rq: "rq = request_of cnt f initial epoch"
    and bc: "begin_claim (isCurrentControlConnection ct gt) rq (begin_of sid start cnt epoch) tt = (tt1, Inr s')"
    and cur: "isCurrentControlConnection ct gt tt1" and tst: "rStates tt1 s' = Some st'" "rEpoch st' = epoch"
  obtains f1 f2 f3 t1 k1 t2 tp base kb ex where
    "handleOTPrecomputeRequest co compiled rS True ct gt rq tt = (t1, Inr f1)"
    "handleOTPrecomputeResponse co rR True (\<lambda>t. t) ck gk (of_int cnt) f1 tk = (k1, Inr (Inl (request_of cnt f2 initial epoch)))"
    "handleOTPrecomputeRequest co compiled rngR True ct gt (request_of cnt f2 initial epoch) t1 = (t2, Inr f3)"
    "UnmarshalPrecomputeCommitmentFor f3 (begin_of sid start cnt epoch) = Inr (hCipher h, hCom h)"
    "k_waits ck gk k1 s st p ((new_sender sid cnt start initial ck gk claim)\<lparr>spPhase := SAwaitCommitment, spBase := Some kb\<rparr>)"
    "kBases k1 kb = Some (hRS h)"
    "t_waits ct gt t2 s' (st'\<lparr>rPending := Some tp\<rparr>) tp ((new_batch (begin_of sid start cnt epoch) initial gt base)
       \<lparr>rpExtension := Some ex, rpEntries := hRots h, rpPhase := AwaitChallenge\<rparr>)"
    "rExts t2 ex = Some (hRX h)"
proof -
  note c = precompute_count [OF v]
  let ?b = "begin_of sid start cnt epoch" and ?q = "new_sender sid cnt start initial ck gk claim"
  obtain f1 f2 f3 where fr: "UnmarshalPrecomputeBegin f = Inr ?b" "PrecomputeRequestPhase f = PrecomputePhaseBegin"
    "MarshalPrecomputeBaseSetup sid (hSetup h) = Inr f1" "UnmarshalPrecomputeBaseSetup f1 sid = Inr (hSetup h)"
    "MarshalPrecomputeBaseChoices sid (hChoices h) = Inr f2" "UnmarshalPrecomputeBaseChoices f2 sid = Inr (hChoices h)"
    "PrecomputeRequestPhase f2 = PrecomputePhaseBaseChoices" "MarshalPrecomputeCommitment (hCipher h) (Some (hCom h)) = Inr f3"
    "UnmarshalPrecomputeCommitmentFor f3 ?b = Inr (hCipher h, hCom h)"
    using frames f unfolding run_frames_def by force
  obtain r1 r2 r3 where sp: "StartBaseOTSender co (Some rS) sid = Inr (hSS h, hSetup h, r1)"
    "StartBaseOTReceiver co (Some rR) sid (hSetup h) = Inr (hRS h, hChoices h, r2)"
    "snd (FinishBaseOTSender co (Some (hSS h)) (hChoices h)) = Inr (hCipher h, hSeeds h)"
    "StartExtensionReceiver (Some rngR) (hSeeds h) epoch (hCipher h) sid start cnt = Inr (hRX h, hCom h, hRots h, r3)"
    using steps unfolding run_steps_def by blast
  have ok: "begin_check compiled rq = Inr ?b" unfolding rq request_of_def by (rule begin_accepted [OF v e init fr(1)])
  obtain t1 tp base where a1: "handleOTPrecomputeBegin co compiled rS True ct gt rq tt = (t1, Inr f1)"
    and w1: "t_waits ct gt t1 s' (st'\<lparr>rPending := Some tp\<rparr>) tp (new_batch ?b initial gt base)" and b1: "rBases t1 base = Some (hSS h)"
    using receiver_begins [OF ok bc cur tst(1), of co rS "hSS h" "hSetup h" r1 f1] sp(1) fr(3) rq by auto
  obtain k1 kb where a2: "handleOTPrecomputeResponse co rR True (\<lambda>t. t) ck gk (of_int cnt) f1 tk = (k1, Inr (Inl (k_request ?q st f2)))"
    and v1: "k_waits ck gk k1 s st p (?q\<lparr>spPhase := SAwaitCommitment, spBase := Some kb\<rparr>)" and kb: "kBases k1 kb = Some (hRS h)"
    by (rule sender_chooses [OF kw, of "of_int cnt" f1 "hSetup h" co rR "hRS h" "hChoices h" r2 f2])
      (simp_all add: c(3) fr sp del: of_nat_unat)
  let ?m = "request_of cnt f2 initial epoch"
  obtain t2 ex where a3: "handleOTPrecomputeChoices co rngR True ct gt ?m t1 = (t2, Inr f3)"
    and w2: "t_waits ct gt t2 s' (st'\<lparr>rPending := Some tp\<rparr>) tp
      ((new_batch ?b initial gt base)\<lparr>rpExtension := Some ex, rpEntries := hRots h, rpPhase := AwaitChallenge\<rparr>)"
    and ex: "rExts t2 ex = Some (hRX h)"
    by (rule receiver_commits_to [OF w1 _ _ b1, of ?m "hChoices h" co "hCipher h" "hSeeds h" rngR "hRX h" "hCom h" "hRots h" r3 f3])
      (simp_all add: fr sp tst c(3) del: of_nat_unat)
  show ?thesis
    using that [of t1 f1 k1 f2 t2 f3, OF _ _ _ fr(9) v1 kb w2 ex] a1 a2 a3 fr(2,7)
    by (simp add: handleOTPrecomputeRequest_def rq k_request_of ke)
qed

text \<open>The extension: the challenge and the proof.\<close>

lemma exchange_extension:
  assumes steps: "run_steps co rS rR rngR rngS epoch sid start cnt h" and frames: "run_frames sid start cnt epoch h"
    and v: "ValidatePrecomputeCount cnt = Inr ()" and ne: "hRots h \<noteq> []"
    and kw: "k_waits ck gk tk s st p ((new_sender sid cnt start initial ck gk claim)\<lparr>spPhase := SAwaitCommitment, spBase := Some kb\<rparr>)"
    and kb: "kBases tk kb = Some (hRS h)" and ke: "kEpoch st = epoch" "rEpoch st' = epoch"
    and u: "UnmarshalPrecomputeCommitmentFor f3 (begin_of sid start cnt epoch) = Inr (hCipher h, hCom h)"
    and tw: "t_waits ct gt tt s' (st'\<lparr>rPending := Some tp\<rparr>) tp ((new_batch (begin_of sid start cnt epoch) initial gt base)
       \<lparr>rpExtension := Some ex, rpEntries := hRots h, rpPhase := AwaitChallenge\<rparr>)"
    and ex: "rExts tt ex = Some (hRX h)"
  obtains f4 f5 k' t' kx where
    "handleOTPrecomputeResponse co rngS True (\<lambda>t. t) ck gk (of_int cnt) f3 tk = (k', Inr (Inl (request_of cnt f4 initial epoch)))"
    "handleOTPrecomputeRequest co compiled [] True ct gt (request_of cnt f4 initial epoch) tt = (t', Inr f5)"
    "UnmarshalExtensionProofFor f5 sid = Inr (hProof h)"
    "k_waits ck gk k' s st p ((new_sender sid cnt start initial ck gk claim)
       \<lparr>spBase := Some kb, spExtension := Some kx, spPhase := SAwaitProof\<rparr>)" "kExts k' kx = Some (hSX h)"
    "t_waits ct gt t' s' (st'\<lparr>rPending := Some tp\<rparr>) tp ((new_batch (begin_of sid start cnt epoch) initial gt base)
       \<lparr>rpExtension := Some ex, rpEntries := hRots h, rpPhase := AwaitComplete\<rparr>)"
proof -
  note c = precompute_count [OF v]
  let ?b = "begin_of sid start cnt epoch"
  let ?q = "(new_sender sid cnt start initial ck gk claim)\<lparr>spPhase := SAwaitCommitment, spBase := Some kb\<rparr>"
  obtain f4 f5 where fr: "MarshalExtensionChallenge (Some (hCh h)) = Inr f4" "UnmarshalExtensionChallengeFor f4 sid cnt = Inr (hCh h)"
    "PrecomputeRequestPhase f4 = PrecomputePhaseChallenge"
    "MarshalExtensionProof (Some (hProof h)) = Inr f5" "UnmarshalExtensionProofFor f5 sid = Inr (hProof h)"
    using frames unfolding run_frames_def by force
  obtain r4 where sp: "snd (FinishBaseOTReceiver co (Some (hRS h)) (hCipher h)) = Inr (hSelected h, hDelta h)"
    "StartExtensionSender (Some rngS) (hSelected h) (hDelta h) epoch (hCipher h) (Some (hCom h)) = Inr (hSX h, hCh h, r4)"
    "snd (FinishExtensionReceiver (Some (hRX h)) (Some (hCh h))) = Inr (hProof h)"
    using steps unfolding run_steps_def by blast
  obtain k' kx where a: "handleOTPrecomputeResponse co rngS True (\<lambda>t. t) ck gk (of_int cnt) f3 tk = (k', Inr (Inl (k_request ?q st f4)))"
    and v2: "k_waits ck gk k' s st p (?q\<lparr>spExtension := Some kx, spPhase := SAwaitProof\<rparr>)" and kx: "kExts k' kx = Some (hSX h)"
    by (rule sender_challenges [OF kw, of kb "hRS h" "of_int cnt" f3 "hCipher h" "hCom h" co "hSelected h" "hDelta h" rngS "hSX h" "hCh h" r4 f4])
      (simp_all add: kb c(3) fr sp u ke del: of_nat_unat)
  let ?m = "request_of cnt f4 initial epoch"
  obtain t' where p: "handleOTPrecomputeChallenge True ct gt ?m tt = (t', Inr f5)"
    and w: "t_waits ct gt t' s' (st'\<lparr>rPending := Some tp\<rparr>) tp ((new_batch ?b initial gt base)
      \<lparr>rpExtension := Some ex, rpEntries := hRots h, rpPhase := AwaitChallenge\<rparr>\<lparr>rpPhase := AwaitComplete\<rparr>)"
    by (rule receiver_proves [OF tw, of ex "hRX h" ?m "hCh h" "hProof h" f5])
      (simp_all add: ne ex ke fr sp c(3) del: of_nat_unat)
  show ?thesis
    by (rule that [of k' f4 t' f5 kx])
      (use a p v2 w kx fr(3,5) in \<open>simp_all add: handleOTPrecomputeRequest_def k_request_of ke\<close>)
qed

text \<open>The end: the sender checks the proof and commits, the receiver commits on its total.\<close>

lemma exchange_end:
  assumes steps: "run_steps co rS rR rngR rngS epoch sid start cnt h" and hm: "run_matches start cnt h"
    and v: "ValidatePrecomputeCount cnt = Inr ()" and e: "checkedIndexEnd start cnt = Inr psize"
    and kw: "k_waits ck gk tk s st p ((new_sender sid cnt start initial ck gk claim)
       \<lparr>spBase := Some kb, spExtension := Some kx, spPhase := SAwaitProof\<rparr>)" and kx: "kExts tk kx = Some (hSX h)"
    and kst: "initial \<or> kReady st \<and> sender_owns_claim (kPool st) claim" "sender_total_count (kPool st) = start"
    and u: "UnmarshalExtensionProofFor f5 sid = Inr (hProof h)"
    and tw: "t_waits ct gt tt s' (st'\<lparr>rPending := Some tp\<rparr>) tp ((new_batch (begin_of sid start cnt epoch) initial gt base)
       \<lparr>rpExtension := Some ex, rpEntries := hRots h, rpPhase := AwaitComplete\<rparr>)"
    and m: "pools_match (kPool st) (rPool st')"
    and room: "length (sEntries (kPool st)) \<le> 2 ^ 61" "length (rEntries (rPool st')) \<le> 2 ^ 61"
  obtains k' t' sp rp where
    "handleOTPrecomputeResponse co [] True (\<lambda>t. t) ck gk (of_int cnt) f5 tk = (k', Inr (Inr psize))"
    "handleOTPrecomputeComplete (isCurrentControlConnection ct gt) gt psize tt = (t', Inr ())"
    "settled ck gk ct gt (ExtensionEpoch sid) sp rp k' t'" "remaining sp = remaining (kPool st) @ hSots h"
proof -
  note c = precompute_count [OF v]
  let ?q = "(new_sender sid cnt start initial ck gk claim)\<lparr>spBase := Some kb, spExtension := Some kx, spPhase := SAwaitProof\<rparr>"
  have fin: "snd (FinishExtensionSender (Some (hSX h)) (Some (hProof h))) = Inr (hSots h)" using steps by (simp add: run_steps_def)
  have hl: "int (length (hSots h)) = cnt" "int (length (hRots h)) = cnt" "hRots h \<noteq> []" using hm c(1) by (auto simp: run_matches_def)
  have "length (hSots h) \<le> 100000" "length (hRots h) \<le> 100000"
    using hm precompute_count_small [OF v] by (simp_all add: run_matches_def)
  then have fits: "length (sEntries (kPool st)) + length (hSots h) \<le> 2 ^ 62" "length (rEntries (rPool st')) + length (hRots h) \<le> 2 ^ 62"
    using room by simp_all
  have l: "list_all2 ot_match (hSots h) (hRots h)" "consecutive (sender_total_count (kPool st)) (map sIndex (hSots h))"
    "consecutive (sender_total_count (kPool st)) (map rIndex (hRots h))" using hm by (simp_all add: run_matches_def kst)
  obtain pool rp where ad: "sender_add (kPool st) (hSots h) = (pool, Inr ())" "receiver_add (rPool st') (hRots h) = (rp, Inr ())"
    "pools_match pool rp" "remaining pool = remaining (kPool st) @ hSots h"
    by (rule pools_match_add [OF m l fits])
  obtain k' where a: "handleOTPrecomputeResponse co [] True (\<lambda>t. t) ck gk (of_int cnt) f5 tk = (k', Inr (Inr psize))"
    and z: "kOtState k' = Some s" "isCurrentControl ck gk k'"
      "kStates k' s = Some (st\<lparr>kPool := committed_pool ?q pool, kEpoch := ExtensionEpoch sid, kPending := None,
       kReady := (if initial then True else kReady st), kInconsistent := (if initial then False else kInconsistent st)\<rparr>)"
    by (rule sender_completes [OF kw, of kx "hSX h" "of_int cnt" f5 "hProof h" "hSots h" psize pool co "[]"])
      (use kst in \<open>auto simp: kx c(3) u fin hl e ad(1) simp del: of_nat_unat\<close>)
  have "receiver_total_count (rPool st') = start" using pools_match_total(1) [OF m] kst(2) by simp
  then obtain t' where b: "handleOTPrecomputeComplete (isCurrentControlConnection ct gt) gt psize tt = (t', Inr ())"
    and y: "otReceiverState t' = Some s'" "isCurrentControlConnection ct gt t'" "otReady t'"
      "rStates t' s' = Some (st'\<lparr>rPool := rp, rEpoch := ExtensionEpoch sid, rPending := None, rReady := True\<rparr>)"
    using receiver_completes [OF tw, of psize rp] ad(2) hl e by auto
  have "settled ck gk ct gt (ExtensionEpoch sid) (committed_pool ?q pool) rp k' t'"
    unfolding settled_def using y z ad(3) kst(1) by (auto simp: committed_pool_match)
  then show ?thesis by (rule that [OF a b]) (simp add: committed_pool_match ad(4))
qed

lemma exchange_commits:
  assumes steps: "run_steps co rS rR rngR rngS epoch sid start cnt h"
    and frames: "run_frames sid start cnt epoch h" and hm: "run_matches start cnt h"
    and v: "ValidatePrecomputeCount cnt = Inr ()" and e: "checkedIndexEnd start cnt = Inr psize"
    and init: "Initialize compiled = Inr x"
    and kw: "k_waits ck gk tk s st p (new_sender sid cnt start initial ck gk claim)"
    and kst: "kEpoch st = epoch" "initial \<or> kReady st \<and> sender_owns_claim (kPool st) claim" "sender_total_count (kPool st) = start"
    and f: "MarshalPrecomputeBegin (begin_of sid start cnt epoch) = Inr f" and rq: "rq = request_of cnt f initial epoch"
    and bc: "begin_claim (isCurrentControlConnection ct gt) rq (begin_of sid start cnt epoch) tt = (tt1, Inr s')"
    and cur: "isCurrentControlConnection ct gt tt1" and tst: "rStates tt1 s' = Some st'" "rEpoch st' = epoch"
    and m: "pools_match (kPool st) (rPool st')"
    and room: "length (sEntries (kPool st)) \<le> 2 ^ 61" "length (rEntries (rPool st')) \<le> 2 ^ 61"
  obtains tk' tt' sp rp where "exchange_messages co compiled rS rR rngR rngS ck gk ct gt rq tk tt = Some (tk', tt')"
    "settled ck gk ct gt (ExtensionEpoch sid) sp rp tk' tt'" "remaining sp = remaining (kPool st) @ hSots h"
proof -
  have ne: "hRots h \<noteq> []" using hm precompute_count(1) [OF v] by (auto simp: run_matches_def)
  obtain f1 f2 f3 t1 k1 t2 tp base kb ex where
    a: "handleOTPrecomputeRequest co compiled rS True ct gt rq tt = (t1, Inr f1)"
      "handleOTPrecomputeResponse co rR True (\<lambda>t. t) ck gk (of_int cnt) f1 tk = (k1, Inr (Inl (request_of cnt f2 initial epoch)))"
      "handleOTPrecomputeRequest co compiled rngR True ct gt (request_of cnt f2 initial epoch) t1 = (t2, Inr f3)"
    and u: "UnmarshalPrecomputeCommitmentFor f3 (begin_of sid start cnt epoch) = Inr (hCipher h, hCom h)"
    and k1: "k_waits ck gk k1 s st p ((new_sender sid cnt start initial ck gk claim)\<lparr>spPhase := SAwaitCommitment, spBase := Some kb\<rparr>)"
      "kBases k1 kb = Some (hRS h)"
    and t2: "t_waits ct gt t2 s' (st'\<lparr>rPending := Some tp\<rparr>) tp ((new_batch (begin_of sid start cnt epoch) initial gt base)
       \<lparr>rpExtension := Some ex, rpEntries := hRots h, rpPhase := AwaitChallenge\<rparr>)" "rExts t2 ex = Some (hRX h)"
    by (rule exchange_base [OF steps frames v e init kw kst(1) f rq bc cur tst])
  obtain f4 f5 k2 t3 kx where
    b: "handleOTPrecomputeResponse co rngS True (\<lambda>t. t) ck gk (of_int cnt) f3 k1 = (k2, Inr (Inl (request_of cnt f4 initial epoch)))"
      "handleOTPrecomputeRequest co compiled [] True ct gt (request_of cnt f4 initial epoch) t2 = (t3, Inr f5)"
    and u': "UnmarshalExtensionProofFor f5 sid = Inr (hProof h)"
    and k2: "k_waits ck gk k2 s st p ((new_sender sid cnt start initial ck gk claim)
       \<lparr>spBase := Some kb, spExtension := Some kx, spPhase := SAwaitProof\<rparr>)" "kExts k2 kx = Some (hSX h)"
    and t3: "t_waits ct gt t3 s' (st'\<lparr>rPending := Some tp\<rparr>) tp ((new_batch (begin_of sid start cnt epoch) initial gt base)
       \<lparr>rpExtension := Some ex, rpEntries := hRots h, rpPhase := AwaitComplete\<rparr>)"
    by (rule exchange_extension [OF steps frames v ne k1 kst(1) tst(2) u t2])
  obtain k3 t4 sp rp where
    d: "handleOTPrecomputeResponse co [] True (\<lambda>t. t) ck gk (of_int cnt) f5 k2 = (k3, Inr (Inr psize))"
      "handleOTPrecomputeComplete (isCurrentControlConnection ct gt) gt psize t3 = (t4, Inr ())"
    and z: "settled ck gk ct gt (ExtensionEpoch sid) sp rp k3 t4" "remaining sp = remaining (kPool st) @ hSots h"
    by (rule exchange_end [OF steps hm v e k2 kst(2,3) u' t3 m room])
  have "exchange_messages co compiled rS rR rngR rngS ck gk ct gt rq tk tt = Some (k3, t4)"
    unfolding exchange_messages_def using a b d by (simp add: rq)
  then show ?thesis using z by (rule that)
qed

section \<open>Refills and initial batches\<close>

lemma ready_end:
  assumes "precompute_ready co rS rR rngR rngS epoch sid start cnt" "ValidatePrecomputeCount cnt = Inr ()"
  shows "\<exists>e. checkedIndexEnd start cnt = Inr e"
  using assms(1) precompute_count(1,4) [OF assms(2)] checkedIndexEnd_sum [of cnt start]
  by (auto simp: precompute_ready_def)

lemma pools_match_clear: "pools_match (sender_clear p) NewReceiverPool" "sender_total_count (sender_clear p) = 0"
proof -
  show m: "pools_match (sender_clear p) NewReceiverPool"
    using sender_clear_inv [of p] NewReceiverPool_inv
    by (simp add: pools_match_def) (simp add: NewReceiverPool_def receiver_end_def)
  show "sender_total_count (sender_clear p) = 0"
    using pools_match_total(2) [OF m] sender_clear_inv [of p] by simp
qed

lemma refill_settles:
  assumes co: "co_correct co" and st: "settled ck gk ct gt epoch sp rp tk tt" and cl: "extendClaim sp = Some claim"
    and og: "tkConn og = ck" "tkGeneration og = gk" and v: "ValidatePrecomputeCount cnt = Inr ()"
    and init: "Initialize compiled = Inr x" and len: "32 \<le> length rI"
    and ready: "precompute_ready co rS rR rngR rngS epoch (take 32 rI) (sender_total_count sp) cnt"
    and room: "length (sEntries sp) \<le> 2 ^ 61" "length (rEntries rp) \<le> 2 ^ 61"
  obtains tk' tt' sp' rp' new where
    "precompute_exchange co compiled rI rS rR rngR rngS ck gk ct gt cnt False (Some claim) (Some og) tk tt = Some (tk', tt')"
    "settled ck gk ct gt (ExtensionEpoch (take 32 rI)) sp' rp' tk' tt'" "remaining sp' = remaining sp @ new" "length new = nat cnt"
proof -
  let ?sid = "take 32 rI" and ?start = "sender_total_count sp"
  obtain s k s' r where k: "kOtState tk = Some s" "kStates tk s = Some k" "kPending k = None" "kReady k" "kPool k = sp" "kEpoch k = epoch"
    and t: "otReceiverState tt = Some s'" "rStates tt s' = Some r" "rPending r = None" "rReady r" "rPool r = rp" "rEpoch r = epoch"
    and cur: "isCurrentControl ck gk tk" "isCurrentControlConnection ct gt tt" and m: "pools_match sp rp"
    using st unfolding settled_def by blast
  obtain h where h: "run_steps co rS rR rngR rngS epoch ?sid ?start cnt h" "run_frames ?sid ?start cnt epoch h" "run_matches ?start cnt h"
    by (rule honest_run_frames [OF co ready precompute_count(2) [OF v]])
  obtain e where e: "checkedIndexEnd ?start cnt = Inr e" using ready_end [OF ready v] by blast
  obtain f where f: "MarshalPrecomputeBegin (begin_of ?sid ?start cnt epoch) = Inr f" using h(2) unfolding run_frames_def by blast
  have own: "sender_owns_claim (kPool k) (Some claim)" using cl k(5) by (simp add: sender_owns_claim_def)
  let ?rq = "request_of cnt f False epoch"
  obtain t1 p where a: "perform_start compiled rI True cnt False (Some claim) (Some og) tk = (t1, Inr (s, p, ?rq))"
    and w: "k_waits ck gk t1 s (k\<lparr>kPending := Some p\<rparr>) p (new_sender ?sid cnt ?start False ck gk (Some claim))"
    unfolding request_of_def
    by (rule refill_starts [OF _ k(1,2,3,4) own v _ init len, of og e f]) (use cur(1) og e f k(5,6) in simp_all)
  have bc: "begin_claim (isCurrentControlConnection ct gt) ?rq (begin_of ?sid ?start cnt epoch) tt = (tt, Inr s')"
    using cur(2) t pools_match_total(1) [OF m] by (simp add: begin_claim_def lease_def Let_def)
  obtain tk' tt' sp' rp' where x: "exchange_messages co compiled rS rR rngR rngS ck gk ct gt ?rq t1 tt = Some (tk', tt')"
    and z: "settled ck gk ct gt (ExtensionEpoch ?sid) sp' rp' tk' tt'" "remaining sp' = remaining (kPool (k\<lparr>kPending := Some p\<rparr>)) @ hSots h"
    by (rule exchange_commits [OF h v e init w _ _ _ f _ bc cur(2) t(2,6)]) (use k t m own room in simp_all)
  show ?thesis
    by (rule that [OF _ z(1), of "hSots h"]) (use a x z(2) k(5) h(3) in \<open>simp_all add: precompute_exchange_def run_matches_def\<close>)
qed

lemma initial_settles:
  assumes co: "co_correct co" and ctl: "kControlConn tk = Some ck" "kControlGeneration tk = gk" "kAttested tk"
    and idle: "kOtState tk = None \<or> (\<exists>s k. kOtState tk = Some s \<and> kStates tk s = Some k \<and> kPending k = None)"
    and cur: "isCurrentControlConnection ct gt tt" and v: "ValidatePrecomputeCount cnt = Inr ()"
    and init: "Initialize compiled = Inr x" and id: "newSenderPrecomputeIdentity rI 0 cnt True = Inr (sid, epoch, rest)"
    and ready: "precompute_ready co rS rR rngR rngS epoch sid 0 cnt"
  obtains tk' tt' sp rp where
    "precompute_exchange co compiled rI rS rR rngR rngS ck gk ct gt cnt True None None tk tt = Some (tk', tt')"
    "settled ck gk ct gt (ExtensionEpoch sid) sp rp tk' tt'" "length (remaining sp) = nat cnt"
proof -
  obtain s0 k where k: "kOtState tk = None \<and> k = NewOTPrecomputeState \<or> kOtState tk = Some s0 \<and> kStates tk s0 = Some k \<and> kPending k = None"
    using idle by blast
  obtain h where h: "run_steps co rS rR rngR rngS epoch sid 0 cnt h" "run_frames sid 0 cnt epoch h" "run_matches 0 cnt h"
    by (rule honest_run_frames [OF co ready precompute_count(2) [OF v]])
  obtain e where e: "checkedIndexEnd 0 cnt = Inr e" using ready_end [OF ready v] by blast
  obtain f where f: "MarshalPrecomputeBegin (begin_of sid 0 cnt epoch) = Inr f" using h(2) unfolding run_frames_def by blast
  let ?rq = "request_of cnt f True epoch"
  obtain t1 s p where a: "perform_start compiled rI True cnt True None None tk = (t1, Inr (s, p, ?rq))"
    and w: "k_waits ck gk t1 s (k\<lparr>kEpoch := epoch, kPool := sender_clear (kPool k), kReady := False, kPending := Some p\<rparr>) p
      (new_sender sid cnt 0 True ck gk None)"
    using initial_starts [OF ctl(1,3) k v init id f] ctl(2) unfolding request_of_def by auto
  let ?t = "begin_reset epoch tt"
  obtain s' where r: "otReceiverState ?t = Some s'" "rStates ?t s' = Some (NewOTReceiverState\<lparr>rEpoch := epoch\<rparr>)"
    by (simp add: begin_reset_def Let_def)
  have c1: "isCurrentControlConnection ct gt ?t"
    using cur by (simp add: begin_reset_def Let_def isCurrentControlConnection_def split: option.splits)
  have "receiver_total_count NewReceiverPool = 0" using pools_match_total(1) [OF pools_match_clear(1)] pools_match_clear(2) by simp
  then have bc: "begin_claim (isCurrentControlConnection ct gt) ?rq (begin_of sid 0 cnt epoch) tt = (?t, Inr s')"
    using cur r by (simp add: begin_claim_def lease_def Let_def NewOTReceiverState_def)
  obtain tk' tt' sp rp where x: "exchange_messages co compiled rS rR rngR rngS ck gk ct gt ?rq t1 tt = Some (tk', tt')"
    and z: "settled ck gk ct gt (ExtensionEpoch sid) sp rp tk' tt'" "remaining sp = remaining (sender_clear (kPool k)) @ hSots h"
    using exchange_commits [OF h v e init w _ _ _ f refl bc c1 r(2)] pools_match_clear [of "kPool k"]
    by (simp add: NewOTReceiverState_def NewReceiverPool_def sender_clear_def sender_clear_locked_def) blast
  show ?thesis
    by (rule that [OF _ z(1)]) (use a x z(2) sender_clear_inv(2) h(3) in \<open>simp_all add: precompute_exchange_def run_matches_def\<close>)
qed

end
