(* ===== verification/Exchange_Properties.thy ===== *)
theory Exchange_Properties
  imports Exchange
begin
definition sample_initial_epoch :: bytes where
  "sample_initial_epoch = ascii ''kos2:07070707-0707-4707-8707-070707070707''"

lemma sample_identity: "newSenderPrecomputeIdentity (replicate 48 7) 0 640 True = Inr (replicate 32 7, sample_initial_epoch, [])"
  unfolding sample_initial_epoch_def by code_simp

section \<open>Liveness of the exchange\<close>

lemma sample_initialize: "Initialize (Inr (Some sample_circuit)) = Inr ()"
  using sample_engine by (auto simp: Initialize_def defaultEngine_def)

definition sample_teek :: "'b teek" where
  "sample_teek = (fst (installControlConnection newTEEK))\<lparr>kAttested := True\<rparr>"

definition sample_teet :: "'s teet" where
  "sample_teet = fst (activateControlConnection (\<lambda>_ _. False) newTEET)"

lemma sample_teek_fields:
  "kControlConn sample_teek = Some 0" "kControlGeneration sample_teek = 1" "kAttested sample_teek" "kOtState sample_teek = None"
  by (simp_all add: sample_teek_def installControlConnection_def newTEEK_def Let_def)

lemma sample_teet_fields:
  "controlConn sample_teet = Some 0" "controlGeneration sample_teet = 1" "rStates sample_teet = Map.empty"
  by (simp_all add: sample_teet_def activateControlConnection_def newTEET_def Let_def)

lemma sample_epoch_ready:
  "precompute_ready clear_api sample_rng_seeds sample_rng_delta (replicate 112 1) (replicate 112 2)
     sample_initial_epoch (replicate 32 7) 0 640"
proof -
  have "validateExtensionEpoch sample_initial_epoch = Inr ()" unfolding sample_initial_epoch_def by code_simp
  then show ?thesis using sample_base_ready [of "replicate 32 7"] by (simp add: precompute_ready_def)
qed

text \<open>C6. Liveness of an initial precomputation: whatever the receiver's pool holds, when both
  services are on their current control connection, the sender is attested and has no batch in
  flight, the exchange of all messages of the protocol ends with both services having committed:
  both pools are ready under the new epoch, hold the two halves of the same transfers, and
  the sender has exactly the requested number of transfers.\<close>

theorem initial_exchange_commits:
  assumes co: "co_correct co" and ctl: "kControlConn tk = Some ck" "kControlGeneration tk = gk" "kAttested tk"
    and idle: "kOtState tk = None \<or> (\<exists>s k. kOtState tk = Some s \<and> kStates tk s = Some k \<and> kPending k = None)"
    and cur: "isCurrentControlConnection ct gt tt" and v: "ValidatePrecomputeCount cnt = Inr ()"
    and init: "Initialize compiled = Inr ()" and id: "newSenderPrecomputeIdentity rI 0 cnt True = Inr (sid, epoch, rest)"
    and ready: "precompute_ready co rS rR rngR rngS epoch sid 0 cnt"
  shows "\<exists>tk' tt' sp rp.
    precompute_exchange co compiled rI rS rR rngR rngS ck gk ct gt cnt True None None tk tt = Some (tk', tt') \<and>
    settled ck gk ct gt (ExtensionEpoch sid) sp rp tk' tt' \<and> length (remaining sp) = nat cnt"
  by (rule initial_settles [OF co ctl idle cur v init id ready]) blast

theorem initial_exchange_commits_witness:
  "\<exists>tk' tt' sp rp. precompute_exchange clear_api (Inr (Some sample_circuit)) (replicate 48 7) sample_rng_seeds
      sample_rng_delta (replicate 112 1) (replicate 112 2) 0 1 0 1 640 True None None sample_teek sample_teet = Some (tk', tt') \<and>
    settled 0 1 0 1 (ExtensionEpoch (replicate 32 7)) sp rp tk' tt' \<and> length (remaining sp) = 640"
proof -
  have "ValidatePrecomputeCount 640 = Inr ()"
    by (simp add: ValidatePrecomputeCount_def MaxPrecomputeOTs_def OTPoolInitialSize_def)
  from initial_exchange_commits [OF clear_api_correct _ _ _ _ _ this sample_initialize sample_identity sample_epoch_ready,
      of sample_teek 0 1 0 1 sample_teet]
  show ?thesis by (simp add: sample_teek_fields sample_teet_fields isCurrentControlConnection_def)
qed

definition sample_idle_teek :: "'b teek" where
  "sample_idle_teek = sample_teek\<lparr>kOtState := Some 0, kStates := [0 \<mapsto> NewOTPrecomputeState
     \<lparr>kPool := NewSenderPool\<lparr>extendClaim := Some 0, claimSupply := Suc 0\<rparr>, kReady := True, kEpoch := sample_initial_epoch\<rparr>]\<rparr>"

definition sample_idle_teet :: "'s teet" where
  "sample_idle_teet = sample_teet\<lparr>otReceiverState := Some 0, otReady := True,
     rStates := [0 \<mapsto> NewOTReceiverState\<lparr>rReady := True, rEpoch := sample_initial_epoch\<rparr>]\<rparr>"

lemma pools_match_claim: "pools_match (p\<lparr>extendClaim := c, claimSupply := n\<rparr>) rp \<longleftrightarrow> pools_match p rp"
  by (simp add: pools_match_def sender_inv_def remaining_def sender_offset_def)

lemma sample_claimed_match: "pools_match (NewSenderPool\<lparr>extendClaim := Some 0, claimSupply := Suc 0\<rparr>) NewReceiverPool"
  using pools_match_claim pools_match_new by blast

lemma sample_settled:
  "settled 0 1 0 1 sample_initial_epoch (NewSenderPool\<lparr>extendClaim := Some 0, claimSupply := Suc 0\<rparr>) NewReceiverPool
     sample_idle_teek sample_idle_teet"
  using sample_claimed_match
  by (simp add: settled_def sample_idle_teek_def sample_idle_teet_def sample_teek_fields sample_teet_fields isCurrentControl_def
      isCurrentControlConnection_def NewOTPrecomputeState_def NewOTReceiverState_def)

text \<open>C5. Liveness of a refill: when two services are between batches with matching pools and the
  sender's pool holds the claim of the refill, the exchange of all messages of the protocol
  ends with both services having committed. The transfers the sender held stay first in its
  pool, exactly the requested number is added behind them, both services move to the same new
  epoch, and they are between batches with matching pools again.\<close>

theorem refill_exchange_commits:
  assumes co: "co_correct co" and st: "settled ck gk ct gt epoch sp rp tk tt" and cl: "extendClaim sp = Some claim"
    and og: "tkConn og = ck" "tkGeneration og = gk" and v: "ValidatePrecomputeCount cnt = Inr ()"
    and init: "Initialize compiled = Inr ()" and len: "32 \<le> length rI"
    and ready: "precompute_ready co rS rR rngR rngS epoch (take 32 rI) (sender_total_count sp) cnt"
    and room: "length (sEntries sp) \<le> 2 ^ 61" "length (rEntries rp) \<le> 2 ^ 61"
  shows "\<exists>tk' tt' sp' rp' new.
    precompute_exchange co compiled rI rS rR rngR rngS ck gk ct gt cnt False (Some claim) (Some og) tk tt = Some (tk', tt') \<and>
    settled ck gk ct gt (ExtensionEpoch (take 32 rI)) sp' rp' tk' tt' \<and> remaining sp' = remaining sp @ new \<and> length new = nat cnt"
  by (rule refill_settles [OF co st cl og v init len ready room]) blast

theorem refill_exchange_commits_witness:
  "\<exists>tk' tt' sp' rp'. precompute_exchange clear_api (Inr (Some sample_circuit)) (replicate 32 7) sample_rng_seeds
      sample_rng_delta (replicate 112 1) (replicate 112 2) 0 1 0 1 640 False (Some 0)
      (Some \<lparr>tkId = 0, tkConn = 0, tkGeneration = 1, tkSession = None\<rparr>) sample_idle_teek sample_idle_teet = Some (tk', tt') \<and>
    settled 0 1 0 1 (ExtensionEpoch (replicate 32 7)) sp' rp' tk' tt' \<and> length (remaining sp') = 640"
proof -
  let ?sp = "NewSenderPool\<lparr>extendClaim := Some 0, claimSupply := Suc 0\<rparr>"
  let ?og = "\<lparr>tkId = 0, tkConn = 0, tkGeneration = 1, tkSession = None\<rparr>"
  have v: "ValidatePrecomputeCount 640 = Inr ()"
    by (simp add: ValidatePrecomputeCount_def MaxPrecomputeOTs_def OTPoolInitialSize_def)
  have e: "remaining ?sp = []" "sNext ?sp = 0" "sEntries ?sp = []" "rEntries NewReceiverPool = []"
    by (simp_all add: remaining_def NewSenderPool_def NewReceiverPool_def)
  have "sender_total_count ?sp = 0" using pools_match_total(2) [OF sample_claimed_match] e by simp
  then have r: "precompute_ready clear_api sample_rng_seeds sample_rng_delta (replicate 112 1) (replicate 112 2)
      sample_initial_epoch (take 32 (replicate 32 7)) (sender_total_count ?sp) 640" using sample_epoch_ready by simp
  from refill_exchange_commits [OF clear_api_correct sample_settled _ _ _ v sample_initialize _ r, of 0 ?og]
  show ?thesis unfolding e by (auto simp: e)
qed

end
