(* ===== verification/Tee_T_Safety.thy ===== *)
theory Tee_T_Safety
  imports Exchange_Properties
begin

text \<open>
  What holds of the receiver service in every configuration its interleavings reach: no
  transfer is delivered twice, at most one batch is in progress and it continues its pool,
  ended batches hold no secrets, waiting consumers are woken, and messages of a superseded
  connection change nothing.
\<close>

section \<open>A handler that is not interrupted is a schedule\<close>

lemma written_or_cleared:
  assumes "\<And>sent. teet_reach co compiled (t, if sent then ths else add_mset (TClear conn s p) ths, lg)"
    and "t' = t \<or> t' = clearPendingReceiverPrecompute s p t"
  shows "teet_reach co compiled (t', ths, lg)"
  using assms(1) [of True] teet_reach.step [OF assms(1) [of False, simplified] teet_step.clear] assms(2) by auto

lemma begin_schedule:
  assumes r: "teet_reach co compiled (t, ths, lg)" and i: "idle conn ths"
    and h: "handleOTPrecomputeBegin co compiled rng sent conn gen m t = (t', x)"
  shows "teet_reach co compiled (t', ths, lg)"
proof (cases "begin_check compiled m")
  case (Inl e)
  then show ?thesis using h r by (simp add: handleOTPrecomputeBegin_def)
next
  case c: (Inr b)
  let ?cur = "isCurrentControlConnection conn gen"
  obtain t1 y where y: "begin_claim ?cur m b t = (t1, y)" by (cases "begin_claim ?cur m b t")
  note r1 = teet_reach.step [OF r teet_step.begin_msg [OF i c y]]
  show ?thesis
  proof (cases y)
    case (Inl e)
    then show ?thesis using h r1 c y by (simp add: handleOTPrecomputeBegin_def)
  next
    case s: (Inr s)
    have r1: "teet_reach co compiled (t1, add_mset (TBegin conn gen m b s) ths, lg)" using r1 s by simp
    show ?thesis
    proof (cases "StartBaseOTSender co (Some rng) (bSessionID b)")
      case (Inl e)
      then show ?thesis
        using h c y s teet_reach.step [OF r1 teet_step.begin_fail] by (simp add: handleOTPrecomputeBegin_def)
    next
      case ss: (Inr z)
      obtain st msg rest where z: "z = (st, msg, rest)" by (cases z)
      obtain t2 base where b: "newBase st t1 = (t2, base)" by (cases "newBase st t1")
      obtain t3 w where w: "begin_publish ?cur gen m b s base t2 = (t3, w)" by (cases "begin_publish ?cur gen m b s base t2")
      note st = teet_reach.step [OF r1 teet_step.begin_run [OF ss [unfolded z] b w]]
      show ?thesis
      proof (cases w)
        case (Inl e)
        then show ?thesis using h c y s ss z b w st by (simp add: handleOTPrecomputeBegin_def)
      next
        case p: (Inr p)
        show ?thesis
          by (rule written_or_cleared [OF st [unfolded p, simplified]])
            (use h c y s ss z b w p in \<open>auto simp: handleOTPrecomputeBegin_def split: sum.splits if_splits\<close>)
      qed
    qed
  qed
qed

lemma choices_schedule:
  assumes r: "teet_reach co compiled (t, ths, lg)" and i: "idle conn ths"
    and h: "handleOTPrecomputeChoices co rng sent conn gen m t = (t', x)"
  shows "teet_reach co compiled (t', ths, lg)"
proof -
  let ?cur = "isCurrentControlConnection conn gen"
  obtain t1 y where y: "choices_claim ?cur gen m t = (t1, y)" by (cases "choices_claim ?cur gen m t")
  note r1 = teet_reach.step [OF r teet_step.choices_msg [OF i y]]
  show ?thesis
  proof (cases y)
    case (Inl e)
    then show ?thesis using h r1 y by (simp add: handleOTPrecomputeChoices_def)
  next
    case s: (Inr a)
    obtain s p base where a: "a = (s, p, base)" by (cases a)
    obtain t2 z where z: "choices_compute co rng m s p base t1 = (t2, z)" by (cases "choices_compute co rng m s p base t1")
    have "teet_reach co compiled (t1, add_mset (TChoices conn gen m s p base) ths, lg)" using r1 s a by simp
    note r2 = teet_reach.step [OF this teet_step.choices_run [OF z]]
    show ?thesis
    proof (cases z)
      case (Inl e)
      have "teet_reach co compiled (clearPendingReceiverPrecompute s p t2, ths, lg)"
        using teet_reach.step [OF r2 [unfolded Inl, simplified] teet_step.clear] .
      then show ?thesis using h y s a z Inl by (simp add: handleOTPrecomputeChoices_def)
    next
      case e: (Inr b)
      obtain ext es f where b: "b = (ext, es, f)" by (cases b)
      obtain t3 w where w: "choices_publish ?cur gen s p ext es t2 = (t3, w)" by (cases "choices_publish ?cur gen s p ext es t2")
      have "teet_reach co compiled (t2, add_mset (TPublish conn gen s p ext es) ths, lg)" using r2 e b by simp
      note r3 = teet_reach.step [OF this teet_step.choices_pub [OF w]]
      show ?thesis
      proof (cases w)
        case (Inl e')
        then show ?thesis using h y s a z e b w r3 by (simp add: handleOTPrecomputeChoices_def)
      next
        case (Inr u)
        show ?thesis
          by (rule written_or_cleared [OF r3 [unfolded Inr, simplified]])
            (use h y s a z e b w Inr in \<open>auto simp: handleOTPrecomputeChoices_def split: if_splits\<close>)
      qed
    qed
  qed
qed

lemma challenge_schedule:
  assumes r: "teet_reach co compiled (t, ths, lg)" and i: "idle conn ths"
    and h: "handleOTPrecomputeChallenge sent conn gen m t = (t', x)"
  shows "teet_reach co compiled (t', ths, lg)"
proof -
  let ?cur = "isCurrentControlConnection conn gen"
  obtain t1 y where y: "challenge_claim ?cur gen m t = (t1, y)" by (cases "challenge_claim ?cur gen m t")
  note r1 = teet_reach.step [OF r teet_step.challenge_msg [OF i y]]
  show ?thesis
  proof (cases y)
    case (Inl e)
    then show ?thesis using h r1 y by (simp add: handleOTPrecomputeChallenge_def)
  next
    case s: (Inr a)
    obtain s p ext where a: "a = (s, p, ext)" by (cases a)
    obtain t2 z where z: "challenge_compute m p ext t1 = (t2, z)" by (cases "challenge_compute m p ext t1")
    have "teet_reach co compiled (t1, add_mset (TChallenge conn gen m s p ext) ths, lg)" using r1 s a by simp
    note r2 = teet_reach.step [OF this teet_step.challenge_run [OF z]]
    show ?thesis
    proof (cases z)
      case (Inl e)
      have "teet_reach co compiled (clearPendingReceiverPrecompute s p t2, ths, lg)"
        using teet_reach.step [OF r2 [unfolded Inl, simplified] teet_step.clear] .
      then show ?thesis using h y s a z Inl by (simp add: handleOTPrecomputeChallenge_def)
    next
      case e: (Inr f)
      obtain t3 w where w: "challenge_publish ?cur gen s p t2 = (t3, w)" by (cases "challenge_publish ?cur gen s p t2")
      have "teet_reach co compiled (t2, add_mset (TProve conn gen s p) ths, lg)" using r2 e by simp
      note r3 = teet_reach.step [OF this teet_step.challenge_pub [OF w]]
      show ?thesis
      proof (cases w)
        case (Inl e')
        then show ?thesis using h y s a z e w r3 by (simp add: handleOTPrecomputeChallenge_def)
      next
        case (Inr u)
        show ?thesis
          by (rule written_or_cleared [OF r3 [unfolded Inr, simplified]])
            (use h y s a z e w Inr in \<open>auto simp: handleOTPrecomputeChallenge_def split: if_splits\<close>)
      qed
    qed
  qed
qed

lemma request_schedule:
  assumes "teet_reach co compiled (t, ths, lg)" "idle conn ths"
    and h: "handleOTPrecomputeRequest co compiled rng sent conn gen m t = (t', x)"
  shows "teet_reach co compiled (t', ths, lg)"
  using h assms(1) begin_schedule [OF assms(1,2)] choices_schedule [OF assms(1,2)] challenge_schedule [OF assms(1,2)]
  by (cases "PrecomputeRequestPhase (rqSetup m)") (simp_all add: handleOTPrecomputeRequest_def)

text \<open>A request leaves every pool as it is or empties it.\<close>

definition keeps_pools :: "'s teet \<Rightarrow> 's teet \<Rightarrow> bool" where
  "keeps_pools t t' \<longleftrightarrow> (\<forall>s st'. rStates t' s = Some st' \<longrightarrow>
     rEntries (rPool st') = [] \<or> (\<exists>st. rStates t s = Some st \<and> rPool st' = rPool st))"

lemma keeps_pools_small: "keeps_pools t t' \<Longrightarrow> small_pools t \<Longrightarrow> small_pools t'"
  unfolding keeps_pools_def small_pools_def by fastforce

lemma keeps_pools_trans: "keeps_pools t t1 \<Longrightarrow> keeps_pools t1 t2 \<Longrightarrow> keeps_pools t t2"
  unfolding keeps_pools_def by (metis option.inject)

lemma keeps_pools_same: "rStates t' = rStates t \<Longrightarrow> keeps_pools t t'"
  by (simp add: keeps_pools_def)

lemma keeps_pools_onState: "(\<And>x. rPool (f x) = rPool x) \<Longrightarrow> rStates t' = (rStates t)(s := map_option f (rStates t s)) \<Longrightarrow> keeps_pools t t'"
  by (auto simp: keeps_pools_def split: if_splits)

lemma clearPending_pool: "keeps_pools t (clearPendingReceiverPrecompute s p t)"
  using clearPending_effect(1) [of s p t] keeps_pools_same [of _ t] keeps_pools_onState [of "\<lambda>st. st\<lparr>rPending := None\<rparr>"] by fastforce

lemma keeps_pools_cleared: "keeps_pools t t1 \<Longrightarrow> keeps_pools t (clearPendingReceiverPrecompute s p t1)"
  by (rule keeps_pools_trans [OF _ clearPending_pool])

lemma receiver_clear_entries: "rEntries (receiver_clear p) = []"
  by (simp add: receiver_clear_def)

lemma begin_claim_pools: "keeps_pools t (fst (begin_claim current m b t))"
  unfolding begin_claim_state
  by (auto simp: keeps_pools_def begin_reset_effect(1) NewOTReceiverState_def NewReceiverPool_def forget_def receiver_clear_entries
      split: if_splits)

lemma begin_publish_pools: "begin_publish current gen m b s base t = (t', x) \<Longrightarrow> keeps_pools t t'"
  by (drule begin_publish_cases) (auto simp: keeps_pools_def split: if_splits)

lemma section_pools:
  "choices_claim current gen m t = (t', x1) \<Longrightarrow> keeps_pools t t'"
  "choices_compute co rng m s p base t = (t', x2) \<Longrightarrow> keeps_pools t t'"
  "choices_publish current gen s p ext es t = (t', x3) \<Longrightarrow> keeps_pools t t'"
  "challenge_claim current gen m t = (t', x4) \<Longrightarrow> keeps_pools t t'"
  "challenge_compute m p ext t = (t', x5) \<Longrightarrow> keeps_pools t t'"
  "challenge_publish current gen s p t = (t', x6) \<Longrightarrow> keeps_pools t t'"
       apply (drule choices_claim_cases, rule keeps_pools_same, auto)[1]
      apply (drule choices_compute_cases, rule keeps_pools_same, auto simp: newExt_def)[1]
     apply (drule choices_publish_cases, rule keeps_pools_same, auto)[1]
    apply (drule challenge_claim_cases, rule keeps_pools_same, auto)[1]
   apply (rule keeps_pools_same, auto simp: challenge_compute_def)[1]
  apply (drule challenge_publish_cases, rule keeps_pools_same, auto)[1]
  done

lemma begin_pools:
  assumes h: "handleOTPrecomputeBegin co compiled rng sent conn gen m t = (t', x)"
  shows "keeps_pools t t'"
proof (cases "begin_check compiled m")
  case (Inl e)
  then show ?thesis using h by (simp add: handleOTPrecomputeBegin_def keeps_pools_same)
next
  case c: (Inr b)
  let ?cur = "isCurrentControlConnection conn gen"
  obtain t1 y where y: "begin_claim ?cur m b t = (t1, y)" by (cases "begin_claim ?cur m b t")
  have k1: "keeps_pools t t1" using begin_claim_pools [of t ?cur m b] y by simp
  consider "t' = t1" | s ss base t3 z where "begin_publish ?cur gen m b s base (fst (newBase ss t1)) = (t3, z)" "t' = t3 \<or> (\<exists>p. t' = clearPendingReceiverPrecompute s p t3)"
    using h c y by (auto simp: handleOTPrecomputeBegin_def newBase_def split: sum.splits prod.splits if_splits) blast+
  then show ?thesis
  proof cases
    case 1
    then show ?thesis using k1 by simp
  next
    case (2 s ss base t3 z)
    have "keeps_pools t1 (fst (newBase ss t1))" by (rule keeps_pools_same) (simp add: newBase_def)
    then have "keeps_pools t t3" using k1 begin_publish_pools [OF 2(1)] keeps_pools_trans by blast
    then show ?thesis using 2(2) clearPending_pool keeps_pools_trans by blast
  qed
qed

lemma choices_pools:
  assumes h: "handleOTPrecomputeChoices co rng sent conn gen m t = (t', x)"
  shows "keeps_pools t t'"
proof -
  let ?cur = "isCurrentControlConnection conn gen"
  obtain t1 y where y: "choices_claim ?cur gen m t = (t1, y)" by (cases "choices_claim ?cur gen m t")
  note k = section_pools(1) [OF y]
  consider "t' = t1" | s p base t2 z where "choices_compute co rng m s p base t1 = (t2, z)"
      "t' = clearPendingReceiverPrecompute s p t2 \<or> (\<exists>ext es t3 w. choices_publish ?cur gen s p ext es t2 = (t3, w) \<and>
         (t' = t3 \<or> t' = clearPendingReceiverPrecompute s p t3))"
    using h y by (auto simp: handleOTPrecomputeChoices_def split: sum.splits prod.splits if_splits) blast+
  then show ?thesis
  proof cases
    case (2 s p base t2 z)
    note k2 = keeps_pools_trans [OF k section_pools(2) [OF 2(1)]]
    have "keeps_pools t t3" if "choices_publish ?cur gen s p ext es t2 = (t3, w)" for ext es t3 w
      by (rule keeps_pools_trans [OF k2 section_pools(3) [OF that]])
    then show ?thesis using 2(2) keeps_pools_cleared [OF k2] keeps_pools_cleared by blast
  qed (use k in simp)
qed

lemma challenge_pools:
  assumes h: "handleOTPrecomputeChallenge sent conn gen m t = (t', x)"
  shows "keeps_pools t t'"
proof -
  let ?cur = "isCurrentControlConnection conn gen"
  obtain t1 y where y: "challenge_claim ?cur gen m t = (t1, y)" by (cases "challenge_claim ?cur gen m t")
  note k = section_pools(4) [OF y]
  consider "t' = t1" | s p ext t2 z where "challenge_compute m p ext t1 = (t2, z)"
      "t' = clearPendingReceiverPrecompute s p t2 \<or> (\<exists>t3 w. challenge_publish ?cur gen s p t2 = (t3, w) \<and>
         (t' = t3 \<or> t' = clearPendingReceiverPrecompute s p t3))"
    using h y by (auto simp: handleOTPrecomputeChallenge_def split: sum.splits prod.splits if_splits) blast+
  then show ?thesis
  proof cases
    case (2 s p ext t2 z)
    note k2 = keeps_pools_trans [OF k section_pools(5) [OF 2(1)]]
    have "keeps_pools t t3" if "challenge_publish ?cur gen s p t2 = (t3, w)" for t3 w
      by (rule keeps_pools_trans [OF k2 section_pools(6) [OF that]])
    then show ?thesis using 2(2) keeps_pools_cleared [OF k2] keeps_pools_cleared by blast
  qed (use k in simp)
qed

lemma request_pools:
  assumes h: "handleOTPrecomputeRequest co compiled rng sent conn gen m t = (t', x)"
  shows "keeps_pools t t'"
  using h begin_pools choices_pools challenge_pools
  by (cases "PrecomputeRequestPhase (rqSetup m)") (simp_all add: handleOTPrecomputeRequest_def keeps_pools_same)

section \<open>The receiver's side of an exchange is a schedule\<close>

lemma exchange_awaits:
  assumes x: "exchange_messages co compiled rS rR rngR rngS ck gk ct gt rq tk tt = Some (tk', tt')"
    and r: "teet_reach co compiled (tt, ths, lg)" and i: "idle ct ths" and small: "small_pools tt"
  obtains t3 psize u where "teet_reach co compiled (t3, ths, lg)" "small_pools t3"
    "handleOTPrecomputeComplete (isCurrentControlConnection ct gt) gt psize t3 = (tt', Inr u)"
proof -
  obtain t1 f1 m1 t2 f2 m2 t3 f3 psize u where
    h: "handleOTPrecomputeRequest co compiled rS True ct gt rq tt = (t1, Inr f1)"
      "handleOTPrecomputeRequest co compiled rngR True ct gt m1 t1 = (t2, Inr f2)"
      "handleOTPrecomputeRequest co compiled [] True ct gt m2 t2 = (t3, Inr f3)"
      "handleOTPrecomputeComplete (isCurrentControlConnection ct gt) gt psize t3 = (tt', Inr u)"
    using x by (auto simp: exchange_messages_def split: sum.splits prod.splits)
  note r3 = request_schedule [OF request_schedule [OF request_schedule [OF r i h(1)] i h(2)] i h(3)]
  have "small_pools t3" using request_pools [OF h(1)] request_pools [OF h(2)] request_pools [OF h(3)] small keeps_pools_small by blast
  then show ?thesis using that r3 h(4) by blast
qed

lemma exchange_schedule:
  assumes "exchange_messages co compiled rS rR rngR rngS ck gk ct gt rq tk tt = Some (tk', tt')"
    "teet_reach co compiled (tt, ths, lg)" "idle ct ths" "small_pools tt"
  shows "teet_reach co compiled (tt', ths, lg)"
  by (rule exchange_awaits [OF assms]) (blast intro: teet_reach.step teet_step.complete_msg [OF assms(3)])

section \<open>Sample configurations\<close>

lemma sample_teet_reach: "teet_reach co compiled (sample_teet, {#}, [])"
  using teet_reach.step [OF teet_reach.init teet_step.activate [of "\<lambda>_ _. False" newTEET]]
  by (metis sample_teet_def prod.collapse)

text \<open>An initial batch of 640 transfers was committed and delivered.\<close>

lemma sample_count: "ValidatePrecomputeCount 640 = Inr ()"
  by (simp add: ValidatePrecomputeCount_def MaxPrecomputeOTs_def OTPoolInitialSize_def)

lemma sample_exchange:
  obtains k1 rq tk tt sp rp where
    "exchange_messages clear_api (Inr (Some sample_circuit)) sample_rng_seeds sample_rng_delta
      (replicate 112 1) (replicate 112 2) 0 1 0 1 rq k1 sample_teet = Some (tk, tt)"
    "settled 0 1 0 1 (ExtensionEpoch (replicate 32 7)) sp rp tk tt" "length (remaining sp) = 640"
proof -
  have k: "kOtState sample_teek = None \<or> (\<exists>s k. kOtState sample_teek = Some s \<and> kStates sample_teek s = Some k \<and> kPending k = None)"
    by (simp add: sample_teek_fields)
  have cur: "isCurrentControlConnection 0 1 sample_teet" by (simp add: sample_teet_fields isCurrentControlConnection_def)
  obtain tk tt sp rp where x: "precompute_exchange clear_api (Inr (Some sample_circuit)) (replicate 48 7) sample_rng_seeds
      sample_rng_delta (replicate 112 1) (replicate 112 2) 0 1 0 1 640 True None None sample_teek sample_teet = Some (tk, tt)"
    and st: "settled 0 1 0 1 (ExtensionEpoch (replicate 32 7)) sp rp tk tt" and n: "length (remaining sp) = nat 640"
    by (rule initial_settles [OF clear_api_correct sample_teek_fields(1-3) k cur sample_count sample_initialize sample_identity sample_epoch_ready])
  obtain k1 rq where "exchange_messages clear_api (Inr (Some sample_circuit)) sample_rng_seeds sample_rng_delta
      (replicate 112 1) (replicate 112 2) 0 1 0 1 rq k1 sample_teet = Some (tk, tt)"
    using x by (auto simp: precompute_exchange_def split: sum.splits prod.splits)
  with st n show ?thesis by (intro that) simp_all
qed

lemma sample_small: "small_pools sample_teet" "idle c {#}"
  by (simp_all add: small_pools_def sample_teet_fields idle_def)

lemma sample_delivered:
  "\<exists>t lg. teet_reach clear_api (Inr (Some sample_circuit)) (t, {#}, lg) \<and> length lg = 640 \<and> pending_of t = None \<and>
     isCurrentControlConnection 0 1 t"
proof -
  obtain k1 rq tk tt sp rp where
    e: "exchange_messages clear_api (Inr (Some sample_circuit)) sample_rng_seeds sample_rng_delta
      (replicate 112 1) (replicate 112 2) 0 1 0 1 rq k1 sample_teet = Some (tk, tt)"
    and st: "settled 0 1 0 1 (ExtensionEpoch (replicate 32 7)) sp rp tk tt" and n: "length (remaining sp) = 640"
    by (rule sample_exchange)
  have r: "teet_reach clear_api (Inr (Some sample_circuit)) (tt, {#}, [])"
    by (rule exchange_schedule [OF e sample_teet_reach sample_small(2,1)])
  obtain s stt where t: "otReceiverState tt = Some s" "rStates tt s = Some stt" "rPending stt = None" "rReady stt" "rPool stt = rp"
    and m: "pools_match sp rp" and c: "isCurrentControlConnection 0 1 tt"
    using st unfolding settled_def by blast
  obtain rp' rots where con: "receiver_consume rp (sNext sp) (int 640) = (rp', Inr rots)"
    by (rule pools_match_reserve [OF m, of 640]) (use n in simp_all)
  have "consume_claim (\<lambda>_. True) (sNext sp) 640 tt = (onState s (\<lambda>st. st\<lparr>rPool := rp'\<rparr>) tt, Inr (Inl rots))"
    using con t by (simp add: consume_claim_def lease_def pendingReceiverCompletionForRange_def Let_def split: sum.split)
  from teet_reach.step [OF r teet_step.consume_now [OF _ t(1) this]]
  have "teet_reach clear_api (Inr (Some sample_circuit)) (onState s (\<lambda>st. st\<lparr>rPool := rp'\<rparr>) tt, {#}, delivery s (sNext sp) 640)"
    by (simp add: is_go_int_def)
  moreover have "pending_of (onState s (\<lambda>st. st\<lparr>rPool := rp'\<rparr>) tt) = None" using t by (simp add: pending_of_def)
  moreover have "isCurrentControlConnection 0 1 (onState s (\<lambda>st. st\<lparr>rPool := rp'\<rparr>) tt)"
    using c by (simp add: isCurrentControlConnection_def)
  ultimately show ?thesis by (metis (no_types, lifting) delivery_def length_map length_upt add_diff_cancel_left' nat_numeral)
qed

text \<open>A batch of which only the completion is missing, with a consumer waiting for it.\<close>

lemma sample_waiting:
  "\<exists>t s p start cnt st r. teet_reach clear_api (Inr (Some sample_circuit)) (t, {#TWait s p start cnt#}, []) \<and>
     isCurrentControlConnection 0 1 t \<and> pending_of t = Some (s, st, p, r) \<and> rpPhase r = AwaitComplete"
proof -
  obtain k1 rq tk tt sp rp where
    e: "exchange_messages clear_api (Inr (Some sample_circuit)) sample_rng_seeds sample_rng_delta
      (replicate 112 1) (replicate 112 2) 0 1 0 1 rq k1 sample_teet = Some (tk, tt)" by (rule sample_exchange)
  obtain t psize u where r: "teet_reach clear_api (Inr (Some sample_circuit)) (t, {#}, [])"
    and c: "handleOTPrecomputeComplete (isCurrentControlConnection 0 1) 1 psize t = (tt, Inr u)"
    by (rule exchange_awaits [OF e sample_teet_reach sample_small(2,1)])
  obtain s st p r where p: "isCurrentControlConnection 0 1 t" "pending_of t = Some (s, st, p, r)" "rpPhase r = AwaitComplete" "rpEntries r \<noteq> []"
    using complete_cases [OF c] by blast
  let ?start = "bStartIndex (rpBegin r)" and ?n = "int (length (rpEntries r))"
  have inv: "replay_inv (t, {#}, [])" by (rule reach_inv [OF r])
  have b: "batch_ok st r" by (rule pend_batch [OF inv p(2)])
  have "receiver_inv (rPool st)" using inv pending_of_Some(2) [OF p(2)] by (simp add: replay_inv_def pools_ok_def)
  then have start: "receiver_total_count (rPool st) = ?start" using b total_end by (simp add: batch_ok_def word_unat_eq_iff)
  have "length (rpEntries r) \<le> 100000"
    using b p(3) by (simp add: batch_ok_def fills_def count_ok_def MaxPrecomputeOTs_def OTPoolInitialSize_def)
  then have n: "0 < ?n" "is_go_int ?n" using p(4) by (simp_all add: is_go_int_def)
  obtain w where w: "checkedIndexEnd ?start ?n = Inr w"
    using c p start by (auto simp: handleOTPrecomputeComplete_def lease_def split: sum.splits if_splits)
  have "?start < w" using w n unfolding checkedIndexEnd_Inr [OF n(2)] by (simp add: word_less_nat_alt)
  then have lt: "\<not> w < ?start" "\<not> w \<le> ?start" "w \<noteq> ?start" by auto
  have "consume_claim (\<lambda>_. True) ?start ?n t = (t, Inr (Inr (s, p)))"
    using p n w lt start pending_of_Some [OF p(2)]
    by (simp add: consume_claim_def lease_def pendingReceiverCompletionForRange_def Let_def)
  from teet_reach.step [OF r teet_step.consume_wait [OF n(2) this]] show ?thesis using p(1,2,3) by blast
qed

section \<open>Safety\<close>

text \<open>C4. No transfer of the receiver's pool is delivered twice, whatever the interleaving of
  requests, consumers, write failures, reconnects, attestations and teardowns: in every reachable
  configuration the log of delivered transfers has no duplicates, and a delivered transfer is
  no longer available in its pool.\<close>

theorem never_delivered_twice:
  assumes "teet_reach co compiled (t, ths, lg)"
  shows "distinct lg \<and> (\<forall>s i st. (s, i) \<in> set lg \<longrightarrow> rStates t s = Some st \<longrightarrow> i \<notin> dom (unused (rPool st)))"
  using reach_inv [OF assms] by (fastforce simp: replay_inv_def log_ok_def)

theorem never_delivered_twice_witness:
  "\<exists>t lg. teet_reach clear_api (Inr (Some sample_circuit)) (t, {#}, lg) \<and> length lg = 640 \<and> distinct lg"
  using sample_delivered never_delivered_twice by metis

text \<open>C18. The batch in progress is well formed in every reachable configuration: it is the
  pending batch of the current receiver state, so there is only one; it belongs to the current
  generation of a live control connection; it starts exactly where the pool ends, and once its
  transfers are there they are the announced number with consecutive indices.\<close>

theorem batch_in_progress_continues_pool:
  assumes r: "teet_reach co compiled (t, ths, lg)" and p: "rPends t p = Some r" "rpOutcome r = InProgress"
  shows "\<exists>s st. pending_of t = Some (s, st, p, r) \<and> controlConn t \<noteq> None \<and> rpGeneration r = controlGeneration t \<and>
    unat (bStartIndex (rpBegin r)) = receiver_end (rPool st) \<and>
    (rpPhase r \<in> {AwaitChallenge, ProcessingChallenge, AwaitComplete} \<longrightarrow>
       length (rpEntries r) = unat (bCount (rpBegin r)) \<and> consecutive (bStartIndex (rpBegin r)) (map rIndex (rpEntries r)))"
proof -
  have wf: "wf_teet t" using reach_wf [OF r] by simp
  have pend: "is_pending t p" using wf_teetD(4) [OF wf p] by simp
  then obtain s st where q: "pending_of t = Some (s, st, p, r)" using p by (auto simp: is_pending_def pending_of_def)
  have "batch_ok st r" by (rule pend_batch [OF reach_inv [OF r] q])
  then have "unat (bStartIndex (rpBegin r)) = receiver_end (rPool st)" "rpPhase r \<in> {AwaitChallenge, ProcessingChallenge, AwaitComplete} \<longrightarrow>
      length (rpEntries r) = unat (bCount (rpBegin r)) \<and> consecutive (bStartIndex (rpBegin r)) (map rIndex (rpEntries r))"
    by (auto simp: batch_ok_def fills_def split: if_splits)
  then show ?thesis using q wf_teetD(2) [OF wf pend] pending_of_wf(2) [OF wf q] by blast
qed

theorem batch_in_progress_continues_pool_witness:
  "\<exists>t ths p r s st. teet_reach clear_api (Inr (Some sample_circuit)) (t, ths, []) \<and> rPends t p = Some r \<and>
     rpOutcome r = InProgress \<and> unat (bStartIndex (rpBegin r)) = receiver_end (rPool st) \<and>
     pending_of t = Some (s, st, p, r) \<and> rpPhase r = AwaitComplete"
proof -
  obtain t s p start cnt st r where w: "teet_reach clear_api (Inr (Some sample_circuit)) (t, {#TWait s p start cnt#}, [])"
    "pending_of t = Some (s, st, p, r)" "rpPhase r = AwaitComplete" using sample_waiting by blast
  have "rPends t p = Some r" "rpOutcome r = InProgress"
    using pending_of_Some(4) [OF w(2)] pending_of_wf(1) [OF _ w(2)] reach_wf [OF w(1)] by simp_all
  with batch_in_progress_continues_pool [OF w(1) this] w show ?thesis by fastforce
qed

text \<open>C19. The completion channel of a batch is closed exactly once: it is open while the batch is
  in progress, closed once after the batch was committed or aborted, and a batch that ended
  holds no transfers any more.\<close>

theorem completion_closed_once:
  assumes "teet_reach co compiled (t, ths, lg)" "rPends t p = Some r"
  shows "rpClosed r = (if rpOutcome r = InProgress then 0 else 1) \<and> (rpOutcome r = InProgress \<or> rpEntries r = [])"
  using wf_teetD(4,5) [OF _ assms(2)] reach_wf [OF assms(1)] by simp

theorem completion_closed_once_witness:
  "\<exists>t ths p r. teet_reach clear_api (Inr (Some sample_circuit)) (t, ths, []) \<and> rPends t p = Some r \<and> rpClosed r \<le> 1"
proof -
  obtain t s p start cnt st r where w: "teet_reach clear_api (Inr (Some sample_circuit)) (t, {#TWait s p start cnt#}, [])"
    "pending_of t = Some (s, st, p, r)" using sample_waiting by blast
  have "rpClosed r \<le> 1" using completion_closed_once [OF w(1) pending_of_Some(4) [OF w(2)]] by auto
  then show ?thesis using w(1) pending_of_Some(4) [OF w(2)] by blast
qed

text \<open>C14. Erasure: when no handler is in flight and no batch is pending, every base-transfer and
  extension state the service ever created has been wiped.\<close>

theorem quiescent_secrets_erased:
  assumes r: "teet_reach co compiled (t, {#}, lg)" and q: "pending_of t = None"
  shows "(\<forall>b ss. rBases t b = Some ss \<longrightarrow> base_wiped ss) \<and> (\<forall>e es. rExts t e = Some es \<longrightarrow> ext_wiped es)"
proof -
  have wf: "wf_teet t" using reach_wf [OF r] by simp
  have "\<not> is_pending t p" for p
    using q wf_teetD(3) [OF wf] by (fastforce simp: is_pending_def pending_of_def)
  then have "rpOutcome r \<noteq> InProgress" if "rPends t p = Some r" for p r using wf_teetD(4) [OF wf that] by blast
  then show ?thesis using reach_erase [OF r]
    by (fastforce simp: erase_inv_def base_owned_def ext_owned_def holds_base_def holds_ext_def)
qed

theorem quiescent_secrets_erased_witness:
  "\<exists>t lg. teet_reach clear_api (Inr (Some sample_circuit)) (t, {#}, lg) \<and> length lg = 640 \<and>
     (\<forall>b ss. rBases t b = Some ss \<longrightarrow> base_wiped ss) \<and> (\<forall>e es. rExts t e = Some es \<longrightarrow> ext_wiped es)"
  using sample_delivered quiescent_secrets_erased by (metis (no_types, lifting))

section \<open>Waking and refusing\<close>

text \<open>C17. Tearing down the current control connection wakes every consumer that waits for a
  batch: the completion channel it waits on has been closed.\<close>

theorem teardown_wakes_waiters:
  assumes r: "teet_reach co compiled (t, ths, lg)" and cur: "isCurrentControlConnection conn gen t"
    and w: "TWait s p start cnt \<in># ths" and d: "tearDownControlConnection live conn gen t = (t', x)"
  shows "\<exists>r. rPends t' p = Some r \<and> rpOutcome r \<noteq> InProgress \<and> rpClosed r = 1"
proof -
  note r' = teet_reach.step [OF r teet_step.teardown [OF d]]
  have wf: "wf_teet t'" using reach_wf [OF r'] by simp
  obtain r where p: "rPends t' p = Some r" using reach_erase [OF r'] w by (fastforce simp: erase_inv_def)
  have "controlConn t' = None" using d cur by (auto simp: tearDownControlConnection_def)
  then have "rpOutcome r \<noteq> InProgress" using wf_teetD(2,4) [OF wf] p by blast
  then show ?thesis using p wf_teetD(5) [OF wf p] by blast
qed

theorem teardown_wakes_waiters_witness:
  "\<exists>t s p start cnt t' x r. teet_reach clear_api (Inr (Some sample_circuit)) (t, {#TWait s p start cnt#}, []) \<and>
     tearDownControlConnection (\<lambda>_ _. False) 0 1 t = (t', x) \<and> rPends t' p = Some r \<and> rpClosed r = 1"
proof -
  obtain t s p start cnt where w: "teet_reach clear_api (Inr (Some sample_circuit)) (t, {#TWait s p start cnt#}, [])"
    "isCurrentControlConnection 0 1 t" using sample_waiting by blast
  obtain t' x where d: "tearDownControlConnection (\<lambda>_ _. False) 0 1 t = (t', x)"
    by (cases "tearDownControlConnection (\<lambda>_ _. False) 0 1 t")
  from teardown_wakes_waiters [OF w(1,2) _ d] w(1) d show ?thesis by fastforce
qed

text \<open>C20. Messages of a superseded control connection are inert: a precompute request, a
  completion or a resume request that arrives on a connection that is no longer the current one
  is answered with an error and changes nothing.\<close>

theorem superseded_connection_inert:
  assumes "\<not> isCurrentControlConnection conn gen t"
  shows "(\<exists>e. handleOTPrecomputeRequest co compiled rng sent conn gen m t = (t, Inl e)) \<and>
    (\<exists>e. handleOTPrecomputeComplete (isCurrentControlConnection conn gen) gen psize t = (t, Inl e)) \<and>
    (\<exists>e. handleOTResumeRequest (isCurrentControlConnection conn gen) epoch nxt t = (t, Inl e))"
  using assms
  by (simp add: handleOTPrecomputeRequest_def handleOTPrecomputeBegin_def handleOTPrecomputeChoices_def
      handleOTPrecomputeChallenge_def handleOTPrecomputeComplete_def handleOTResumeRequest_def begin_claim_def choices_claim_def
      challenge_claim_def lease_def split: PrecomputePhase.split sum.split)

theorem superseded_connection_inert_witness:
  "\<exists>e. handleOTPrecomputeComplete (isCurrentControlConnection 0 0) 0 640 sample_teet = (sample_teet :: unit teet, Inl e)"
proof -
  have "\<not> isCurrentControlConnection 0 0 (sample_teet :: unit teet)"
    by (simp add: isCurrentControlConnection_def sample_teet_fields)
  from superseded_connection_inert [OF this, where co = clear_api] show ?thesis by blast
qed

text \<open>C21. Counts are bounded before anything is touched: in every reachable configuration a
  precompute request, in any of its three phases, whose count is zero or more than 100000 is
  refused and leaves the service unchanged.\<close>

theorem oversized_request_refused:
  assumes r: "teet_reach co compiled (t, ths, lg)" and n: "unat (rqCount m) = 0 \<or> 100000 < unat (rqCount m)"
  shows "\<exists>e. handleOTPrecomputeRequest co compiled rng sent conn gen m t = (t, Inl e)"
proof -
  have ne: "rqCount m \<noteq> bCount b" if "count_ok b" for b
    using that n by (auto simp: count_ok_def MaxPrecomputeOTs_def OTPoolInitialSize_def)
  have "begin_check compiled m \<noteq> Inr b" for b
    using begin_check_count [of compiled m b] ne [of b] by (auto simp: begin_check_def split: sum.splits if_splits)
  then have b: "\<exists>e. handleOTPrecomputeBegin co compiled rng sent conn gen m t = (t, Inl e)"
    by (cases "begin_check compiled m") (auto simp: handleOTPrecomputeBegin_def)
  have "rqCount m \<noteq> bCount (rpBegin r')" if "pending_of t = Some (s, st, p, r')" for s st p r'
    using pend_batch [OF reach_inv [OF r] that] ne by (simp add: batch_ok_def)
  then have "\<exists>e. choices_claim (isCurrentControlConnection conn gen) gen m t = (t, Inl e)"
    "\<exists>e. challenge_claim (isCurrentControlConnection conn gen) gen m t = (t, Inl e)"
    by (auto simp: choices_claim_def challenge_claim_def lease_def split: option.split)
  then show ?thesis using b
    by (cases "PrecomputeRequestPhase (rqSetup m)")
      (auto simp: handleOTPrecomputeRequest_def handleOTPrecomputeChoices_def handleOTPrecomputeChallenge_def)
qed

theorem oversized_request_refused_witness:
  "\<exists>e. handleOTPrecomputeRequest clear_api (Inr (Some sample_circuit)) [] True 0 1
     \<lparr>rqCount = 100001, rqSetup = ascii ''KOB2'', rqInitial = True, rqEpoch = []\<rparr> sample_teet = (sample_teet, Inl e)"
  by (rule oversized_request_refused [OF sample_teet_reach]) simp

end
