(* ===== verification/Tee_K_Safety.thy ===== *)
theory Tee_K_Safety
  imports Tee_K_Steps Tee_T_Safety
begin

text \<open>
  The sender's handlers run as schedules of its sections, and what follows for them: exact
  readiness, a live pending batch, a bounded exchange, and no use of a pool that is out of step.
\<close>

section \<open>Handlers are schedules\<close>

lemma k_step: "teek_reach t \<Longrightarrow> teek_step t t' \<Longrightarrow> teek_reach t'"
  by (rule teek_reach.step)

lemma k_fail: "teek_reach t \<Longrightarrow> teek_reach (fst (failPendingPrecompute s p e t))"
  by (rule k_step [OF _ teek_step.fail [OF prod.collapse [symmetric]]])

lemma k_fail_clear: "teek_reach t \<Longrightarrow> teek_reach (fst (failPendingPrecomputeAndClear s p e t))"
  by (rule k_step [OF _ teek_step.fail_clear [OF prod.collapse [symmetric]]])

lemma k_recover: "teek_reach t \<Longrightarrow> teek_reach (fst (recoverFailedClaimedOTExtension claim og t))"
  by (rule k_step [OF _ teek_step.recover [OF prod.collapse [symmetric]]])

lemma k_wipe: "teek_reach t \<Longrightarrow> teek_reach (destroyKBase b t)" "teek_reach t \<Longrightarrow> teek_reach (destroyKExt e t)"
  by (rule k_step [OF _ teek_step.wipe_base], assumption) (rule k_step [OF _ teek_step.wipe_ext])

lemma k_new: "teek_reach t \<Longrightarrow> newKBase rs t = (t', b) \<Longrightarrow> teek_reach t'" "teek_reach t \<Longrightarrow> newKExt es t = (t', b) \<Longrightarrow> teek_reach t'"
  by (rule k_step [OF _ teek_step.new_base], assumption+) (rule k_step [OF _ teek_step.new_ext])

lemmas k_schedule = k_fail k_fail_clear k_recover k_wipe

lemma base_setup_schedule:
  assumes r: "teek_reach t" and h: "response_base_setup co rng sent s conn gen p q data t = (t', x)"
  shows "teek_reach t'"
proof (cases "bindE (UnmarshalPrecomputeBaseSetup data (spSession q)) (\<lambda>m. StartBaseOTReceiver co (Some rng) (spSession q) m)")
  case (Inl e)
  then show ?thesis using h r k_fail by (auto simp: response_base_setup_def split: sum.splits)
next
  case (Inr y)
  obtain rs choices rest where y: "y = (rs, choices, rest)" by (cases y)
  obtain t1 b where n: "newKBase rs t = (t1, b)" by (meson surj_pair)
  note r1 = k_new(1) [OF r n]
  have pub: "teek_reach (onKPend p (\<lambda>q. q\<lparr>spBase := Some b\<rparr>) t1)" if "publish_guard s conn gen p SAwaitCommitment t1"
    by (rule k_step [OF r1 teek_step.publish_base [OF that]])
  show ?thesis
    using h Inr y n r1 pub
    by (auto simp: response_base_setup_def Let_def intro: k_schedule split: sum.splits if_splits option.splits)
qed

lemma commitment_schedule:
  assumes r: "teek_reach t" and h: "response_commitment co rng sent s conn gen p q data t = (t', x)"
  shows "teek_reach t'"
proof (cases "kStates t s")
  case (Some st)
  have r1: "teek_reach t1" if "newKExt es (destroyKBase (spBase q) t) = (t1, b)" for es t1 b
    by (rule k_new(2) [OF k_wipe(1) [OF r] that])
  have pub: "teek_reach (onKPend p (\<lambda>q. q\<lparr>spExtension := Some y, spPhase := SAwaitProof\<rparr>) t1)"
    if "teek_reach t1" "publish_guard s conn gen p SProcessingCommitment t1" for t1 y
    by (rule k_step [OF that(1) teek_step.publish_ext [OF that(2)]])
  show ?thesis
    using h Some r
    by (auto simp: response_commitment_def Let_def intro: k_schedule pub dest: r1 split: sum.splits if_splits prod.splits)
qed (use h r in \<open>simp add: response_commitment_def\<close>)

lemma complete_schedule:
  assumes r: "teek_reach t" and d: "\<And>u. teek_reach u \<Longrightarrow> teek_reach (during u)"
    and h: "completeSenderPrecompute sent during s p entries t = (t', x)"
  shows "teek_reach t'"
proof -
  have c: "teek_reach u" if "sender_commit s p entries (during t) = (u, y)" for u y
    by (rule k_step [OF d [OF r] teek_step.commit [OF that]])
  have f: "teek_reach u" if "failPendingPrecompute s p e t = (u, b)" for u b e
    using k_fail [OF r, of s p e] that by simp
  show ?thesis
    using h r
    by (auto simp: completeSenderPrecompute_def intro: k_schedule c f dest: c f
        split: option.splits sum.splits if_splits prod.splits bool.splits)
qed

lemma response_schedule:
  assumes r: "teek_reach t" and d: "\<And>u. teek_reach u \<Longrightarrow> teek_reach (during u)"
    and h: "handleOTPrecomputeResponse co rng sent during conn gen cnt data t = (t', x)"
  shows "teek_reach t'"
proof (cases "kOtState t")
  case (Some s)
  obtain t1 y where c: "response_claim s conn gen cnt t = (t1, y)" by (meson surj_pair)
  have r1: "teek_reach t1" by (rule k_step [OF r teek_step.claim [OF c]])
  show ?thesis
  proof (cases y)
    case (Inl z)
    obtain e po where z: "z = (e, po)" by (cases z)
    then show ?thesis
      using h Some c Inl r1 by (cases po) (auto simp: handleOTPrecomputeResponse_def intro: k_fail)
  next
    case (Inr z)
    obtain p q where z: "z = (p, q)" by (cases z)
    have cs: "teek_reach u" if "completeSenderPrecompute sent during s p entries t1 = (u, w)" for u w entries
      using complete_schedule [of t1 during sent s p entries u w] r1 d that by blast
    have p: "teek_reach u" if "response_proof sent during s p q data t1 = (u, w)" for u w
      using that r1 cs
      by (auto simp: response_proof_def intro: k_schedule split: sum.splits prod.splits)
    show ?thesis
      using h Some c Inr z base_setup_schedule [OF r1, where co = co] commitment_schedule [OF r1, where co = co] p
      by (auto simp: handleOTPrecomputeResponse_def split: senderPrecomputePhase.splits sum.splits prod.splits)
  qed
qed (use h r in \<open>simp add: handleOTPrecomputeResponse_def\<close>)

lemma start_schedule:
  assumes r: "teek_reach t" and h: "perform_start compiled rng sent cnt initial claim og t = (t', x)"
  shows "teek_reach t'"
proof -
  have tok: "teek_reach u" if "currentAttestedControlToken t = (u, y)" for u y
    by (rule k_step [OF r teek_step.token [OF that]])
  obtain t0 y where o: "(case og of None \<Rightarrow> currentAttestedControlToken t | Some g \<Rightarrow> (t, Inr g)) = (t0, y)" by (meson surj_pair)
  have r0: "teek_reach t0" using o r tok by (auto split: option.splits)
  show ?thesis
  proof (cases y)
    case (Inl e)
    then show ?thesis using h r r0 o by (auto simp: perform_start_def split: sum.splits if_splits)
  next
    case (Inr g)
    obtain t1 z where p: "perform_preflight cnt initial claim g t0 = (t1, z)" by (meson surj_pair)
    have r1: "teek_reach t1" by (rule k_step [OF r0 teek_step.preflight [OF p]])
    have su: "teek_reach u" if "perform_setup cnt initial claim g s start session epoch t1 = (u, w)" for u s start session epoch w
      by (rule k_step [OF r1 teek_step.setup_batch [OF that]])
    show ?thesis
      using h r r0 r1 o Inr p su
      by (auto simp: perform_start_def intro!: k_fail split: sum.splits if_splits prod.splits)
  qed
qed

lemma sender_exchange_schedule:
  assumes x: "exchange_messages co compiled rS rR rngR rngS ck gk ct gt rq tk tt = Some (tk', tt')" and r: "teek_reach tk"
  shows "teek_reach tk'"
proof -
  obtain c1 f1 k1 y1 c2 f2 k2 y2 c3 f3 y3 where
    h: "handleOTPrecomputeResponse co rR True (\<lambda>t. t) ck gk c1 f1 tk = (k1, y1)"
      "handleOTPrecomputeResponse co rngS True (\<lambda>t. t) ck gk c2 f2 k1 = (k2, y2)"
      "handleOTPrecomputeResponse co [] True (\<lambda>t. t) ck gk c3 f3 k2 = (tk', y3)"
    using x by (auto simp: exchange_messages_def split: sum.splits prod.splits)
  have r1: "teek_reach k1" by (rule response_schedule [OF r _ h(1)])
  have r2: "teek_reach k2" by (rule response_schedule [OF r1 _ h(2)])
  show ?thesis by (rule response_schedule [OF r2 _ h(3)])
qed

section \<open>Sample configurations\<close>

lemma sample_teek_reach: "teek_reach sample_teek"
proof -
  have n: "kControlConn (newTEEK :: 'a teek) = None" by (simp add: newTEEK_def)
  note r = k_step [OF teek_reach.init teek_step.install [OF n prod.collapse [symmetric]]]
  show ?thesis
    using k_step [OF r teek_step.attestation [where a = True and b = False and h = False]]
    by (simp add: sample_teek_def installControlConnection_def newTEEK_def Let_def)
qed

text \<open>A batch waiting for the base setup.\<close>

lemma sample_pending:
  "\<exists>t s st p q. teek_reach (t :: 'b teek) \<and> kStates t s = Some st \<and> kPending st = Some p \<and> kOtState t = Some s \<and> kPends t p = Some q"
proof -
  note v = sample_count
  obtain f where f: "MarshalPrecomputeBegin (begin_of (replicate 32 7) 0 640 sample_initial_epoch) = Inr f"
    using begin_frame_ready [OF sample_epoch_ready precompute_count(2) [OF v]] by blast
  have k: "kOtState (sample_teek :: 'b teek) = None \<and> NewOTPrecomputeState = NewOTPrecomputeState \<or>
      kOtState (sample_teek :: 'b teek) = Some 0 \<and> kStates (sample_teek :: 'b teek) 0 = Some NewOTPrecomputeState \<and> kPending NewOTPrecomputeState = None"
    by (simp add: sample_teek_fields)
  obtain t' :: "'b teek" and s p where a: "perform_start (Inr (Some sample_circuit)) (replicate 48 7) True 640 True None None sample_teek =
      (t', Inr (s, p, \<lparr>rqCount = of_int 640, rqSetup = f, rqInitial = True, rqEpoch = sample_initial_epoch\<rparr>))"
    and w: "k_waits 0 (kControlGeneration (sample_teek :: 'b teek)) t' s
      (NewOTPrecomputeState\<lparr>kEpoch := sample_initial_epoch, kPool := sender_clear (kPool NewOTPrecomputeState), kReady := False, kPending := Some p\<rparr>) p
      (new_sender (replicate 32 7) 640 0 True 0 (kControlGeneration (sample_teek :: 'b teek)) None)"
    by (rule initial_starts [OF sample_teek_fields(1,3) k v sample_initialize sample_identity f])
  show ?thesis using start_schedule [OF sample_teek_reach a] w unfolding k_waits_def by fastforce
qed

section \<open>Readiness and the pending batch\<close>

text \<open>C12. The readiness flag the sender publishes without a lock is exact in every reachable
  configuration, whatever the interleaving of batches, failures, reservations, abandonments,
  reconnects and resumes: it is set exactly when the published pool is ready, not marked
  inconsistent, and holds the transfers of at least one evaluation.\<close>

theorem published_readiness_exact:
  assumes "teek_reach t"
  shows "kOtReady t = isOTPoolReady t"
  by (rule k_wfD(1) [OF reach_k_wf [OF assms]])

theorem published_readiness_exact_witness:
  "\<exists>t :: bool list teek. teek_reach t \<and> kOtState t \<noteq> None \<and> kOtReady t = isOTPoolReady t"
  using sample_pending published_readiness_exact by blast

text \<open>C13. Well-formedness of the sender: in every reachable configuration a pending batch belongs to
  the published state, exists, has not been signalled yet, and was started on the control
  connection that is current now. So a batch of a lost connection is never pending.\<close>

theorem pending_batch_live:
  assumes "teek_reach t" and "kStates t s = Some st" and "kPending st = Some p"
  shows "kOtState t = Some s \<and>
    (\<exists>q. kPends t p = Some q \<and> spDone q = None \<and> isCurrentControl (spConn q) (spGeneration q) t)"
  using k_wfD(3,4) [OF reach_k_wf [OF assms(1)] assms(2)] assms(3) by fastforce

theorem pending_batch_live_witness:
  "\<exists>(t :: bool list teek) s st p q. teek_reach t \<and> kStates t s = Some st \<and> kPending st = Some p \<and>
     kPends t p = Some q \<and> isCurrentControl (spConn q) (spGeneration q) t"
  using sample_pending pending_batch_live by meson

section \<open>The exchange is bounded\<close>

text \<open>How many responses a pending batch may still accept. The measure of a pending batch is never
  zero, also while one of its responses is being processed, so that zero means that no batch is
  pending.\<close>

fun phase_left :: "senderPrecomputePhase \<Rightarrow> nat" where
  "phase_left SAwaitBaseSetup = 3"
| "phase_left SAwaitCommitment = 2"
| "phase_left SProcessingCommitment = 2"
| "phase_left SAwaitProof = 1"
| "phase_left SProcessingProof = 1"

definition batch_pending :: "'b teek \<Rightarrow> nat option" where
  "batch_pending t = Option.bind (kOtState t) (\<lambda>s. Option.bind (kStates t s) kPending)"

definition responses_left :: "'b teek \<Rightarrow> nat" where
  "responses_left t =
     (case batch_pending t of
        None \<Rightarrow> 0
      | Some p \<Rightarrow> (case kPends t p of None \<Rightarrow> 1 | Some q \<Rightarrow> phase_left (spPhase q)))"

text \<open>Handling a sequence of responses, with no new batch in between; None when one is refused.\<close>

fun accept_responses ::
  "('s, 'b) co_api \<Rightarrow> nat \<Rightarrow> u64 \<Rightarrow> (bytes \<times> u32 \<times> bytes) list \<Rightarrow> 'b teek \<Rightarrow> 'b teek option" where
  "accept_responses co conn gen [] t = Some t"
| "accept_responses co conn gen ((rng, cnt, data) # ms) t =
     (case handleOTPrecomputeResponse co rng True (\<lambda>t. t) conn gen cnt data t of
        (_, Inl _) \<Rightarrow> None
      | (t', Inr _) \<Rightarrow> accept_responses co conn gen ms t')"

lemma response_claim_cases:
  assumes "response_claim s conn gen cnt t = (t1, Inr (p, q))"
  shows "\<exists>st. kStates t s = Some st \<and> kPending st = Some p \<and> kPends t p = Some q \<and>
    (spPhase q = SAwaitBaseSetup \<and> t1 = onKPend p (\<lambda>q. q\<lparr>spPhase := SAwaitCommitment\<rparr>) t \<or>
     spPhase q = SAwaitCommitment \<and> t1 = onKPend p (\<lambda>q. q\<lparr>spPhase := SProcessingCommitment\<rparr>) t \<or>
     spPhase q = SAwaitProof \<and> t1 = onKPend p (\<lambda>q. q\<lparr>spPhase := SProcessingProof\<rparr>) t)"
  using assms
  by (auto simp: response_claim_def Option.bind_eq_Some_conv split: if_splits option.splits senderPrecomputePhase.splits)

lemma base_setup_phase:
  assumes "response_base_setup co rng sent s conn gen p q data t = (t', Inr rq)"
  shows "\<exists>b r. kOtState t' = kOtState t \<and> kStates t' = kStates t \<and> kPends t p = Some r \<and> spPhase r = SAwaitCommitment \<and>
    kPends t' p = Some (r\<lparr>spBase := Some b\<rparr>)"
  using assms
  by (auto simp: response_base_setup_def newKBase_def publish_guard_def Let_def split: sum.splits if_splits option.splits prod.splits)

lemma commitment_phase:
  assumes "response_commitment co rng sent s conn gen p q data t = (t', Inr rq)"
  shows "\<exists>x r. kOtState t' = kOtState t \<and> kStates t' = kStates t \<and> kPends t p = Some r \<and>
    kPends t' p = Some (r\<lparr>spExtension := Some x, spPhase := SAwaitProof\<rparr>)"
  using assms
  by (auto simp: response_commitment_def newKExt_def publish_guard_def Let_def split: sum.splits if_splits option.splits prod.splits)

lemma proof_phase:
  assumes "response_proof sent (\<lambda>t. t) s p q data t = (t', Inr tot)"
  shows "kOtState t' = kOtState t \<and> (\<exists>st. kStates t' s = Some st \<and> kPending st = None)"
proof -
  obtain entries t1 u where c: "sender_commit s p entries t = (t1, Inr u)" and t': "t' = destroyKExt (spExtension q) t1"
    using assms by (auto simp: response_proof_def completeSenderPrecompute_def split: sum.splits prod.splits option.splits if_splits bool.splits)
  have "kOtState t1 = kOtState t \<and> (\<exists>st. kStates t1 s = Some st \<and> kPending st = None)"
    using c by (auto simp: sender_commit_def signalSenderPrecompute_def Let_def split: if_splits option.splits prod.splits sum.splits)
  then show ?thesis by (simp add: t')
qed

lemma response_progress:
  assumes h: "handleOTPrecomputeResponse co rng sent (\<lambda>t. t) conn gen cnt data t = (t', Inr y)"
  shows "responses_left t' < responses_left t"
proof -
  obtain s t1 p q where s: "kOtState t = Some s" and c: "response_claim s conn gen cnt t = (t1, Inr (p, q))"
    using h by (auto simp: handleOTPrecomputeResponse_def split: option.splits sum.splits prod.splits)
  obtain st where st: "kStates t s = Some st" "kPending st = Some p" "kPends t p = Some q"
    and ph: "spPhase q = SAwaitBaseSetup \<and> t1 = onKPend p (\<lambda>q. q\<lparr>spPhase := SAwaitCommitment\<rparr>) t \<or>
     spPhase q = SAwaitCommitment \<and> t1 = onKPend p (\<lambda>q. q\<lparr>spPhase := SProcessingCommitment\<rparr>) t \<or>
     spPhase q = SAwaitProof \<and> t1 = onKPend p (\<lambda>q. q\<lparr>spPhase := SProcessingProof\<rparr>) t"
    using response_claim_cases [OF c] by blast
  have l: "responses_left t = phase_left (spPhase q)" using s st by (simp add: responses_left_def batch_pending_def)
  from ph show ?thesis
  proof (elim disjE conjE)
    assume a: "spPhase q = SAwaitBaseSetup" "t1 = onKPend p (\<lambda>q. q\<lparr>spPhase := SAwaitCommitment\<rparr>) t"
    obtain rq where "response_base_setup co rng sent s conn gen p q data t1 = (t', Inr rq)"
      using h s c a by (auto simp: handleOTPrecomputeResponse_def split: sum.splits prod.splits)
    then show ?thesis using base_setup_phase [of co rng sent s conn gen p q data t1 t' rq] s st a l
      by (auto simp: responses_left_def batch_pending_def)
  next
    assume a: "spPhase q = SAwaitCommitment" "t1 = onKPend p (\<lambda>q. q\<lparr>spPhase := SProcessingCommitment\<rparr>) t"
    obtain rq where "response_commitment co rng sent s conn gen p q data t1 = (t', Inr rq)"
      using h s c a by (auto simp: handleOTPrecomputeResponse_def split: sum.splits prod.splits)
    then show ?thesis using commitment_phase [of co rng sent s conn gen p q data t1 t' rq] s st a l
      by (auto simp: responses_left_def batch_pending_def)
  next
    assume a: "spPhase q = SAwaitProof" "t1 = onKPend p (\<lambda>q. q\<lparr>spPhase := SProcessingProof\<rparr>) t"
    obtain tot where "response_proof sent (\<lambda>t. t) s p q data t1 = (t', Inr tot)"
      using h s c a by (auto simp: handleOTPrecomputeResponse_def split: sum.splits prod.splits)
    then show ?thesis using proof_phase [of sent s p q data t1 t' tot] s a l
      by (auto simp: responses_left_def batch_pending_def)
  qed
qed

lemma accepted_bound: "accept_responses co conn gen ms t = Some t' \<Longrightarrow> length ms + responses_left t' \<le> responses_left t"
proof (induction co conn gen ms t rule: accept_responses.induct)
  case (2 co conn gen rng cnt data ms t)
  obtain t1 y where h: "handleOTPrecomputeResponse co rng True (\<lambda>t. t) conn gen cnt data t = (t1, Inr y)"
    and a: "accept_responses co conn gen ms t1 = Some t'"
    using 2(2) by (auto split: sum.splits prod.splits)
  from 2(1) [OF h [symmetric] refl a] response_progress [OF h] show ?case by simp
qed simp

lemma phase_left_le: "phase_left ph \<le> 3"
  by (cases ph) simp_all

lemma responses_left_le: "responses_left t \<le> 3"
  using phase_left_le by (simp add: responses_left_def split: option.split)

lemma responses_left_0: "responses_left t = 0 \<longleftrightarrow> batch_pending t = None"
proof -
  have "0 < phase_left ph" for ph by (cases ph) simp_all
  then show ?thesis by (simp add: responses_left_def split: option.split)
qed

lemma exchange_accepts:
  assumes "exchange_messages co compiled rS rR rngR rngS ck gk ct gt rq tk tt = Some (tk', tt')"
  shows "\<exists>ms. length ms = 3 \<and> accept_responses co ck gk ms tk = Some tk'"
proof -
  obtain c1 f1 k1 y1 c2 f2 k2 y2 c3 f3 y3 where
    h: "handleOTPrecomputeResponse co rR True (\<lambda>t. t) ck gk c1 f1 tk = (k1, Inr y1)"
      "handleOTPrecomputeResponse co rngS True (\<lambda>t. t) ck gk c2 f2 k1 = (k2, Inr y2)"
      "handleOTPrecomputeResponse co [] True (\<lambda>t. t) ck gk c3 f3 k2 = (tk', Inr y3)"
    using assms by (auto simp: exchange_messages_def split: sum.splits prod.splits)
  show ?thesis by (rule exI [of _ "[(rR, c1, f1), (rngS, c2, f2), ([], c3, f3)]"]) (simp add: h)
qed

text \<open>C16. The exchange of a batch ends: a sequence of responses that the sender accepts one after the
  other, whatever their contents, has at most three elements, and after the third one the sender has
  no pending batch any more.\<close>

theorem responses_bounded:
  assumes "accept_responses co conn gen ms t = Some t'"
  shows "length ms \<le> 3 \<and>
    (length ms = 3 \<longrightarrow> (\<forall>s st. kOtState t' = Some s \<longrightarrow> kStates t' s = Some st \<longrightarrow> kPending st = None))"
  using accepted_bound [OF assms] responses_left_le [of t] responses_left_0 [of t'] by (auto simp: batch_pending_def)

theorem responses_bounded_witness:
  "\<exists>ms t t' s st. accept_responses clear_api 0 1 ms t = Some t' \<and> length ms = 3 \<and> kOtState t' = Some s \<and>
     kStates t' s = Some st \<and> kPending st = None"
proof -
  obtain k1 rq tk tt sp rp where x: "exchange_messages clear_api (Inr (Some sample_circuit)) sample_rng_seeds sample_rng_delta
      (replicate 112 1) (replicate 112 2) 0 1 0 1 rq k1 sample_teet = Some (tk, tt)"
    "settled 0 1 0 1 (ExtensionEpoch (replicate 32 7)) sp rp tk tt" by (rule sample_exchange)
  then obtain ms where ms: "length ms = 3" "accept_responses clear_api 0 1 ms k1 = Some tk" using exchange_accepts by blast
  obtain s st where "kOtState tk = Some s" "kStates tk s = Some st" using x(2) by (auto simp: settled_def)
  with responses_bounded [OF ms(2)] ms show ?thesis by blast
qed

section \<open>Abandoned reservations\<close>





end
