(* ===== verification/Crypto_Cbc.thy ===== *)
theory Crypto_Cbc
  imports Crypto_Std
begin

text \<open>
  The rest of Go's standard cryptography that the TLS 1.2 CBC record layer calls: the AES
  cipher and its inverse for all key sizes (\<open>crypto/aes\<close>, FIPS 197), the CBC mode of
  \<open>crypto/cipher\<close>, SHA-1 and SHA-384 (FIPS 180-4) and HMAC (RFC 2104). They are executable
  definitions of the published algorithms. The lemmas show the lengths of the outputs and
  that decryption undoes encryption.
\<close>

section \<open>AES for all key sizes\<close>

definition aes_inv_sbox :: "u8 list" where
  "aes_inv_sbox = [
     0x52, 0x09, 0x6a, 0xd5, 0x30, 0x36, 0xa5, 0x38, 0xbf, 0x40, 0xa3, 0x9e,
     0x81, 0xf3, 0xd7, 0xfb, 0x7c, 0xe3, 0x39, 0x82, 0x9b, 0x2f, 0xff, 0x87,
     0x34, 0x8e, 0x43, 0x44, 0xc4, 0xde, 0xe9, 0xcb, 0x54, 0x7b, 0x94, 0x32,
     0xa6, 0xc2, 0x23, 0x3d, 0xee, 0x4c, 0x95, 0x0b, 0x42, 0xfa, 0xc3, 0x4e,
     0x08, 0x2e, 0xa1, 0x66, 0x28, 0xd9, 0x24, 0xb2, 0x76, 0x5b, 0xa2, 0x49,
     0x6d, 0x8b, 0xd1, 0x25, 0x72, 0xf8, 0xf6, 0x64, 0x86, 0x68, 0x98, 0x16,
     0xd4, 0xa4, 0x5c, 0xcc, 0x5d, 0x65, 0xb6, 0x92, 0x6c, 0x70, 0x48, 0x50,
     0xfd, 0xed, 0xb9, 0xda, 0x5e, 0x15, 0x46, 0x57, 0xa7, 0x8d, 0x9d, 0x84,
     0x90, 0xd8, 0xab, 0x00, 0x8c, 0xbc, 0xd3, 0x0a, 0xf7, 0xe4, 0x58, 0x05,
     0xb8, 0xb3, 0x45, 0x06, 0xd0, 0x2c, 0x1e, 0x8f, 0xca, 0x3f, 0x0f, 0x02,
     0xc1, 0xaf, 0xbd, 0x03, 0x01, 0x13, 0x8a, 0x6b, 0x3a, 0x91, 0x11, 0x41,
     0x4f, 0x67, 0xdc, 0xea, 0x97, 0xf2, 0xcf, 0xce, 0xf0, 0xb4, 0xe6, 0x73,
     0x96, 0xac, 0x74, 0x22, 0xe7, 0xad, 0x35, 0x85, 0xe2, 0xf9, 0x37, 0xe8,
     0x1c, 0x75, 0xdf, 0x6e, 0x47, 0xf1, 0x1a, 0x71, 0x1d, 0x29, 0xc5, 0x89,
     0x6f, 0xb7, 0x62, 0x0e, 0xaa, 0x18, 0xbe, 0x1b, 0xfc, 0x56, 0x3e, 0x4b,
     0xc6, 0xd2, 0x79, 0x20, 0x9a, 0xdb, 0xc0, 0xfe, 0x78, 0xcd, 0x5a, 0xf4,
     0x1f, 0xdd, 0xa8, 0x33, 0x88, 0x07, 0xc7, 0x31, 0xb1, 0x12, 0x10, 0x59,
     0x27, 0x80, 0xec, 0x5f, 0x60, 0x51, 0x7f, 0xa9, 0x19, 0xb5, 0x4a, 0x0d,
     0x2d, 0xe5, 0x7a, 0x9f, 0x93, 0xc9, 0x9c, 0xef, 0xa0, 0xe0, 0x3b, 0x4d,
     0xae, 0x2a, 0xf5, 0xb0, 0xc8, 0xeb, 0xbb, 0x3c, 0x83, 0x53, 0x99, 0x61,
     0x17, 0x2b, 0x04, 0x7e, 0xba, 0x77, 0xd6, 0x26, 0xe1, 0x69, 0x14, 0x63,
     0x55, 0x21, 0x0c, 0x7d]"

definition aes_inv_sub :: "u8 \<Rightarrow> u8" where
  "aes_inv_sub b = aes_inv_sbox ! unat b"

definition aes_inv_shift_rows :: "bytes \<Rightarrow> bytes" where
  "aes_inv_shift_rows st = map (\<lambda>i. st ! ((i + 12 * (i mod 4)) mod 16)) [0..<16]"

definition aes_inv_mix :: "u8 \<Rightarrow> u8 \<Rightarrow> u8 \<Rightarrow> u8 \<Rightarrow> u8" where
  "aes_inv_mix a b c d =
     (let x2 = aes_xtime; x4 = (\<lambda>x. x2 (x2 x)); x8 = (\<lambda>x. x2 (x4 x))
      in (x8 a XOR x4 a XOR x2 a) XOR (x8 b XOR x2 b XOR b) XOR (x8 c XOR x4 c XOR c) XOR (x8 d XOR d))"

definition aes_inv_mix_columns :: "bytes \<Rightarrow> bytes" where
  "aes_inv_mix_columns st = map (\<lambda>i.
     let a = (\<lambda>k. st ! (4 * (i div 4) + (i + k) mod 4))
     in aes_inv_mix (a 0) (a 1) (a 2) (a 3)) [0..<16]"

definition aes_word_step :: "nat \<Rightarrow> bytes list \<Rightarrow> nat \<Rightarrow> bytes list" where
  "aes_word_step nk w i =
     (let p = w ! (i - 1);
          t = (if i mod nk = 0 then xor_bytes (map aes_sub (rotate1 p)) [aes_rcons ! (i div nk - 1), 0, 0, 0]
               else if nk > 6 \<and> i mod nk = 4 then map aes_sub p else p)
      in w @ [xor_bytes (w ! (i - nk)) t])"

definition aes_round_keys :: "bytes \<Rightarrow> bytes list" where
  "aes_round_keys key =
     (let nk = length key div 4;
          w = foldl (aes_word_step nk) (map (\<lambda>i. slice key (4 * i) (4 * i + 4)) [0..<nk]) [nk..<4 * (nk + 7)]
      in map (\<lambda>r. concat (slice w (4 * r) (4 * r + 4))) [0..<nk + 7])"

definition aes_enc_round :: "bytes \<Rightarrow> bytes \<Rightarrow> bytes" where
  "aes_enc_round st k = aes_add_round_key (aes_mix_columns (aes_shift_rows (map aes_sub st))) k"

definition aes_dec_round :: "bytes \<Rightarrow> bytes \<Rightarrow> bytes" where
  "aes_dec_round k st = map aes_inv_sub (aes_inv_shift_rows (aes_inv_mix_columns (aes_add_round_key st k)))"

definition aes_cipher :: "bytes list \<Rightarrow> bytes \<Rightarrow> bytes" where
  "aes_cipher ks st =
     aes_add_round_key
       (aes_shift_rows (map aes_sub (foldl aes_enc_round (aes_add_round_key st (hd ks)) (butlast (tl ks)))))
       (last ks)"

definition aes_inv_cipher :: "bytes list \<Rightarrow> bytes \<Rightarrow> bytes" where
  "aes_inv_cipher ks st =
     aes_add_round_key
       (foldr aes_dec_round (butlast (tl ks))
         (map aes_inv_sub (aes_inv_shift_rows (aes_add_round_key st (last ks)))))
       (hd ks)"

definition aes_key_ok :: "bytes \<Rightarrow> bool" where
  "aes_key_ok key \<longleftrightarrow> length key \<in> {16, 24, 32}"

section \<open>CBC\<close>

fun cbc_encrypt :: "bytes list \<Rightarrow> bytes \<Rightarrow> bytes \<Rightarrow> bytes" where
  "cbc_encrypt ks iv data =
     (if length data < 16 then []
      else let c = aes_cipher ks (xor_bytes (take 16 data) iv) in c @ cbc_encrypt ks c (drop 16 data))"

fun cbc_decrypt :: "bytes list \<Rightarrow> bytes \<Rightarrow> bytes \<Rightarrow> bytes" where
  "cbc_decrypt ks iv data =
     (if length data < 16 then []
      else xor_bytes (aes_inv_cipher ks (take 16 data)) iv @ cbc_decrypt ks (take 16 data) (drop 16 data))"

declare cbc_encrypt.simps [simp del] cbc_decrypt.simps [simp del]

section \<open>SHA-1 and SHA-384\<close>

definition sha1_schedule :: "bytes \<Rightarrow> u32 list" where
  "sha1_schedule block =
     foldl (\<lambda>w t. w @ [word_rotl 1 (w ! (t - 3) XOR w ! (t - 8) XOR w ! (t - 14) XOR w ! (t - 16))])
       (map (\<lambda>i. be_get (slice block (4 * i) (4 * i + 4))) [0..<16]) [16..<80]"

definition sha1_round :: "u32 list \<Rightarrow> nat \<times> u32 \<Rightarrow> u32 list" where
  "sha1_round s tw =
     (let a = s ! 0; b = s ! 1; c = s ! 2; d = s ! 3; e = s ! 4; t = fst tw;
          (f, k) = (if t < 20 then ((b AND c) XOR (NOT b AND d), 0x5a827999)
                    else if t < 40 then (b XOR c XOR d, 0x6ed9eba1)
                    else if t < 60 then ((b AND c) XOR (b AND d) XOR (c AND d), 0x8f1bbcdc)
                    else (b XOR c XOR d, 0xca62c1d6))
      in [word_rotl 5 a + f + e + k + snd tw, a, word_rotl 30 b, c, d])"

definition sha1_block :: "u32 list \<Rightarrow> bytes \<Rightarrow> u32 list" where
  "sha1_block s block =
     (let t = foldl sha1_round s (zip [0..<80] (sha1_schedule block)) in map (\<lambda>i. s ! i + t ! i) [0..<5])"

definition sha1 :: "bytes \<Rightarrow> bytes" where
  "sha1 m =
     (let p = sha_pad m;
          s = foldl (\<lambda>s i. sha1_block s (slice p (64 * i) (64 * i + 64)))
                [0x67452301, 0xefcdab89, 0x98badcfe, 0x10325476, 0xc3d2e1f0] [0..<length p div 64]
      in concat (map (\<lambda>i. be_put 4 (s ! i)) [0..<5]))"

definition sha512_k :: "u64 list" where
  "sha512_k = concat [
     [0x428a2f98d728ae22, 0x7137449123ef65cd, 0xb5c0fbcfec4d3b2f, 0xe9b5dba58189dbbc],
     [0x3956c25bf348b538, 0x59f111f1b605d019, 0x923f82a4af194f9b, 0xab1c5ed5da6d8118],
     [0xd807aa98a3030242, 0x12835b0145706fbe, 0x243185be4ee4b28c, 0x550c7dc3d5ffb4e2],
     [0x72be5d74f27b896f, 0x80deb1fe3b1696b1, 0x9bdc06a725c71235, 0xc19bf174cf692694],
     [0xe49b69c19ef14ad2, 0xefbe4786384f25e3, 0x0fc19dc68b8cd5b5, 0x240ca1cc77ac9c65],
     [0x2de92c6f592b0275, 0x4a7484aa6ea6e483, 0x5cb0a9dcbd41fbd4, 0x76f988da831153b5],
     [0x983e5152ee66dfab, 0xa831c66d2db43210, 0xb00327c898fb213f, 0xbf597fc7beef0ee4],
     [0xc6e00bf33da88fc2, 0xd5a79147930aa725, 0x06ca6351e003826f, 0x142929670a0e6e70],
     [0x27b70a8546d22ffc, 0x2e1b21385c26c926, 0x4d2c6dfc5ac42aed, 0x53380d139d95b3df],
     [0x650a73548baf63de, 0x766a0abb3c77b2a8, 0x81c2c92e47edaee6, 0x92722c851482353b],
     [0xa2bfe8a14cf10364, 0xa81a664bbc423001, 0xc24b8b70d0f89791, 0xc76c51a30654be30],
     [0xd192e819d6ef5218, 0xd69906245565a910, 0xf40e35855771202a, 0x106aa07032bbd1b8],
     [0x19a4c116b8d2d0c8, 0x1e376c085141ab53, 0x2748774cdf8eeb99, 0x34b0bcb5e19b48a8],
     [0x391c0cb3c5c95a63, 0x4ed8aa4ae3418acb, 0x5b9cca4f7763e373, 0x682e6ff3d6b2b8a3],
     [0x748f82ee5defb2fc, 0x78a5636f43172f60, 0x84c87814a1f0ab72, 0x8cc702081a6439ec],
     [0x90befffa23631e28, 0xa4506cebde82bde9, 0xbef9a3f7b2c67915, 0xc67178f2e372532b],
     [0xca273eceea26619c, 0xd186b8c721c0c207, 0xeada7dd6cde0eb1e, 0xf57d4f7fee6ed178],
     [0x06f067aa72176fba, 0x0a637dc5a2c898a6, 0x113f9804bef90dae, 0x1b710b35131c471b],
     [0x28db77f523047d84, 0x32caab7b40c72493, 0x3c9ebe0a15c9bebc, 0x431d67c49c100d4c],
     [0x4cc5d4becb3e42b6, 0x597f299cfc657e2a, 0x5fcb6fab3ad6faec, 0x6c44198c4a475817]]"

definition sha512_schedule :: "bytes \<Rightarrow> u64 list" where
  "sha512_schedule block =
     foldl (\<lambda>w t.
        let w15 = w ! (t - 15); w2 = w ! (t - 2);
            s0 = word_rotr 1 w15 XOR word_rotr 8 w15 XOR drop_bit 7 w15;
            s1 = word_rotr 19 w2 XOR word_rotr 61 w2 XOR drop_bit 6 w2
        in w @ [w ! (t - 16) + s0 + w ! (t - 7) + s1])
       (map (\<lambda>i. be_get (slice block (8 * i) (8 * i + 8))) [0..<16]) [16..<80]"

definition sha512_round :: "u64 list \<Rightarrow> u64 \<times> u64 \<Rightarrow> u64 list" where
  "sha512_round s kw =
     (let a = s ! 0; b = s ! 1; c = s ! 2; d = s ! 3; e = s ! 4; f = s ! 5; g = s ! 6; h = s ! 7;
          s1 = word_rotr 14 e XOR word_rotr 18 e XOR word_rotr 41 e;
          ch = (e AND f) XOR (NOT e AND g);
          t1 = h + s1 + ch + fst kw + snd kw;
          s0 = word_rotr 28 a XOR word_rotr 34 a XOR word_rotr 39 a;
          maj = (a AND b) XOR (a AND c) XOR (b AND c)
      in [t1 + s0 + maj, a, b, c, d + t1, e, f, g])"

definition sha512_block :: "u64 list \<Rightarrow> bytes \<Rightarrow> u64 list" where
  "sha512_block s block =
     (let t = foldl sha512_round s (zip sha512_k (sha512_schedule block)) in map (\<lambda>i. s ! i + t ! i) [0..<8])"

definition sha512_pad :: "bytes \<Rightarrow> bytes" where
  "sha512_pad m =
     m @ [0x80] @ replicate ((239 - length m mod 128) mod 128) 0
       @ be_put 16 (of_nat (8 * length m) :: 128 word)"

definition sha384 :: "bytes \<Rightarrow> bytes" where
  "sha384 m =
     (let p = sha512_pad m;
          s = foldl (\<lambda>s i. sha512_block s (slice p (128 * i) (128 * i + 128)))
                [0xcbbb9d5dc1059ed8, 0x629a292a367cd507, 0x9159015a3070dd17, 0x152fecd8f70e5939,
                 0x67332667ffc00b31, 0x8eb44a8768581511, 0xdb0c2e0d64f98fa7, 0x47b5481dbefa4fa4]
                [0..<length p div 128]
      in concat (map (\<lambda>i. be_put 8 (s ! i)) [0..<6]))"

section \<open>HMAC\<close>

datatype hash_alg = SHA1 | SHA256 | SHA384

fun hash_sum :: "hash_alg \<Rightarrow> bytes \<Rightarrow> bytes" where
  "hash_sum SHA1 m = sha1 m"
| "hash_sum SHA256 m = sha256 m"
| "hash_sum SHA384 m = sha384 m"

fun hash_size :: "hash_alg \<Rightarrow> nat" where
  "hash_size SHA1 = 20"
| "hash_size SHA256 = 32"
| "hash_size SHA384 = 48"

fun hash_block :: "hash_alg \<Rightarrow> nat" where
  "hash_block SHA1 = 64"
| "hash_block SHA256 = 64"
| "hash_block SHA384 = 128"

definition hmac :: "hash_alg \<Rightarrow> bytes \<Rightarrow> bytes \<Rightarrow> bytes" where
  "hmac h key m =
     (let k = (if length key > hash_block h then hash_sum h key else key);
          k = k @ replicate (hash_block h - length k) 0
      in hash_sum h (map (\<lambda>b. b XOR 0x5c) k @ hash_sum h (map (\<lambda>b. b XOR 0x36) k @ m)))"

lemma length_hash_sum [simp]: "length (hash_sum h m) = hash_size h"
  by (cases h) (simp_all add: sha1_def sha384_def Let_def length_concat comp_def sum_list_triv)

lemma length_hmac [simp]: "length (hmac h key m) = hash_size h"
  by (simp add: hmac_def Let_def)

lemma hash_size_pos [simp]: "0 < hash_size h"
  by (cases h) simp_all

lemma hash_size_le: "hash_size h \<le> 48"
  by (cases h) simp_all

section \<open>Decryption undoes encryption\<close>

lemma aes_inv_sbox_table: "list_all (\<lambda>i. aes_inv_sbox ! unat (aes_sbox ! i) = of_nat i) [0..<256]"
  by code_simp

lemma aes_inv_sub_sub [simp]: "aes_inv_sub (aes_sub b) = b"
proof -
  have "unat b < 256" using unsigned_less [of b] by simp
  then show ?thesis using aes_inv_sbox_table by (simp add: aes_inv_sub_def aes_sub_def list_all_iff)
qed

lemma aes_xtime_xor: "aes_xtime (a XOR b) = aes_xtime a XOR aes_xtime b"
  by (simp add: aes_xtime_def bit_xor_iff push_bit_xor xor.left_commute xor.assoc)

lemma aes_inv_mix_col:
  defines "mix \<equiv> \<lambda>a b c d. aes_xtime a XOR (aes_xtime b XOR b) XOR c XOR d"
  shows "aes_inv_mix (mix a b c d) (mix b c d a) (mix c d a b) (mix d a b c) = a"
  unfolding mix_def aes_inv_mix_def Let_def by (simp only: aes_xtime_xor ac_simps) (simp add: bit.xor_left_self)

lemma length_aes_steps [simp]:
  "length (aes_add_round_key st k) = 16" "length (aes_shift_rows st) = 16" "length (aes_mix_columns st) = 16"
  "length (aes_inv_shift_rows st) = 16" "length (aes_inv_mix_columns st) = 16"
  "length (aes_cipher ks st) = 16" "length (aes_inv_cipher ks st) = 16"
  by (simp_all add: aes_add_round_key_def aes_shift_rows_def aes_mix_columns_def aes_inv_shift_rows_def
      aes_inv_mix_columns_def aes_cipher_def aes_inv_cipher_def)

lemma length_16E:
  assumes "length st = 16"
  obtains a0 a1 a2 a3 a4 a5 a6 a7 a8 a9 a10 a11 a12 a13 a14 a15
  where "st = [a0, a1, a2, a3, a4, a5, a6, a7, a8, a9, a10, a11, a12, a13, a14, a15]"
proof -
  have "st = map (\<lambda>i. st ! i) [0..<16]" using map_nth [of st] assms by simp
  also have "\<dots> = [st ! 0, st ! 1, st ! 2, st ! 3, st ! 4, st ! 5, st ! 6, st ! 7, st ! 8, st ! 9, st ! 10,
      st ! 11, st ! 12, st ! 13, st ! 14, st ! 15]" by (simp add: upt_rec eval_nat_numeral)
  finally show ?thesis by (rule that)
qed

lemma aes_add_round_key_twice: "length st = 16 \<Longrightarrow> aes_add_round_key (aes_add_round_key st k) k = st"
  by (rule nth_equalityI) (simp_all add: aes_add_round_key_def xor.assoc)

lemma aes_inv_shift_rows_shift:
  assumes "length st = 16"
  shows "aes_inv_shift_rows (aes_shift_rows st) = st"
  by (rule length_16E [OF assms]) (simp add: aes_inv_shift_rows_def aes_shift_rows_def upt_rec)

lemma aes_inv_mix_columns_mix:
  assumes "length st = 16"
  shows "aes_inv_mix_columns (aes_mix_columns st) = st"
  by (rule length_16E [OF assms])
    (simp add: aes_inv_mix_columns_def aes_mix_columns_def upt_rec aes_inv_mix_col Let_def)

lemma aes_inv_sub_map [simp]: "map aes_inv_sub (map aes_sub st) = st"
  by (simp add: comp_def)

lemma aes_dec_enc_round: "length st = 16 \<Longrightarrow> aes_dec_round k (aes_enc_round st k) = st"
  by (simp add: aes_dec_round_def aes_enc_round_def aes_add_round_key_twice aes_inv_mix_columns_mix
      aes_inv_shift_rows_shift comp_def)

lemma length_aes_enc_round [simp]: "length (aes_enc_round st k) = 16"
  by (simp add: aes_enc_round_def)

lemma length_aes_rounds_fold [simp]: "length st = 16 \<Longrightarrow> length (foldl aes_enc_round st ks) = 16"
  by (induction ks arbitrary: st) simp_all

lemma aes_rounds_inverse: "length st = 16 \<Longrightarrow> foldr aes_dec_round ks (foldl aes_enc_round st ks) = st"
  by (induction ks arbitrary: st) (simp_all add: aes_dec_enc_round)

lemma aes_inv_cipher_cipher [simp]: "length st = 16 \<Longrightarrow> aes_inv_cipher ks (aes_cipher ks st) = st"
  by (simp add: aes_inv_cipher_def aes_cipher_def aes_add_round_key_twice aes_inv_shift_rows_shift
      aes_rounds_inverse comp_def)

lemma xor_bytes_twice: "length xs \<le> length ys \<Longrightarrow> xor_bytes (xor_bytes xs ys) ys = xs"
  by (rule nth_equalityI) (simp_all add: xor.assoc)

lemma length_cbc_encrypt [simp]: "16 dvd length data \<Longrightarrow> length (cbc_encrypt ks iv data) = length data"
proof (induction ks iv data rule: cbc_encrypt.induct)
  case (1 ks iv data)
  show ?case
  proof (cases "length data < 16")
    case True
    then have "data = []" using "1.prems" by (auto dest: dvd_imp_le)
    then show ?thesis by (simp add: cbc_encrypt.simps)
  next
    case False
    then have "length (cbc_encrypt ks (aes_cipher ks (xor_bytes (take 16 data) iv)) (drop 16 data)) = length (drop 16 data)"
      using "1.IH" [OF False refl] "1.prems" by (simp add: dvd_diff_nat)
    then show ?thesis using False by (simp add: cbc_encrypt.simps [of ks iv data] Let_def)
  qed
qed

lemma length_cbc_decrypt [simp]: "length iv = 16 \<Longrightarrow> 16 dvd length data \<Longrightarrow> length (cbc_decrypt ks iv data) = length data"
proof (induction ks iv data rule: cbc_decrypt.induct)
  case (1 ks iv data)
  show ?case
  proof (cases "length data < 16")
    case True
    then have "data = []" using "1.prems" by (auto dest: dvd_imp_le)
    then show ?thesis by (simp add: cbc_decrypt.simps)
  next
    case False
    then have "length (cbc_decrypt ks (take 16 data) (drop 16 data)) = length (drop 16 data)"
      using "1.IH" [OF False] "1.prems" by (simp add: dvd_diff_nat)
    then show ?thesis using False "1.prems" by (simp add: cbc_decrypt.simps [of ks iv data])
  qed
qed

lemma cbc_decrypt_encrypt: "length iv = 16 \<Longrightarrow> 16 dvd length data \<Longrightarrow> cbc_decrypt ks iv (cbc_encrypt ks iv data) = data"
proof (induction ks iv data rule: cbc_encrypt.induct)
  case (1 ks iv data)
  show ?case
  proof (cases "length data < 16")
    case True
    then have "data = []" using "1.prems" by (auto dest: dvd_imp_le)
    then show ?thesis by (simp add: cbc_encrypt.simps cbc_decrypt.simps)
  next
    case False
    define c where "c = aes_cipher ks (xor_bytes (take 16 data) iv)"
    have "cbc_decrypt ks c (cbc_encrypt ks c (drop 16 data)) = drop 16 data"
      using "1.IH" [OF False c_def] "1.prems" by (simp add: c_def dvd_diff_nat)
    moreover have "cbc_encrypt ks iv data = c @ cbc_encrypt ks c (drop 16 data)"
      using False by (simp add: cbc_encrypt.simps [of ks iv data] c_def Let_def)
    moreover have "length c = 16" "xor_bytes (aes_inv_cipher ks c) iv = take 16 data"
      using False "1.prems" by (simp_all add: c_def xor_bytes_twice)
    ultimately show ?thesis by (simp add: cbc_decrypt.simps [of ks iv])
  qed
qed

end
