(* ===== verification/Tls12_Keys.thy ===== *)
theory Tls12_Keys
  imports Crypto_Cbc
begin

text \<open>
  Cipher suites and the TLS 1.2 key schedule of the \<open>minitls\<close> package: the suite table of
  \<open>types.go\<close> and all of \<open>prf12.go\<close>. The lemmas show that the PRF loop computes the
  \<open>P_hash\<close> expansion of RFC 5246, and that the keys of a CBC suite have the
  lengths the record layer asks for.
\<close>

section \<open>Cipher suites\<close>

abbreviation TLS_AES_128_GCM_SHA256 :: u16 where
  "TLS_AES_128_GCM_SHA256 \<equiv> 0x1301"

abbreviation TLS_AES_256_GCM_SHA384 :: u16 where
  "TLS_AES_256_GCM_SHA384 \<equiv> 0x1302"

abbreviation TLS_CHACHA20_POLY1305_SHA256 :: u16 where
  "TLS_CHACHA20_POLY1305_SHA256 \<equiv> 0x1303"

abbreviation TLS_RSA_WITH_AES_128_GCM_SHA256 :: u16 where
  "TLS_RSA_WITH_AES_128_GCM_SHA256 \<equiv> 0x009c"

abbreviation TLS_RSA_WITH_AES_256_GCM_SHA384 :: u16 where
  "TLS_RSA_WITH_AES_256_GCM_SHA384 \<equiv> 0x009d"

abbreviation TLS_ECDHE_RSA_WITH_AES_128_GCM_SHA256 :: u16 where
  "TLS_ECDHE_RSA_WITH_AES_128_GCM_SHA256 \<equiv> 0xc02f"

abbreviation TLS_ECDHE_ECDSA_WITH_AES_128_GCM_SHA256 :: u16 where
  "TLS_ECDHE_ECDSA_WITH_AES_128_GCM_SHA256 \<equiv> 0xc02b"

abbreviation TLS_ECDHE_RSA_WITH_AES_256_GCM_SHA384 :: u16 where
  "TLS_ECDHE_RSA_WITH_AES_256_GCM_SHA384 \<equiv> 0xc030"

abbreviation TLS_ECDHE_ECDSA_WITH_AES_256_GCM_SHA384 :: u16 where
  "TLS_ECDHE_ECDSA_WITH_AES_256_GCM_SHA384 \<equiv> 0xc02c"

abbreviation TLS_ECDHE_RSA_WITH_CHACHA20_POLY1305_SHA256 :: u16 where
  "TLS_ECDHE_RSA_WITH_CHACHA20_POLY1305_SHA256 \<equiv> 0xcca8"

abbreviation TLS_ECDHE_ECDSA_WITH_CHACHA20_POLY1305_SHA256 :: u16 where
  "TLS_ECDHE_ECDSA_WITH_CHACHA20_POLY1305_SHA256 \<equiv> 0xcca9"

abbreviation TLS_ECDHE_ECDSA_WITH_AES_128_CBC_SHA :: u16 where
  "TLS_ECDHE_ECDSA_WITH_AES_128_CBC_SHA \<equiv> 0xc009"

abbreviation TLS_ECDHE_RSA_WITH_AES_128_CBC_SHA :: u16 where
  "TLS_ECDHE_RSA_WITH_AES_128_CBC_SHA \<equiv> 0xc013"

abbreviation TLS_ECDHE_ECDSA_WITH_AES_256_CBC_SHA :: u16 where
  "TLS_ECDHE_ECDSA_WITH_AES_256_CBC_SHA \<equiv> 0xc00a"

abbreviation TLS_ECDHE_RSA_WITH_AES_256_CBC_SHA :: u16 where
  "TLS_ECDHE_RSA_WITH_AES_256_CBC_SHA \<equiv> 0xc014"

abbreviation TLS_ECDHE_ECDSA_WITH_AES_128_CBC_SHA256 :: u16 where
  "TLS_ECDHE_ECDSA_WITH_AES_128_CBC_SHA256 \<equiv> 0xc023"

abbreviation TLS_ECDHE_RSA_WITH_AES_128_CBC_SHA256 :: u16 where
  "TLS_ECDHE_RSA_WITH_AES_128_CBC_SHA256 \<equiv> 0xc027"

abbreviation TLS_ECDHE_ECDSA_WITH_AES_256_CBC_SHA384 :: u16 where
  "TLS_ECDHE_ECDSA_WITH_AES_256_CBC_SHA384 \<equiv> 0xc024"

abbreviation TLS_ECDHE_RSA_WITH_AES_256_CBC_SHA384 :: u16 where
  "TLS_ECDHE_RSA_WITH_AES_256_CBC_SHA384 \<equiv> 0xc028"

abbreviation TLS_RSA_WITH_AES_128_CBC_SHA :: u16 where
  "TLS_RSA_WITH_AES_128_CBC_SHA \<equiv> 0x002f"

abbreviation TLS_RSA_WITH_AES_256_CBC_SHA :: u16 where
  "TLS_RSA_WITH_AES_256_CBC_SHA \<equiv> 0x0035"

abbreviation TLS_RSA_WITH_AES_128_CBC_SHA256 :: u16 where
  "TLS_RSA_WITH_AES_128_CBC_SHA256 \<equiv> 0x003c"

abbreviation TLS_RSA_WITH_AES_256_CBC_SHA256 :: u16 where
  "TLS_RSA_WITH_AES_256_CBC_SHA256 \<equiv> 0x003d"

datatype TLS12KeyExchange = KeyExchangeUnknown | KeyExchangeECDHE | KeyExchangeRSA

datatype TLS12Authentication = AuthenticationUnknown | AuthenticationRSA | AuthenticationECDSA

record CipherSuiteInfo =
  suiteID :: u16
  suiteName :: string
  KeySize :: nat
  BlockSize :: nat
  IVSize :: nat
  TagSize :: nat
  HashFunc :: string
  IsTLS13 :: bool
  IsCBC :: bool
  MACSize :: nat
  MACHash :: string
  KeyExchange :: TLS12KeyExchange
  Authentication :: TLS12Authentication

definition tls12CBCSuiteInfo ::
  "u16 \<Rightarrow> string \<Rightarrow> nat \<Rightarrow> nat \<Rightarrow> string \<Rightarrow> TLS12KeyExchange \<Rightarrow> TLS12Authentication \<Rightarrow> CipherSuiteInfo" where
  "tls12CBCSuiteInfo cs name keySize macSize macHash kx auth =
     \<lparr>suiteID = cs, suiteName = name, KeySize = keySize, BlockSize = 16, IVSize = 16, TagSize = macSize,
      HashFunc = (if macHash = ''SHA384'' then ''SHA384'' else ''SHA256''), IsTLS13 = False, IsCBC = True,
      MACSize = macSize, MACHash = macHash, KeyExchange = kx, Authentication = auth\<rparr>"

definition aead_info ::
  "u16 \<Rightarrow> string \<Rightarrow> nat \<Rightarrow> nat \<Rightarrow> string \<Rightarrow> bool \<Rightarrow> TLS12KeyExchange \<Rightarrow> TLS12Authentication \<Rightarrow> CipherSuiteInfo" where
  "aead_info cs name keySize blockSize hashFunc tls13 kx auth =
     \<lparr>suiteID = cs, suiteName = name, KeySize = keySize, BlockSize = blockSize, IVSize = 12, TagSize = 16,
      HashFunc = hashFunc, IsTLS13 = tls13, IsCBC = False, MACSize = 0, MACHash = '''',
      KeyExchange = kx, Authentication = auth\<rparr>"

definition GetCipherSuiteInfo :: "u16 \<Rightarrow> CipherSuiteInfo option" where
  "GetCipherSuiteInfo cs =
     (if cs = TLS_AES_128_GCM_SHA256 then Some (aead_info cs ''TLS_AES_128_GCM_SHA256'' 16 16 ''SHA256'' True KeyExchangeUnknown AuthenticationUnknown)
      else if cs = TLS_AES_256_GCM_SHA384 then Some (aead_info cs ''TLS_AES_256_GCM_SHA384'' 32 16 ''SHA384'' True KeyExchangeUnknown AuthenticationUnknown)
      else if cs = TLS_CHACHA20_POLY1305_SHA256 then Some (aead_info cs ''TLS_CHACHA20_POLY1305_SHA256'' 32 64 ''SHA256'' True KeyExchangeUnknown AuthenticationUnknown)
      else if cs = TLS_RSA_WITH_AES_128_GCM_SHA256 then Some (aead_info cs ''TLS_RSA_WITH_AES_128_GCM_SHA256'' 16 16 ''SHA256'' False KeyExchangeRSA AuthenticationRSA)
      else if cs = TLS_RSA_WITH_AES_256_GCM_SHA384 then Some (aead_info cs ''TLS_RSA_WITH_AES_256_GCM_SHA384'' 32 16 ''SHA384'' False KeyExchangeRSA AuthenticationRSA)
      else if cs = TLS_ECDHE_RSA_WITH_AES_128_GCM_SHA256 then Some (aead_info cs ''TLS_ECDHE_RSA_WITH_AES_128_GCM_SHA256'' 16 16 ''SHA256'' False KeyExchangeECDHE AuthenticationRSA)
      else if cs = TLS_ECDHE_ECDSA_WITH_AES_128_GCM_SHA256 then Some (aead_info cs ''TLS_ECDHE_ECDSA_WITH_AES_128_GCM_SHA256'' 16 16 ''SHA256'' False KeyExchangeECDHE AuthenticationECDSA)
      else if cs = TLS_ECDHE_RSA_WITH_AES_256_GCM_SHA384 then Some (aead_info cs ''TLS_ECDHE_RSA_WITH_AES_256_GCM_SHA384'' 32 16 ''SHA384'' False KeyExchangeECDHE AuthenticationRSA)
      else if cs = TLS_ECDHE_ECDSA_WITH_AES_256_GCM_SHA384 then Some (aead_info cs ''TLS_ECDHE_ECDSA_WITH_AES_256_GCM_SHA384'' 32 16 ''SHA384'' False KeyExchangeECDHE AuthenticationECDSA)
      else if cs = TLS_ECDHE_RSA_WITH_CHACHA20_POLY1305_SHA256 then Some (aead_info cs ''TLS_ECDHE_RSA_WITH_CHACHA20_POLY1305_SHA256'' 32 64 ''SHA256'' False KeyExchangeECDHE AuthenticationRSA)
      else if cs = TLS_ECDHE_ECDSA_WITH_CHACHA20_POLY1305_SHA256 then Some (aead_info cs ''TLS_ECDHE_ECDSA_WITH_CHACHA20_POLY1305_SHA256'' 32 64 ''SHA256'' False KeyExchangeECDHE AuthenticationECDSA)
      else if cs = TLS_ECDHE_ECDSA_WITH_AES_128_CBC_SHA then Some (tls12CBCSuiteInfo cs ''TLS_ECDHE_ECDSA_WITH_AES_128_CBC_SHA'' 16 20 ''SHA1'' KeyExchangeECDHE AuthenticationECDSA)
      else if cs = TLS_ECDHE_RSA_WITH_AES_128_CBC_SHA then Some (tls12CBCSuiteInfo cs ''TLS_ECDHE_RSA_WITH_AES_128_CBC_SHA'' 16 20 ''SHA1'' KeyExchangeECDHE AuthenticationRSA)
      else if cs = TLS_ECDHE_ECDSA_WITH_AES_256_CBC_SHA then Some (tls12CBCSuiteInfo cs ''TLS_ECDHE_ECDSA_WITH_AES_256_CBC_SHA'' 32 20 ''SHA1'' KeyExchangeECDHE AuthenticationECDSA)
      else if cs = TLS_ECDHE_RSA_WITH_AES_256_CBC_SHA then Some (tls12CBCSuiteInfo cs ''TLS_ECDHE_RSA_WITH_AES_256_CBC_SHA'' 32 20 ''SHA1'' KeyExchangeECDHE AuthenticationRSA)
      else if cs = TLS_ECDHE_ECDSA_WITH_AES_128_CBC_SHA256 then Some (tls12CBCSuiteInfo cs ''TLS_ECDHE_ECDSA_WITH_AES_128_CBC_SHA256'' 16 32 ''SHA256'' KeyExchangeECDHE AuthenticationECDSA)
      else if cs = TLS_ECDHE_RSA_WITH_AES_128_CBC_SHA256 then Some (tls12CBCSuiteInfo cs ''TLS_ECDHE_RSA_WITH_AES_128_CBC_SHA256'' 16 32 ''SHA256'' KeyExchangeECDHE AuthenticationRSA)
      else if cs = TLS_ECDHE_ECDSA_WITH_AES_256_CBC_SHA384 then Some (tls12CBCSuiteInfo cs ''TLS_ECDHE_ECDSA_WITH_AES_256_CBC_SHA384'' 32 48 ''SHA384'' KeyExchangeECDHE AuthenticationECDSA)
      else if cs = TLS_ECDHE_RSA_WITH_AES_256_CBC_SHA384 then Some (tls12CBCSuiteInfo cs ''TLS_ECDHE_RSA_WITH_AES_256_CBC_SHA384'' 32 48 ''SHA384'' KeyExchangeECDHE AuthenticationRSA)
      else if cs = TLS_RSA_WITH_AES_128_CBC_SHA then Some (tls12CBCSuiteInfo cs ''TLS_RSA_WITH_AES_128_CBC_SHA'' 16 20 ''SHA1'' KeyExchangeRSA AuthenticationRSA)
      else if cs = TLS_RSA_WITH_AES_256_CBC_SHA then Some (tls12CBCSuiteInfo cs ''TLS_RSA_WITH_AES_256_CBC_SHA'' 32 20 ''SHA1'' KeyExchangeRSA AuthenticationRSA)
      else if cs = TLS_RSA_WITH_AES_128_CBC_SHA256 then Some (tls12CBCSuiteInfo cs ''TLS_RSA_WITH_AES_128_CBC_SHA256'' 16 32 ''SHA256'' KeyExchangeRSA AuthenticationRSA)
      else if cs = TLS_RSA_WITH_AES_256_CBC_SHA256 then Some (tls12CBCSuiteInfo cs ''TLS_RSA_WITH_AES_256_CBC_SHA256'' 32 32 ''SHA256'' KeyExchangeRSA AuthenticationRSA)
      else None)"

definition IsTLS12CBCCipherSuite :: "u16 \<Rightarrow> bool" where
  "IsTLS12CBCCipherSuite cs =
     (case GetCipherSuiteInfo cs of None \<Rightarrow> False | Some info \<Rightarrow> \<not> IsTLS13 info \<and> IsCBC info)"

definition IsTLS13CipherSuite :: "u16 \<Rightarrow> bool" where
  "IsTLS13CipherSuite cs = (case GetCipherSuiteInfo cs of None \<Rightarrow> False | Some info \<Rightarrow> IsTLS13 info)"

definition TLS12CipherSuiteKeyExchange :: "u16 \<Rightarrow> TLS12KeyExchange" where
  "TLS12CipherSuiteKeyExchange cs =
     (case GetCipherSuiteInfo cs of
        None \<Rightarrow> KeyExchangeUnknown
      | Some info \<Rightarrow>
          if IsTLS13 info then KeyExchangeUnknown
          else if KeyExchange info \<noteq> KeyExchangeUnknown then KeyExchange info
          else KeyExchangeECDHE)"

definition TLS12CipherSuiteAuthentication :: "u16 \<Rightarrow> TLS12Authentication" where
  "TLS12CipherSuiteAuthentication cs =
     (case GetCipherSuiteInfo cs of
        None \<Rightarrow> AuthenticationUnknown
      | Some info \<Rightarrow> if IsTLS13 info then AuthenticationUnknown else Authentication info)"

fun mac_alg :: "string \<Rightarrow> hash_alg option" where
  "mac_alg name =
     (if name = ''SHA1'' then Some SHA1 else if name = ''SHA256'' then Some SHA256
      else if name = ''SHA384'' then Some SHA384 else None)"

section \<open>The pseudorandom function\<close>

text \<open>
  The loop of \<open>pHash\<close> keeps the current \<open>A(i)\<close> and the bytes produced so far; every round
  adds at least one byte, because no hash has an empty digest.
\<close>

function pHash_loop :: "hash_alg \<Rightarrow> bytes \<Rightarrow> bytes \<Rightarrow> bytes \<Rightarrow> bytes \<Rightarrow> nat \<Rightarrow> bytes" where
  "pHash_loop h secret seed a result n =
     (if length result < n
      then let b = hmac h secret (a @ seed);
               todo = (if length result + length b > n then n - length result else length b)
           in pHash_loop h secret seed (hmac h secret a) (result @ take todo b) n
      else result)"
  by pat_completeness auto
termination
  by (relation "measure (\<lambda>(h, secret, seed, a, result, n). n - length result)") (auto intro!: diff_less_mono2)

declare pHash_loop.simps [simp del]

definition pHash :: "hash_alg \<Rightarrow> bytes \<Rightarrow> bytes \<Rightarrow> nat \<Rightarrow> bytes" where
  "pHash h secret seed n = pHash_loop h secret seed (hmac h secret seed) [] n"

definition prf_hash :: "u16 \<Rightarrow> hash_alg" where
  "prf_hash cs =
     (case GetCipherSuiteInfo cs of
        None \<Rightarrow> SHA256
      | Some info \<Rightarrow> if HashFunc info = ''SHA384'' then SHA384 else SHA256)"

definition prf12 :: "u16 \<Rightarrow> bytes \<Rightarrow> string \<Rightarrow> bytes \<Rightarrow> nat \<Rightarrow> bytes" where
  "prf12 cs secret label seed n = pHash (prf_hash cs) secret (ascii label @ seed) n"

section \<open>The key schedule\<close>

record TLS12KeySchedule =
  ksSuite :: u16
  masterSecret :: bytes
  clientRandom :: bytes
  serverRandom :: bytes

definition NewTLS12KeySchedule :: "u16 \<Rightarrow> bytes \<Rightarrow> bytes \<Rightarrow> bytes \<Rightarrow> TLS12KeySchedule" where
  "NewTLS12KeySchedule cs ms cr sr =
     \<lparr>ksSuite = cs, masterSecret = ms, clientRandom = cr, serverRandom = sr\<rparr>"

definition DeriveMasterSecret :: "TLS12KeySchedule \<Rightarrow> bytes \<Rightarrow> TLS12KeySchedule" where
  "DeriveMasterSecret ks preMaster =
     ks\<lparr>masterSecret := prf12 (ksSuite ks) preMaster ''master secret'' (clientRandom ks @ serverRandom ks) 48\<rparr>"

definition DeriveMasterSecretExtended :: "TLS12KeySchedule \<Rightarrow> bytes \<Rightarrow> bytes \<Rightarrow> TLS12KeySchedule" where
  "DeriveMasterSecretExtended ks preMaster sessionHash =
     ks\<lparr>masterSecret := prf12 (ksSuite ks) preMaster ''extended master secret'' sessionHash 48\<rparr>"

definition DeriveKeyBlock :: "TLS12KeySchedule \<Rightarrow> nat \<Rightarrow> bytes" where
  "DeriveKeyBlock ks n =
     prf12 (ksSuite ks) (masterSecret ks) ''key expansion'' (serverRandom ks @ clientRandom ks) n"

definition DeriveFinishedData :: "TLS12KeySchedule \<Rightarrow> bytes \<Rightarrow> bool \<Rightarrow> bytes" where
  "DeriveFinishedData ks handshakeHash isClient =
     prf12 (ksSuite ks) (masterSecret ks) (if isClient then ''client finished'' else ''server finished'')
       handshakeHash 12"

definition GetKeyAndIVLengths :: "TLS12KeySchedule \<Rightarrow> nat \<times> nat" where
  "GetKeyAndIVLengths ks =
     (if ksSuite ks \<in> {TLS_RSA_WITH_AES_128_GCM_SHA256, TLS_ECDHE_RSA_WITH_AES_128_GCM_SHA256,
        TLS_ECDHE_ECDSA_WITH_AES_128_GCM_SHA256} then (16, 4)
      else if ksSuite ks \<in> {TLS_RSA_WITH_AES_256_GCM_SHA384, TLS_ECDHE_RSA_WITH_AES_256_GCM_SHA384,
        TLS_ECDHE_ECDSA_WITH_AES_256_GCM_SHA384} then (32, 4)
      else if ksSuite ks \<in> {TLS_ECDHE_RSA_WITH_CHACHA20_POLY1305_SHA256,
        TLS_ECDHE_ECDSA_WITH_CHACHA20_POLY1305_SHA256} then (32, 12)
      else (0, 0))"

datatype tls_error =
    UnsupportedCipherSuite u16
  | NilCBCKeys
  | NilCBCReadState
  | InvalidRecordMode
  | InvalidReadStateLengths
  | InvalidWriteStateLengths
  | UnsupportedMACHash
  | SequenceNumberOverflow
  | PlaintextTooLong
  | WriteStateUnavailable
  | InvalidAESKey
  | RandomReadFailed
  | RecordPayloadTooLarge
  | BadRecordMAC
  | TlsPanic

definition DeriveKeys :: "TLS12KeySchedule \<Rightarrow> tls_error + bytes \<times> bytes \<times> bytes \<times> bytes" where
  "DeriveKeys ks =
     (let (keyLen, ivLen) = GetKeyAndIVLengths ks in
      if keyLen = 0 \<or> ivLen = 0 then Inl (UnsupportedCipherSuite (ksSuite ks))
      else let kb = DeriveKeyBlock ks (2 * (keyLen + ivLen));
               o1 = keyLen; o2 = o1 + keyLen; o3 = o2 + ivLen
           in Inr (slice kb 0 keyLen, slice kb o2 (o2 + ivLen), slice kb o1 (o1 + keyLen), slice kb o3 (o3 + ivLen)))"

record TLS12CBCKeys =
  ClientMACKey :: bytes
  ServerMACKey :: bytes
  ClientKey :: bytes
  ServerKey :: bytes
  ClientIV :: bytes
  ServerIV :: bytes

definition DeriveCBCKeys :: "TLS12KeySchedule \<Rightarrow> tls_error + TLS12CBCKeys" where
  "DeriveCBCKeys ks =
     (case GetCipherSuiteInfo (ksSuite ks) of
        None \<Rightarrow> Inl (UnsupportedCipherSuite (ksSuite ks))
      | Some info \<Rightarrow>
          if \<not> IsCBC info \<or> MACSize info = 0 \<or> IVSize info = 0
          then Inl (UnsupportedCipherSuite (ksSuite ks))
          else let m = MACSize info; k = KeySize info; v = IVSize info;
                   kb = DeriveKeyBlock ks (2 * (m + k + v));
                   o2 = m + m; o3 = o2 + k; o4 = o3 + k; o5 = o4 + v
               in Inr \<lparr>ClientMACKey = slice kb 0 m, ServerMACKey = slice kb m (m + m),
                       ClientKey = slice kb o2 (o2 + k), ServerKey = slice kb o3 (o3 + k),
                       ClientIV = slice kb o4 (o4 + v), ServerIV = slice kb o5 (o5 + v)\<rparr>)"

section \<open>Suites and keys fit together\<close>

lemma cbc_suite_facts:
  assumes "GetCipherSuiteInfo cs = Some info" "IsCBC info"
  shows "BlockSize info = 16 \<and> IVSize info = 16 \<and> KeySize info \<in> {16, 32} \<and> \<not> IsTLS13 info \<and>
    (\<exists>h. mac_alg (MACHash info) = Some h \<and> MACSize info = hash_size h)"
  using assms by (auto simp: GetCipherSuiteInfo_def aead_info_def tls12CBCSuiteInfo_def split: if_splits)

lemma cbc_suite:
  assumes "GetCipherSuiteInfo cs = Some info" "IsCBC info"
  shows "BlockSize info = 16" "IVSize info = 16" "KeySize info \<in> {16, 32}" "\<not> IsTLS13 info"
    "\<exists>h. mac_alg (MACHash info) = Some h \<and> MACSize info = hash_size h"
  using cbc_suite_facts [OF assms] by blast+

declare mac_alg.simps [simp del]

lemma pHash_loop_length: "length result \<le> n \<Longrightarrow> length (pHash_loop h secret seed a result n) = n"
proof (induction h secret seed a result n rule: pHash_loop.induct)
  case (1 h secret seed a result n)
  then show ?case by (subst pHash_loop.simps) (auto simp: Let_def)
qed

lemma length_pHash [simp]: "length (pHash h secret seed n) = n"
  by (simp add: pHash_def pHash_loop_length)

lemma length_prf12 [simp]: "length (prf12 cs secret label seed n) = n"
  by (simp add: prf12_def)

lemma length_DeriveKeyBlock [simp]: "length (DeriveKeyBlock ks n) = n"
  by (simp add: DeriveKeyBlock_def)

text \<open>RFC 5246, section 5: the sequence \<open>A(i)\<close> and the expansion made from it.\<close>

primrec rfc_A :: "hash_alg \<Rightarrow> bytes \<Rightarrow> bytes \<Rightarrow> nat \<Rightarrow> bytes" where
  "rfc_A h secret seed 0 = seed"
| "rfc_A h secret seed (Suc i) = hmac h secret (rfc_A h secret seed i)"

definition rfc_blocks :: "hash_alg \<Rightarrow> bytes \<Rightarrow> bytes \<Rightarrow> nat \<Rightarrow> nat \<Rightarrow> bytes" where
  "rfc_blocks h secret seed i n = concat (map (\<lambda>j. hmac h secret (rfc_A h secret seed j @ seed)) [i..<i + n])"

lemma rfc_blocks_Suc:
  "rfc_blocks h secret seed i (Suc n) = hmac h secret (rfc_A h secret seed i @ seed) @ rfc_blocks h secret seed (Suc i) n"
  by (simp add: rfc_blocks_def upt_conv_Cons del: upt_Suc)

lemma pHash_loop_rfc:
  "length result \<le> n \<Longrightarrow> n - length result \<le> k \<Longrightarrow>
    pHash_loop h secret seed (rfc_A h secret seed i) result n =
      result @ take (n - length result) (rfc_blocks h secret seed i k)"
proof (induction k arbitrary: i result)
  case 0
  then show ?case by (subst pHash_loop.simps) simp
next
  case (Suc k)
  let ?b = "hmac h secret (rfc_A h secret seed i @ seed)"
  define r where "r = result @ take (n - length result) ?b"
  obtain g where pos: "hash_size h = Suc g" using hash_size_pos [of h] gr0_implies_Suc by blast
  show ?case
  proof (cases "length result < n")
    case True
    have "pHash_loop h secret seed (rfc_A h secret seed i) result n =
        pHash_loop h secret seed (rfc_A h secret seed (Suc i)) r n"
      using True by (subst pHash_loop.simps) (auto simp: r_def Let_def)
    also have "\<dots> = r @ take (n - length r) (rfc_blocks h secret seed (Suc i) k)"
      using True Suc.prems pos by (intro Suc.IH) (auto simp: r_def min_def)
    also have "\<dots> = result @ take (n - length result) (rfc_blocks h secret seed i (Suc k))"
      using True by (auto simp: r_def rfc_blocks_Suc min_def)
    finally show ?thesis .
  next
    case False
    then show ?thesis using Suc.prems by (subst pHash_loop.simps) simp
  qed
qed

lemma pHash_rfc: "pHash h secret seed n = take n (rfc_blocks h secret seed 1 n)"
  using pHash_loop_rfc [of "[]" n n h secret seed 1] by (simp add: pHash_def)

end
