(* ===== verification/Cbc_Record.thy ===== *)
theory Cbc_Record
  imports Tls12_Keys
begin

text \<open>
  The TLS 1.2 AES-CBC record layer, \<open>minitls/cbc12.go\<close>: contexts, their construction from keys
  or from a handed-over read state, encryption and decryption of one record in both
  record modes, and the constant-time padding check. A mutex-protected method is one
  operation; the reader of the explicit IV is the argument \<open>rng\<close>. Slice and nil
  panics of the source are the error \<open>TlsPanic\<close>.
\<close>

section \<open>Contexts\<close>

datatype TLS12CBCRecordMode = ModeUnspecified | MACThenEncrypt | EncryptThenMAC

record TLS12CBCReadState =
  rsCipherSuite :: u16
  rsMode :: TLS12CBCRecordMode
  rsReadKey :: bytes
  rsReadMACKey :: bytes
  rsReadIV :: bytes
  rsReadSequence :: u64

record TLS12CBCContext =
  writeKey :: bytes
  writeMACKey :: bytes
  writeIV :: bytes
  readKey :: bytes
  readMACKey :: bytes
  readIV :: bytes
  writeSeq :: u64
  readSeq :: u64
  cbcSuite :: u16
  cbcMode :: TLS12CBCRecordMode

definition validateRead :: "TLS12CBCContext \<Rightarrow> tls_error + unit" where
  "validateRead ctx =
     (case GetCipherSuiteInfo (cbcSuite ctx) of
        None \<Rightarrow> Inl (UnsupportedCipherSuite (cbcSuite ctx))
      | Some info \<Rightarrow>
          if \<not> IsCBC info then Inl (UnsupportedCipherSuite (cbcSuite ctx))
          else if cbcMode ctx \<noteq> MACThenEncrypt \<and> cbcMode ctx \<noteq> EncryptThenMAC then Inl InvalidRecordMode
          else if length (readKey ctx) \<noteq> KeySize info \<or> length (readMACKey ctx) \<noteq> MACSize info \<or>
            length (readIV ctx) \<noteq> IVSize info then Inl InvalidReadStateLengths
          else if MACHash info \<in> {''SHA1'', ''SHA256'', ''SHA384''} then Inr ()
          else Inl UnsupportedMACHash)"

definition validate :: "TLS12CBCContext \<Rightarrow> tls_error + unit" where
  "validate ctx =
     bindE (validateRead ctx) (\<lambda>_.
       case GetCipherSuiteInfo (cbcSuite ctx) of
         None \<Rightarrow> Inl TlsPanic
       | Some info \<Rightarrow>
           if length (writeKey ctx) \<noteq> KeySize info \<or> length (writeMACKey ctx) \<noteq> MACSize info \<or>
             length (writeIV ctx) \<noteq> IVSize info then Inl InvalidWriteStateLengths
           else Inr ())"

definition NewTLS12CBCContext ::
  "TLS12CBCKeys option \<Rightarrow> u16 \<Rightarrow> TLS12CBCRecordMode \<Rightarrow> tls_error + TLS12CBCContext" where
  "NewTLS12CBCContext keys cs mode =
     (case keys of
        None \<Rightarrow> Inl NilCBCKeys
      | Some k \<Rightarrow>
          let ctx = \<lparr>writeKey = ClientKey k, writeMACKey = ClientMACKey k, writeIV = ClientIV k,
                     readKey = ServerKey k, readMACKey = ServerMACKey k, readIV = ServerIV k,
                     writeSeq = 0, readSeq = 0, cbcSuite = cs, cbcMode = mode\<rparr>
          in bindE (validate ctx) (\<lambda>_. Inr ctx))"

definition NewTLS12CBCReadContext :: "TLS12CBCReadState option \<Rightarrow> tls_error + TLS12CBCContext" where
  "NewTLS12CBCReadContext state =
     (case state of
        None \<Rightarrow> Inl NilCBCReadState
      | Some s \<Rightarrow>
          let ctx = \<lparr>writeKey = [], writeMACKey = [], writeIV = [],
                     readKey = rsReadKey s, readMACKey = rsReadMACKey s, readIV = rsReadIV s,
                     writeSeq = 0, readSeq = rsReadSequence s, cbcSuite = rsCipherSuite s, cbcMode = rsMode s\<rparr>
          in bindE (validateRead ctx) (\<lambda>_. Inr ctx))"

definition ExportReadState :: "TLS12CBCContext \<Rightarrow> TLS12CBCReadState" where
  "ExportReadState ctx =
     \<lparr>rsCipherSuite = cbcSuite ctx, rsMode = cbcMode ctx, rsReadKey = readKey ctx, rsReadMACKey = readMACKey ctx,
      rsReadIV = readIV ctx, rsReadSequence = readSeq ctx\<rparr>"

definition cbc_destroy :: "TLS12CBCContext \<Rightarrow> TLS12CBCContext" where
  "cbc_destroy ctx =
     ctx\<lparr>writeKey := [], writeMACKey := [], writeIV := [], readKey := [], readMACKey := [], readIV := [],
         writeSeq := 0, readSeq := 0, cbcSuite := 0, cbcMode := ModeUnspecified\<rparr>"

section \<open>Padding and MAC\<close>

definition appendTLSPadding :: "bytes \<Rightarrow> nat \<Rightarrow> bytes" where
  "appendTLSPadding xs blockSize =
     (let paddingBytes = blockSize - length xs mod blockSize
      in xs @ replicate paddingBytes (of_nat (paddingBytes - 1)))"

definition roundUpTLS12 :: "nat \<Rightarrow> nat \<Rightarrow> nat" where
  "roundUpTLS12 value multiple = value + (multiple - value mod multiple) mod multiple"

text \<open>The sign bit of a 64-bit difference truncated to 32 bits, spread over a byte.\<close>

definition sign_mask :: "u64 \<Rightarrow> u8" where
  "sign_mask t = ucast (signed_drop_bit 31 (ucast (NOT t) :: u32))"

definition extractTLS12Padding :: "bytes \<Rightarrow> nat \<times> u8" where
  "extractTLS12Padding payload =
     (if length payload < 1 then (0, 0)
      else
        let paddingLen = payload ! (length payload - 1);
            good = sign_mask (of_nat (length payload - 1) - ucast paddingLen);
            toCheck = (if 256 > length payload then length payload else 256);
            good = foldl (\<lambda>good i.
                let m = sign_mask (ucast paddingLen - of_nat i);
                    b = payload ! (length payload - 1 - i)
                in good AND NOT ((m AND paddingLen) XOR (m AND b))) good [0..<toCheck];
            good = good AND push_bit 4 good;
            good = good AND push_bit 2 good;
            good = good AND push_bit 1 good;
            good = signed_drop_bit 7 good
        in (unat (paddingLen AND good) + 1, good))"

definition tls12CBCMAC :: "bytes \<Rightarrow> u16 \<Rightarrow> u64 \<Rightarrow> u8 \<Rightarrow> nat \<Rightarrow> bytes \<Rightarrow> tls_error + bytes" where
  "tls12CBCMAC macKey cs sq contentType n data =
     (case GetCipherSuiteInfo cs of
        None \<Rightarrow> Inl TlsPanic
      | Some info \<Rightarrow>
          (case mac_alg (MACHash info) of
             None \<Rightarrow> Inl TlsPanic
           | Some h \<Rightarrow>
               Inr (hmac h macKey
                 (be_put 8 sq @ [contentType] @ be_put 2 (0x0303 :: u16) @ be_put 2 (of_nat n :: u16) @ data))))"

section \<open>Records\<close>

definition validTLS12CBCHeader :: "bytes \<Rightarrow> bytes \<Rightarrow> bool" where
  "validTLS12CBCHeader header payload =
     (if length header \<noteq> 5 \<or> length payload > 16384 + 2048 then False
      else if (be_get (slice header 1 3) :: u16) \<noteq> 0x0303 then False
      else unat (be_get (slice header 3 5) :: u16) = length payload)"

definition encrypt_body :: "TLS12CBCContext \<Rightarrow> bytes \<Rightarrow> u8 \<Rightarrow> bytes \<Rightarrow> tls_error + bytes" where
  "encrypt_body ctx rng contentType plaintext =
     (if writeSeq ctx = - 1 then Inl SequenceNumberOverflow
      else if length plaintext > 16384 then Inl PlaintextTooLong
      else if writeKey ctx = [] then Inl WriteStateUnavailable
      else if \<not> aes_key_ok (writeKey ctx) then Inl InvalidAESKey
      else
        bindE (readFull RandomReadFailed rng 16) (\<lambda>(explicitIV, _).
        bindE (if cbcMode ctx = MACThenEncrypt
               then bindE (tls12CBCMAC (writeMACKey ctx) (cbcSuite ctx) (writeSeq ctx) contentType
                      (length plaintext) plaintext) (\<lambda>mac. Inr (plaintext @ mac))
               else Inr plaintext) (\<lambda>encryptedPlaintext.
        let ciphertext = cbc_encrypt (aes_round_keys (writeKey ctx)) explicitIV (appendTLSPadding encryptedPlaintext 16);
            encryptedFragment = explicitIV @ ciphertext
        in
        bindE (if cbcMode ctx = EncryptThenMAC
               then bindE (tls12CBCMAC (writeMACKey ctx) (cbcSuite ctx) (writeSeq ctx) contentType
                      (length encryptedFragment) encryptedFragment) (\<lambda>mac. Inr (encryptedFragment @ mac))
               else Inr encryptedFragment) (\<lambda>payload.
        if length payload > 16384 + 2048 then Inl RecordPayloadTooLarge
        else Inr ([contentType, 0x03, 0x03] @ be_put 2 (of_nat (length payload) :: u16) @ payload)))))"

definition EncryptRecord ::
  "TLS12CBCContext \<Rightarrow> bytes \<Rightarrow> u8 \<Rightarrow> bytes \<Rightarrow> TLS12CBCContext \<times> (tls_error + bytes)" where
  "EncryptRecord ctx rng contentType plaintext =
     (case encrypt_body ctx rng contentType plaintext of
        Inl e \<Rightarrow> (ctx, Inl e)
      | Inr r \<Rightarrow> (ctx\<lparr>writeSeq := writeSeq ctx + 1\<rparr>, Inr r))"

definition check_etm :: "TLS12CBCContext \<Rightarrow> u8 \<Rightarrow> bytes \<Rightarrow> tls_error + bytes" where
  "check_etm ctx contentType payload =
     (case GetCipherSuiteInfo (cbcSuite ctx) of
        None \<Rightarrow> Inl TlsPanic
      | Some info \<Rightarrow>
          if length payload < MACSize info then Inl BadRecordMAC
          else let fragment = take (length payload - MACSize info) payload;
                   remoteMAC = drop (length payload - MACSize info) payload
               in bindE (tls12CBCMAC (readMACKey ctx) (cbcSuite ctx) (readSeq ctx) contentType
                    (length fragment) fragment) (\<lambda>localMAC.
                  if localMAC \<noteq> remoteMAC then Inl BadRecordMAC else Inr fragment))"

definition open_mte :: "TLS12CBCContext \<Rightarrow> u8 \<Rightarrow> bytes \<Rightarrow> nat \<Rightarrow> u8 \<Rightarrow> tls_error + bytes" where
  "open_mte ctx contentType p toRemove good =
     (case GetCipherSuiteInfo (cbcSuite ctx) of
        None \<Rightarrow> Inl TlsPanic
      | Some info \<Rightarrow>
          let n0 = int (length p) - int (MACSize info) - int toRemove;
              n = (if bit (word_of_int n0 :: u32) 31 then 0 else n0)
          in if n + int (MACSize info) > int (length p) then Inl BadRecordMAC
             else if n < 0 then Inl TlsPanic
             else
               bindE (tls12CBCMAC (readMACKey ctx) (cbcSuite ctx) (readSeq ctx) contentType (nat n) (take (nat n) p))
                 (\<lambda>localMAC.
                    let remoteMAC = slice p (nat n) (nat n + MACSize info);
                        macAndPaddingGood = (if localMAC = remoteMAC then 1 else 0 :: int) AND uint good
                    in if macAndPaddingGood \<noteq> 1 \<or> n > 16384 then Inl BadRecordMAC
                       else Inr (take (nat n) p)))"

definition open_etm :: "bytes \<Rightarrow> nat \<Rightarrow> u8 \<Rightarrow> tls_error + bytes" where
  "open_etm p toRemove good =
     (if good \<noteq> 255 \<or> toRemove > length p then Inl BadRecordMAC
      else let plaintext = take (length p - toRemove) p
           in if length plaintext > 16384 then Inl BadRecordMAC else Inr plaintext)"

definition decrypt_body :: "TLS12CBCContext \<Rightarrow> bytes \<Rightarrow> bytes \<Rightarrow> tls_error + bytes" where
  "decrypt_body ctx header payload =
     (if readSeq ctx = - 1 then Inl SequenceNumberOverflow
      else if \<not> validTLS12CBCHeader header payload then Inl BadRecordMAC
      else
        bindE (if cbcMode ctx = EncryptThenMAC then check_etm ctx (header ! 0) payload else Inr payload) (\<lambda>fragment.
        if \<not> aes_key_ok (readKey ctx) then Inl BadRecordMAC
        else
        bindE (if cbcMode ctx = MACThenEncrypt
               then case GetCipherSuiteInfo (cbcSuite ctx) of
                      None \<Rightarrow> Inl TlsPanic
                    | Some info \<Rightarrow> Inr (roundUpTLS12 (MACSize info + 1) 16)
               else Inr 16) (\<lambda>minimumCiphertext.
        if length fragment < 16 + minimumCiphertext \<or> (length fragment - 16) mod 16 \<noteq> 0 then Inl BadRecordMAC
        else
          let explicitIV = take 16 fragment;
              p = cbc_decrypt (aes_round_keys (readKey ctx)) explicitIV (drop 16 fragment)
          in case extractTLS12Padding p of
               (toRemove, good) \<Rightarrow>
                 if cbcMode ctx = EncryptThenMAC then open_etm p toRemove good
                 else open_mte ctx (header ! 0) p toRemove good)))"

definition DecryptRecord ::
  "TLS12CBCContext \<Rightarrow> bytes \<Rightarrow> bytes \<Rightarrow> TLS12CBCContext \<times> (tls_error + bytes)" where
  "DecryptRecord ctx header payload =
     (case decrypt_body ctx header payload of
        Inl e \<Rightarrow> (ctx, Inl e)
      | Inr p \<Rightarrow> (ctx\<lparr>readSeq := readSeq ctx + 1\<rparr>, Inr p))"

end
