(* ===== verification/Cbc_Padding.thy ===== *)
theory Cbc_Padding
  imports Cbc_Record
begin

text \<open>
  The constant-time padding check of the CBC record layer against its specification: the last
  byte is the padding length, and that many bytes and one more, at the end, have its value.
\<close>

section \<open>Specification\<close>

definition padding_valid :: "bytes \<Rightarrow> bool" where
  "padding_valid p \<longleftrightarrow>
     p \<noteq> [] \<and> unat (last p) < length p \<and> list_all (\<lambda>b. b = last p) (drop (length p - (unat (last p) + 1)) p)"

definition padding_length :: "bytes \<Rightarrow> nat" where
  "padding_length p = (if padding_valid p then unat (last p) + 1 else 1)"

section \<open>Masks\<close>

lemma ones_255: "(255 :: u8) = - 1"
  by simp

lemma sign_mask_bit: "sign_mask t = (if bit t 31 then 0 else 255)"
  unfolding ones_255
  by (rule bit_word_eqI) (auto simp: sign_mask_def bit_unsigned_iff bit_signed_drop_bit_iff bit_not_iff not_less_eq_eq)

lemma not_bit_31_of_nat: "n < 2 ^ 31 \<Longrightarrow> \<not> bit (of_nat n :: u64) 31"
  by (simp add: bit_of_nat_iff bit_nat_def)

lemma sign_mask_diff:
  assumes "a < 2 ^ 31" "b < 2 ^ 31"
  shows "sign_mask (of_nat a - of_nat b) = (if b \<le> a then 255 else 0)"
proof (cases "b \<le> a")
  case True
  then have "(of_nat a - of_nat b :: u64) = of_nat (a - b)" by simp
  moreover have "\<not> bit (of_nat (a - b) :: u64) 31" by (rule not_bit_31_of_nat) (use assms in linarith)
  ultimately show ?thesis using True by (simp only: sign_mask_bit) simp
next
  case False
  have "(of_nat (b - a - 1) :: u64) = of_nat b - of_nat a - 1"
    using False by (simp only: of_nat_diff diff_diff_left of_nat_add of_nat_1) (simp add: of_nat_diff)
  then have "(of_nat a - of_nat b :: u64) = NOT (of_nat (b - a - 1))"
    by (simp only: not_eq_complement) simp
  moreover have "\<not> bit (of_nat (b - a - 1) :: u64) 31" by (rule not_bit_31_of_nat) (use assms in linarith)
  ultimately have "bit (of_nat a - of_nat b :: u64) 31" by (simp only: bit_not_iff) simp
  then show ?thesis using False by (simp only: sign_mask_bit) simp
qed

definition collapse :: "u8 \<Rightarrow> u8" where
  "collapse good =
     (let good = good AND push_bit 4 good; good = good AND push_bit 2 good; good = good AND push_bit 1 good
      in signed_drop_bit 7 good)"

lemma all_below_8: "(\<forall>n < 8. P n) \<longleftrightarrow> P 0 \<and> P 1 \<and> P 2 \<and> P 3 \<and> P 4 \<and> P 5 \<and> P 6 \<and> P (7 :: nat)"
proof -
  have "n < 8 \<longleftrightarrow> n \<in> {0, 1, 2, 3, 4, 5, 6, 7}" for n :: nat by (simp, presburger)
  then have "(\<forall>n < 8. P n) \<longleftrightarrow> (\<forall>n \<in> {0, 1, 2, 3, 4, 5, 6, 7}. P n)" by blast
  then show ?thesis by simp
qed

lemma byte_255: "g = 255 \<longleftrightarrow> (\<forall>n < 8. bit g n)" for g :: u8
  unfolding ones_255 by (auto intro: bit_word_eqI)

lemma collapse_byte: "collapse g = (if g = 255 then 255 else 0)"
proof -
  define r where "r = (let g = g AND push_bit 4 g; g = g AND push_bit 2 g in g AND push_bit 1 g)"
  have "bit r 7 \<longleftrightarrow> g = 255"
    unfolding r_def byte_255 all_below_8 Let_def by (simp only: bit_and_iff bit_push_bit_iff) auto
  moreover have "signed_drop_bit 7 r = (if bit r 7 then 255 else 0)"
    unfolding ones_255 by (rule bit_word_eqI) (auto simp: bit_signed_drop_bit_iff not_less_eq_eq)
  moreover have "collapse g = signed_drop_bit 7 r" by (simp add: collapse_def r_def Let_def)
  ultimately show ?thesis by simp
qed

lemma clear_bits_255: "g AND NOT x = 255 \<longleftrightarrow> g = 255 \<and> x = (0 :: u8)"
  unfolding ones_255 and_eq_minus_1_iff by (simp add: not_eq_complement)

lemma fold_clear_bits:
  fixes g :: u8
  shows "foldl (\<lambda>g i. g AND NOT (f i)) g xs = 255 \<longleftrightarrow> g = 255 \<and> (\<forall>i \<in> set xs. f i = 0)"
  by (induction xs arbitrary: g) (auto simp: clear_bits_255)

section \<open>The check meets its specification\<close>

lemma padding_valid_nth:
  "padding_valid p \<longleftrightarrow> p \<noteq> [] \<and> unat (last p) < length p \<and>
     (\<forall>i. i \<le> unat (last p) \<longrightarrow> p ! (length p - 1 - i) = last p)"
proof -
  define k where "k = unat (last p)"
  have "list_all (\<lambda>b. b = last p) (drop (length p - (k + 1)) p) \<longleftrightarrow> (\<forall>i. i \<le> k \<longrightarrow> p ! (length p - 1 - i) = last p)"
    if len: "k < length p"
  proof -
    have "list_all (\<lambda>b. b = last p) (drop (length p - (k + 1)) p) \<longleftrightarrow>
        (\<forall>j < k + 1. p ! (length p - (k + 1) + j) = last p)"
      using len by (simp add: list_all_length)
    also have "\<dots> \<longleftrightarrow> (\<forall>i. i \<le> k \<longrightarrow> p ! (length p - 1 - i) = last p)"
    proof safe
      fix i assume *: "\<forall>j < k + 1. p ! (length p - (k + 1) + j) = last p" "i \<le> k"
      then have "length p - (k + 1) + (k - i) = length p - 1 - i" using len by simp
      moreover have "p ! (length p - (k + 1) + (k - i)) = last p" using * by (simp del: add_diff_assoc)
      ultimately show "p ! (length p - 1 - i) = last p" by metis
    next
      fix j assume *: "\<forall>i. i \<le> k \<longrightarrow> p ! (length p - 1 - i) = last p" "j < k + 1"
      then have "length p - 1 - (k - j) = length p - (k + 1) + j" using len by simp
      moreover have "p ! (length p - 1 - (k - j)) = last p" by (rule *(1) [rule_format]) simp
      ultimately show "p ! (length p - (k + 1) + j) = last p" by metis
    qed
    finally show ?thesis .
  qed
  then show ?thesis unfolding padding_valid_def k_def by blast
qed

lemma byte_xor_0: "a XOR b = 0 \<longleftrightarrow> b = (a :: u8)"
  by (metis bit.xor_left_self xor.right_neutral bit.xor_self)

lemma masked_difference:
  fixes a b :: u8
  shows "((if c then 255 else 0) AND a) XOR ((if c then 255 else 0) AND b) = 0 \<longleftrightarrow> (c \<longrightarrow> b = a)"
  unfolding ones_255 by (cases c) (auto simp: byte_xor_0)

lemma extract_padding:
  assumes "p \<noteq> []" "length p < 2 ^ 31"
  shows "extractTLS12Padding p = (padding_length p, if padding_valid p then 255 else 0)"
proof -
  define k where "k = unat (last p)"
  have last: "p ! (length p - 1) = last p" using assms(1) by (simp add: last_conv_nth)
  have "k < 256" using unsigned_less [of "last p", where ?'a = nat] by (simp add: k_def)
  then have k: "k < 2 ^ 31" "k \<le> 255" "(ucast (last p) :: u64) = of_nat k" by (simp_all add: k_def)
  have s1: "sign_mask (of_nat (length p - 1) - ucast (last p)) = (if k \<le> length p - 1 then 255 else 0)"
    using sign_mask_diff [of "length p - 1" k] assms(2) k by (simp add: k(3))
  have s2: "sign_mask (ucast (last p) - of_nat i) = (if i \<le> k then 255 else 0)" if "i < 256" for i
    using sign_mask_diff [of k i] that k by (simp add: k(3))
  let ?n = "if 256 > length p then length p else 256"
  define g where "g = foldl (\<lambda>g i. g AND NOT ((sign_mask (ucast (last p) - of_nat i) AND last p) XOR
      (sign_mask (ucast (last p) - of_nat i) AND p ! (length p - 1 - i))))
      (sign_mask (of_nat (length p - 1) - ucast (last p))) [0..<?n]"
  have "g = 255 \<longleftrightarrow> k \<le> length p - 1 \<and> (\<forall>i < ?n. i \<le> k \<longrightarrow> p ! (length p - 1 - i) = last p)"
    unfolding g_def fold_clear_bits s1 by (auto simp: s2 masked_difference)
  also have "\<dots> \<longleftrightarrow> padding_valid p"
    unfolding padding_valid_nth k_def [symmetric] using assms(1) k(2) by (cases p) (auto simp: less_Suc_eq_le)
  finally have g: "g = 255 \<longleftrightarrow> padding_valid p" .
  have "extractTLS12Padding p = (unat (last p AND collapse g) + 1, collapse g)"
    unfolding extractTLS12Padding_def collapse_def Let_def last g_def using assms(1) by (simp add: Suc_le_eq)
  then have e: "extractTLS12Padding p = (unat (last p AND collapse g) + 1, collapse g)" .
  show ?thesis
  proof (cases "padding_valid p")
    case True
    have "collapse g = - 1" using g True by (simp add: collapse_byte)
    then show ?thesis using True by (simp only: e ones_255 padding_length_def and.right_neutral if_True)
  next
    case False
    then have "collapse g = 0" using g by (simp only: collapse_byte if_False)
    then show ?thesis using False by (simp only: e padding_length_def bit.conj_zero_right unsigned_0 if_False add_0)
  qed
qed

end
