(* ===== verification/Cbc_Properties.thy ===== *)
theory Cbc_Properties
  imports Cbc_Padding
begin

text \<open>
  Properties of the TLS 1.2 CBC record layer: the derived keys partition the RFC expansion and make
  valid contexts, the constant-time padding check decides the padding of RFC 5246, a
  record written by one side is read by the other, and what a reader accepts is authenticated
  for its own sequence number.
\<close>

section \<open>Valid contexts\<close>

text \<open>The input of the MAC: sequence number, content type, version, length and data.\<close>

definition mac_input :: "u64 \<Rightarrow> u8 \<Rightarrow> bytes \<Rightarrow> bytes" where
  "mac_input sq contentType data =
     be_put 8 sq @ [contentType] @ be_put 2 (0x0303 :: u16) @ be_put 2 (of_nat (length data) :: u16) @ data"

lemma mac_alg_hash: "mac_alg name = Some h \<Longrightarrow> name \<in> {''SHA1'', ''SHA256'', ''SHA384''}"
  by (simp add: mac_alg.simps split: if_splits)

lemma validateRead_iff:
  "validateRead ctx = Inr () \<longleftrightarrow>
     (\<exists>info. GetCipherSuiteInfo (cbcSuite ctx) = Some info \<and> IsCBC info \<and> cbcMode ctx \<in> {MACThenEncrypt, EncryptThenMAC} \<and>
        length (readKey ctx) = KeySize info \<and> length (readMACKey ctx) = MACSize info \<and> length (readIV ctx) = 16)"
proof (cases "GetCipherSuiteInfo (cbcSuite ctx)")
  case (Some info)
  have "IVSize info = 16" "MACHash info \<in> {''SHA1'', ''SHA256'', ''SHA384''}" if "IsCBC info"
    using cbc_suite(2,5) [OF Some that] mac_alg_hash by blast+
  then show ?thesis by (cases "IsCBC info") (auto simp: validateRead_def Some)
qed (simp add: validateRead_def)

lemma validate_readE:
  assumes "validateRead ctx = Inr ()"
  obtains info h where "GetCipherSuiteInfo (cbcSuite ctx) = Some info" "mac_alg (MACHash info) = Some h"
    "MACSize info = hash_size h" "aes_key_ok (readKey ctx)" "cbcMode ctx = MACThenEncrypt \<or> cbcMode ctx = EncryptThenMAC"
    "length (readKey ctx) = KeySize info" "KeySize info \<noteq> 0"
proof -
  obtain info where i: "GetCipherSuiteInfo (cbcSuite ctx) = Some info" "IsCBC info"
    "cbcMode ctx \<in> {MACThenEncrypt, EncryptThenMAC}" "length (readKey ctx) = KeySize info"
    using assms unfolding validateRead_iff by blast
  obtain h where "mac_alg (MACHash info) = Some h" "MACSize info = hash_size h" using cbc_suite(5) [OF i(1,2)] by blast
  moreover have "aes_key_ok (readKey ctx)" "KeySize info \<noteq> 0" using cbc_suite(3) [OF i(1,2)] i(4) by (auto simp: aes_key_ok_def)
  ultimately show ?thesis using i(3) by (intro that [OF i(1)]) (auto simp: i(4))
qed

lemma tls12CBCMAC_eq:
  assumes "GetCipherSuiteInfo cs = Some info" "mac_alg (MACHash info) = Some h"
  shows "tls12CBCMAC key cs sq ct (length data) data = Inr (hmac h key (mac_input sq ct data))"
  using assms by (simp add: tls12CBCMAC_def mac_input_def)

section \<open>Padding of a written record\<close>

lemma append_padding:
  defines "pad xs \<equiv> 16 - length xs mod 16"
  shows "appendTLSPadding xs 16 = xs @ replicate (pad xs) (of_nat (pad xs - 1))" "0 < pad xs" "pad xs \<le> 16"
    "16 dvd length (appendTLSPadding xs 16)"
proof -
  show e: "appendTLSPadding xs 16 = xs @ replicate (pad xs) (of_nat (pad xs - 1))"
    by (simp add: appendTLSPadding_def pad_def Let_def)
  show "0 < pad xs" "pad xs \<le> 16" by (simp_all add: pad_def)
  have "length xs + pad xs = 16 * (length xs div 16 + 1)" unfolding pad_def by (simp add: algebra_simps) presburger
  then show "16 dvd length (appendTLSPadding xs 16)" unfolding e by simp
qed

lemma extract_appended:
  assumes "length xs < 2 ^ 30"
  shows "extractTLS12Padding (appendTLSPadding xs 16) = (16 - length xs mod 16, 255)"
proof -
  define n where "n = 16 - length xs mod 16"
  have n: "0 < n" "n \<le> 16" by (simp_all add: n_def)
  define p where "p = appendTLSPadding xs 16"
  have p: "p = xs @ replicate n (of_nat (n - 1))" unfolding p_def n_def by (rule append_padding(1))
  obtain k where k: "n = Suc k" "k < 16" using n by (cases n) auto
  have last: "last p = of_nat (n - 1)" using n by (simp add: p)
  have unat: "unat (last p) + 1 = n" unfolding last using k by (simp add: unsigned_of_nat take_bit_nat_eq_self)
  have "drop (length p - (unat (last p) + 1)) p = replicate n (of_nat (n - 1))" unfolding unat by (simp add: p)
  then have "list_all (\<lambda>b. b = last p) (drop (length p - (unat (last p) + 1)) p)" unfolding last by (simp add: list_all_iff)
  moreover have "unat (last p) < length p" "p \<noteq> []" using unat n by (simp_all add: p)
  ultimately have v: "padding_valid p" unfolding padding_valid_def by blast
  have "p \<noteq> []" "length p < 2 ^ 31" using n assms by (simp_all add: p)
  from extract_padding [OF this] v unat show ?thesis by (simp add: padding_length_def p_def [symmetric] n_def [symmetric])
qed

section \<open>Writing and reading one record\<close>

definition record_header :: "u8 \<Rightarrow> bytes \<Rightarrow> bytes" where
  "record_header ct payload = [ct, 0x03, 0x03] @ be_put 2 (of_nat (length payload) :: u16)"

lemma record_header_valid: "length payload \<le> 18432 \<Longrightarrow> validTLS12CBCHeader (record_header ct payload) payload"
proof -
  assume len: "length payload \<le> 18432"
  have "slice (record_header ct payload) 1 3 = [0x03, 0x03]" "length (record_header ct payload) = 5"
    "slice (record_header ct payload) 3 5 = be_put 2 (of_nat (length payload) :: u16)"
    by (simp_all add: record_header_def slice_def eval_nat_numeral)
  moreover have "(be_get [0x03, 0x03] :: u16) = 0x0303" by code_simp
  moreover have "unat (of_nat (length payload) :: u16) = length payload"
    using len by (simp add: unsigned_of_nat take_bit_nat_eq_self)
  ultimately show ?thesis using len by (simp add: validTLS12CBCHeader_def)
qed

definition peers :: "TLS12CBCContext \<Rightarrow> TLS12CBCContext \<Rightarrow> bool" where
  "peers tx rx \<longleftrightarrow> writeKey tx = readKey rx \<and> writeMACKey tx = readMACKey rx \<and> cbcSuite tx = cbcSuite rx \<and>
     cbcMode tx = cbcMode rx \<and> writeSeq tx = readSeq rx"

lemma decrypted_fragment:
  assumes "length iv = 16"
  shows "cbc_decrypt ks (take 16 (iv @ cbc_encrypt ks iv (appendTLSPadding xs 16)))
      (drop 16 (iv @ cbc_encrypt ks iv (appendTLSPadding xs 16))) = appendTLSPadding xs 16"
  using assms append_padding(4) [of xs] by (simp add: cbc_decrypt_encrypt)

lemma fragment_length:
  assumes "length iv = 16"
  shows "length (iv @ cbc_encrypt ks iv (appendTLSPadding xs 16)) = 16 + length xs + (16 - length xs mod 16)"
    "16 dvd length (iv @ cbc_encrypt ks iv (appendTLSPadding xs 16)) - 16"
proof -
  have l: "length (iv @ cbc_encrypt ks iv (appendTLSPadding xs 16)) = 16 + length (appendTLSPadding xs 16)"
    using assms append_padding(4) [of xs] by simp
  show "length (iv @ cbc_encrypt ks iv (appendTLSPadding xs 16)) = 16 + length xs + (16 - length xs mod 16)"
    unfolding l by (simp add: append_padding(1))
  show "16 dvd length (iv @ cbc_encrypt ks iv (appendTLSPadding xs 16)) - 16"
    unfolding l using append_padding(4) [of xs] by simp
qed

lemma mte_roundtrip:
  assumes v: "validateRead rx = Inr ()" and peers: "peers tx rx" and mode: "cbcMode rx = MACThenEncrypt"
    and sq: "readSeq rx \<noteq> - 1" and len: "length m \<le> 16384" and rng: "16 \<le> length rng"
  obtains payload where "encrypt_body tx rng ct m = Inr (record_header ct payload @ payload)"
    "decrypt_body rx (record_header ct payload) payload = Inr m"
proof -
  obtain info h where i: "GetCipherSuiteInfo (cbcSuite rx) = Some info" "mac_alg (MACHash info) = Some h"
    "MACSize info = hash_size h" "aes_key_ok (readKey rx)" "length (readKey rx) = KeySize info" "KeySize info \<noteq> 0"
    using v by (rule validate_readE)
  define mac where "mac = hmac h (readMACKey rx) (mac_input (readSeq rx) ct m)"
  define iv where "iv = take 16 rng"
  define ks where "ks = aes_round_keys (readKey rx)"
  define p where "p = appendTLSPadding (m @ mac) 16"
  define payload where "payload = iv @ cbc_encrypt ks iv p"
  have iv: "length iv = 16" using rng by (simp add: iv_def)
  have h: "length mac = hash_size h" "hash_size h \<le> 48" by (simp_all add: mac_def hash_size_le)
  define n where "n = 16 - length (m @ mac) mod 16"
  have n: "0 < n" "n \<le> 16" by (simp_all add: n_def)
  have pl: "length payload = 16 + length (m @ mac) + n" "16 dvd length payload - 16"
    using fragment_length [OF iv, of ks "m @ mac"] unfolding payload_def p_def n_def by simp_all
  have MAC: "tls12CBCMAC (readMACKey rx) (cbcSuite rx) (readSeq rx) ct (length m) m = Inr mac"
    unfolding mac_def by (rule tls12CBCMAC_eq [OF i(1,2)])
  have "readKey rx \<noteq> []" using i(5,6) by auto
  then have enc: "encrypt_body tx rng ct m = Inr (record_header ct payload @ payload)"
    using peers mode sq len rng i(4) MAC pl h n
    by (simp add: encrypt_body_def peers_def readFull_def Let_def record_header_def payload_def p_def ks_def iv_def)
  have p: "p = (m @ mac) @ replicate n (of_nat (n - 1))" unfolding p_def n_def by (rule append_padding(1))
  have ext: "extractTLS12Padding p = (n, 255)"
    using extract_appended [of "m @ mac"] len h unfolding p_def n_def by simp
  have dec: "cbc_decrypt ks (take 16 payload) (drop 16 payload) = p"
    unfolding payload_def p_def by (rule decrypted_fragment [OF iv])
  have round: "16 + roundUpTLS12 (hash_size h + 1) 16 \<le> length payload"
  proof -
    have "roundUpTLS12 (hash_size h + 1) 16 \<le> length payload - 16"
    proof -
      obtain j where j: "length payload - 16 = 16 * j" using pl(2) by (elim dvdE)
      have "hash_size h + 1 \<le> 16 * j" using pl(1) h n unfolding j [symmetric] by simp
      then show ?thesis unfolding j by (cases h) (simp_all add: roundUpTLS12_def)
    qed
    then show ?thesis using pl(1) by simp
  qed
  have opn: "open_mte rx ct p n 255 = Inr m"
  proof -
    have l: "length p = length m + hash_size h + n" using h by (simp add: p)
    then have n0: "int (length p) - int (hash_size h) - int n = int (length m)" by simp
    have "\<not> bit (word_of_int (int (length m)) :: u32) 31" using len
      by (simp add: bit_of_nat_iff bit_nat_def)
    moreover have "slice p (length m) (length m + hash_size h) = mac" using h by (simp add: p slice_def)
    moreover have "take (length m) p = m" by (simp add: p)
    ultimately show ?thesis using MAC len l by (simp add: open_mte_def i n0 Let_def)
  qed
  have "record_header ct payload ! 0 = ct" by (simp add: record_header_def)
  then have "decrypt_body rx (record_header ct payload) payload = Inr m"
    using sq mode i(1,3,4) round pl(2) dec ext opn record_header_valid [of payload ct] pl(1) len h n
    by (simp add: decrypt_body_def ks_def mod_eq_0_iff_dvd)
  then show ?thesis using enc that by blast
qed

lemma etm_roundtrip:
  assumes v: "validateRead rx = Inr ()" and peers: "peers tx rx" and mode: "cbcMode rx = EncryptThenMAC"
    and sq: "readSeq rx \<noteq> - 1" and len: "length m \<le> 16384" and rng: "16 \<le> length rng"
  obtains payload where "encrypt_body tx rng ct m = Inr (record_header ct payload @ payload)"
    "decrypt_body rx (record_header ct payload) payload = Inr m"
proof -
  obtain info h where i: "GetCipherSuiteInfo (cbcSuite rx) = Some info" "mac_alg (MACHash info) = Some h"
    "MACSize info = hash_size h" "aes_key_ok (readKey rx)" "length (readKey rx) = KeySize info" "KeySize info \<noteq> 0"
    using v by (rule validate_readE)
  define iv where "iv = take 16 rng"
  define ks where "ks = aes_round_keys (readKey rx)"
  define p where "p = appendTLSPadding m 16"
  define frag where "frag = iv @ cbc_encrypt ks iv p"
  define mac where "mac = hmac h (readMACKey rx) (mac_input (readSeq rx) ct frag)"
  define payload where "payload = frag @ mac"
  have iv: "length iv = 16" using rng by (simp add: iv_def)
  have h: "length mac = hash_size h" "hash_size h \<le> 48" by (simp_all add: mac_def hash_size_le)
  define n where "n = 16 - length m mod 16"
  have n: "0 < n" "n \<le> 16" by (simp_all add: n_def)
  have fl: "length frag = 16 + length m + n" "16 dvd length frag - 16"
    using fragment_length [OF iv, of ks m] unfolding frag_def p_def n_def by simp_all
  have pl: "length payload \<le> 18432" using fl len h n by (simp add: payload_def)
  have MAC: "tls12CBCMAC (readMACKey rx) (cbcSuite rx) (readSeq rx) ct (length frag) frag = Inr mac"
    unfolding mac_def by (rule tls12CBCMAC_eq [OF i(1,2)])
  have "readKey rx \<noteq> []" using i(5,6) by auto
  then have enc: "encrypt_body tx rng ct m = Inr (record_header ct payload @ payload)"
    using peers mode sq len rng i(4) MAC pl
    by (simp add: encrypt_body_def peers_def readFull_def Let_def record_header_def payload_def frag_def p_def ks_def iv_def)
  have p: "p = m @ replicate n (of_nat (n - 1))" unfolding p_def n_def by (rule append_padding(1))
  have ext: "extractTLS12Padding p = (n, 255)"
    using extract_appended [of m] len unfolding p_def n_def by simp
  have dec: "cbc_decrypt ks (take 16 frag) (drop 16 frag) = p"
    unfolding frag_def p_def by (rule decrypted_fragment [OF iv])
  have opn: "open_etm p n 255 = Inr m" using len by (simp add: open_etm_def p Let_def)
  have chk: "check_etm rx ct payload = Inr frag" using MAC h by (simp add: check_etm_def i Let_def payload_def)
  have ge: "32 \<le> length frag"
  proof -
    obtain j where "length frag - 16 = 16 * j" using fl(2) by (elim dvdE)
    then show ?thesis using fl(1) n by (cases j) simp_all
  qed
  have "record_header ct payload ! 0 = ct" by (simp add: record_header_def)
  then have "decrypt_body rx (record_header ct payload) payload = Inr m"
    using sq mode i(4) ge fl(2) dec ext opn chk record_header_valid [OF pl, of ct]
    by (simp add: decrypt_body_def ks_def mod_eq_0_iff_dvd)
  then show ?thesis using enc that by blast
qed

section \<open>What a reader accepts\<close>

definition suite_mac :: "u16 \<Rightarrow> hash_alg option" where
  "suite_mac cs = Option.bind (GetCipherSuiteInfo cs) (\<lambda>info. mac_alg (MACHash info))"

lemma valid_header:
  assumes "validTLS12CBCHeader header payload"
  shows "header = record_header (header ! 0) payload" "length payload \<le> 18432"
proof -
  have len: "length header = 5" and v: "(be_get (slice header 1 3) :: u16) = 0x0303"
    and l: "unat (be_get (slice header 3 5) :: u16) = length payload" and "length payload \<le> 18432"
    using assms by (auto simp: validTLS12CBCHeader_def split: if_splits)
  then show "length payload \<le> 18432" by simp
  have "be_put 2 (be_get (slice header 1 3) :: u16) = slice header 1 3" using len by (intro be_put_16) (simp add: slice_def)
  moreover have "be_put 2 (0x0303 :: u16) = [0x03, 0x03]" by code_simp
  ultimately have a: "slice header 1 3 = [0x03, 0x03]" using v by simp
  have "be_put 2 (be_get (slice header 3 5) :: u16) = slice header 3 5" using len by (intro be_put_16) (simp add: slice_def)
  moreover have "(be_get (slice header 3 5) :: u16) = of_nat (length payload)" unfolding l [symmetric] by simp
  ultimately have b: "slice header 3 5 = be_put 2 (of_nat (length payload) :: u16)" by simp
  have "header = slice header 0 1 @ slice header 1 3 @ slice header 3 5"
    using slice_join [of 3 3 5 header] slice_join [of 1 3 5 header] slice_join [of 0 1 5 header] len slice_full [of header] by simp
  moreover have "slice header 0 1 = [header ! 0]" using len by (cases header) (simp_all add: slice_def)
  ultimately show "header = record_header (header ! 0) payload" unfolding a b record_header_def by simp
qed

lemma sign_of_difference: "- (2 ^ 31) \<le> n \<Longrightarrow> n < 2 ^ 31 \<Longrightarrow> bit (word_of_int n :: u32) 31 \<longleftrightarrow> n < 0"
proof (cases "n < 0")
  case False
  assume "n < 2 ^ 31"
  with False have "\<not> bit n 31" by (simp add: bit_iff_odd)
  then show ?thesis using False by (simp add: bit_word_of_int_iff)
next
  case True
  assume "- (2 ^ 31) \<le> n"
  define k where "k = - n - 1"
  have k: "0 \<le> k" "k < 2 ^ 31" "n = NOT k" using True \<open>- (2 ^ 31) \<le> n\<close> by (simp_all add: k_def not_int_def)
  then have "\<not> bit k 31" by (simp add: bit_iff_odd)
  then have "bit n 31" by (simp add: k(3) bit_not_iff)
  then show ?thesis using True by (simp add: bit_word_of_int_iff)
qed

lemma padding_length_le: "p \<noteq> [] \<Longrightarrow> padding_length p \<le> length p \<and> 0 < padding_length p"
  by (cases p) (auto simp: padding_length_def padding_valid_def)

lemma open_mte_exact:
  assumes i: "GetCipherSuiteInfo (cbcSuite rx) = Some info" "mac_alg (MACHash info) = Some h" "MACSize info = hash_size h"
    and p: "hash_size h < length p" "length p < 2 ^ 31"
  defines "n \<equiv> length p - hash_size h - padding_length p"
  shows "open_mte rx ct p (padding_length p) (if padding_valid p then 255 else 0) =
    (if padding_valid p \<and> n \<le> 16384 \<and>
        slice p n (n + hash_size h) = hmac h (readMACKey rx) (mac_input (readSeq rx) ct (take n p))
     then Inr (take n p) else Inl BadRecordMAC)"
proof -
  have ne: "p \<noteq> []" using p by auto
  note pl = padding_length_le [OF this]
  let ?n0 = "int (length p) - int (hash_size h) - int (padding_length p)"
  have "bit (word_of_int ?n0 :: u32) 31 \<longleftrightarrow> ?n0 < 0" using p pl by (intro sign_of_difference) simp_all
  then have n0: "(if bit (word_of_int ?n0 :: u32) 31 then 0 else ?n0) = int n" by (auto simp: n_def)
  have le: "n + hash_size h \<le> length p" using p(1) by (simp add: n_def)
  have MAC: "tls12CBCMAC (readMACKey rx) (cbcSuite rx) (readSeq rx) ct n (take n p) =
      Inr (hmac h (readMACKey rx) (mac_input (readSeq rx) ct (take n p)))"
    using tls12CBCMAC_eq [OF i(1,2), of "readMACKey rx" "readSeq rx" ct "take n p"] le by simp
  have g: "(if c then 1 else 0 :: int) AND uint (if v then 255 else 0 :: u8) = 1 \<longleftrightarrow> c \<and> v" for c v
    by (cases c; cases v) simp_all
  show ?thesis unfolding open_mte_def i(1) option.case Let_def i(3) n0 nat_int
    using le by (simp add: MAC g)
qed

lemma open_etm_exact:
  assumes "p \<noteq> []"
  shows "open_etm p (padding_length p) (if padding_valid p then 255 else 0) =
    (if padding_valid p \<and> length p - padding_length p \<le> 16384 then Inr (take (length p - padding_length p) p)
     else Inl BadRecordMAC)"
  using padding_length_le [OF assms] by (auto simp: open_etm_def Let_def)

text \<open>The two ways in which a record is authentic for a reader, one for each record mode.\<close>

definition authentic :: "TLS12CBCContext \<Rightarrow> u8 \<Rightarrow> bytes \<Rightarrow> bytes \<Rightarrow> bool" where
  "authentic rx ct payload m \<longleftrightarrow>
     (\<exists>h iv body. suite_mac (cbcSuite rx) = Some h \<and> length iv = 16 \<and>
        padding_valid (cbc_decrypt (aes_round_keys (readKey rx)) iv body) \<and>
        (if cbcMode rx = MACThenEncrypt
         then payload = iv @ body \<and>
           (\<exists>rest. cbc_decrypt (aes_round_keys (readKey rx)) iv body =
              m @ hmac h (readMACKey rx) (mac_input (readSeq rx) ct m) @ rest)
         else payload = iv @ body @ hmac h (readMACKey rx) (mac_input (readSeq rx) ct (iv @ body)) \<and>
           (\<exists>pad. cbc_decrypt (aes_round_keys (readKey rx)) iv body = m @ pad \<and>
              length pad = padding_length (cbc_decrypt (aes_round_keys (readKey rx)) iv body))))"

lemma decrypt_mte:
  assumes v: "validateRead rx = Inr ()" and mode: "cbcMode rx = MACThenEncrypt"
    and sq: "readSeq rx \<noteq> - 1" and hd: "validTLS12CBCHeader header payload"
  shows "decrypt_body rx header payload = Inl BadRecordMAC \<or>
    (\<exists>m. decrypt_body rx header payload = Inr m \<and> length m \<le> 16384 \<and> authentic rx (header ! 0) payload m)"
proof -
  obtain info h where i: "GetCipherSuiteInfo (cbcSuite rx) = Some info" "mac_alg (MACHash info) = Some h"
    "MACSize info = hash_size h" "aes_key_ok (readKey rx)"
    using v by (rule validate_readE)
  show ?thesis
  proof (cases "length payload < 16 + roundUpTLS12 (hash_size h + 1) 16 \<or> (length payload - 16) mod 16 \<noteq> 0")
    case True
    then show ?thesis using sq hd mode i by (auto simp: decrypt_body_def)
  next
    case False
    define p where "p = cbc_decrypt (aes_round_keys (readKey rx)) (take 16 payload) (drop 16 payload)"
    have len: "length p = length payload - 16" unfolding p_def using False by (simp add: mod_eq_0_iff_dvd)
    have gt: "hash_size h < length p" using False unfolding len by (auto simp: roundUpTLS12_def)
    have small: "length p < 2 ^ 31" using valid_header(2) [OF hd] unfolding len by simp
    define n where "n = length p - hash_size h - padding_length p"
    have "p \<noteq> []" using gt by auto
    from extract_padding [OF this small]
    have "decrypt_body rx header payload =
        open_mte rx (header ! 0) p (padding_length p) (if padding_valid p then 255 else 0)"
      using sq hd mode i False by (simp add: decrypt_body_def p_def [symmetric] Let_def)
    also note open_mte_exact [OF i(1-3) gt small, of "header ! 0", folded n_def]
    finally have d: "decrypt_body rx header payload =
      (if padding_valid p \<and> n \<le> 16384 \<and>
          slice p n (n + hash_size h) = hmac h (readMACKey rx) (mac_input (readSeq rx) (header ! 0) (take n p))
       then Inr (take n p) else Inl BadRecordMAC)" .
    have "drop (n + hash_size h) p = drop (hash_size h) (drop n p)" by (simp add: add.commute)
    then have split: "p = take n p @ slice p n (n + hash_size h) @ drop (n + hash_size h) p"
      unfolding slice_def by (simp only: add_diff_cancel_left' append_take_drop_id)
    have mac: "suite_mac (cbcSuite rx) = Some h" using i by (simp add: suite_mac_def)
    show ?thesis
    proof (cases "padding_valid p \<and> n \<le> 16384 \<and>
        slice p n (n + hash_size h) = hmac h (readMACKey rx) (mac_input (readSeq rx) (header ! 0) (take n p))")
      case True
      then have "\<exists>rest. p = take n p @ hmac h (readMACKey rx) (mac_input (readSeq rx) (header ! 0) (take n p)) @ rest"
        using split by metis
      then have "authentic rx (header ! 0) payload (take n p)"
        unfolding authentic_def using True mode mac False
        by (intro exI [of _ h] exI [of _ "take 16 payload"] exI [of _ "drop 16 payload"]) (simp add: p_def [symmetric])
      then show ?thesis using True by (simp add: d min.coboundedI2)
    next
      case False
      then have "decrypt_body rx header payload = Inl BadRecordMAC" unfolding d by (rule if_not_P)
      then show ?thesis ..
    qed
  qed
qed

lemma decrypt_etm:
  assumes v: "validateRead rx = Inr ()" and mode: "cbcMode rx = EncryptThenMAC"
    and sq: "readSeq rx \<noteq> - 1" and hd: "validTLS12CBCHeader header payload"
  shows "decrypt_body rx header payload = Inl BadRecordMAC \<or>
    (\<exists>m. decrypt_body rx header payload = Inr m \<and> length m \<le> 16384 \<and> authentic rx (header ! 0) payload m)"
proof -
  obtain info h where i: "GetCipherSuiteInfo (cbcSuite rx) = Some info" "mac_alg (MACHash info) = Some h"
    "MACSize info = hash_size h" "aes_key_ok (readKey rx)"
    using v by (rule validate_readE)
  define frag where "frag = take (length payload - hash_size h) payload"
  define mac where "mac = hmac h (readMACKey rx) (mac_input (readSeq rx) (header ! 0) frag)"
  have chk: "check_etm rx (header ! 0) payload =
      (if length payload < hash_size h \<or> mac \<noteq> drop (length payload - hash_size h) payload then Inl BadRecordMAC else Inr frag)"
    by (simp add: check_etm_def i Let_def frag_def [symmetric] tls12CBCMAC_eq [OF i(1,2)] mac_def)
  show ?thesis
  proof (cases "length payload < hash_size h \<or> mac \<noteq> drop (length payload - hash_size h) payload \<or>
      length frag < 32 \<or> (length frag - 16) mod 16 \<noteq> 0")
    case True
    then show ?thesis using sq hd mode i by (auto simp: decrypt_body_def chk)
  next
    case False
    then have pay: "payload = frag @ mac" by (simp add: frag_def)
    define p where "p = cbc_decrypt (aes_round_keys (readKey rx)) (take 16 frag) (drop 16 frag)"
    have len: "length p = length frag - 16" unfolding p_def using False by (simp add: mod_eq_0_iff_dvd)
    have ne: "p \<noteq> []" using False len by auto
    have small: "length p < 2 ^ 31" using valid_header(2) [OF hd] unfolding len frag_def by simp
    define n where "n = length p - padding_length p"
    have "decrypt_body rx header payload = open_etm p (padding_length p) (if padding_valid p then 255 else 0)"
      using sq hd mode i False extract_padding [OF ne small] by (simp add: decrypt_body_def chk p_def [symmetric] Let_def)
    also note open_etm_exact [OF ne, folded n_def]
    finally have d: "decrypt_body rx header payload =
      (if padding_valid p \<and> n \<le> 16384 then Inr (take n p) else Inl BadRecordMAC)" .
    have suite: "suite_mac (cbcSuite rx) = Some h" using i by (simp add: suite_mac_def)
    show ?thesis
    proof (cases "padding_valid p \<and> n \<le> 16384")
      case True
      have "\<exists>pad. p = take n p @ pad \<and> length pad = padding_length p"
        using padding_length_le [OF ne] by (intro exI [of _ "drop n p"]) (simp add: n_def)
      moreover have "payload = take 16 frag @ drop 16 frag @
          hmac h (readMACKey rx) (mac_input (readSeq rx) (header ! 0) (take 16 frag @ drop 16 frag))"
        using pay by (simp add: mac_def)
      ultimately have "authentic rx (header ! 0) payload (take n p)"
        unfolding authentic_def using True mode suite False
        by (intro exI [of _ h] exI [of _ "take 16 frag"] exI [of _ "drop 16 frag"]) (simp add: p_def [symmetric])
      then show ?thesis using True by (simp add: d min.coboundedI2)
    next
      case False
      then have "decrypt_body rx header payload = Inl BadRecordMAC" unfolding d by (rule if_not_P)
      then show ?thesis ..
    qed
  qed
qed

section \<open>Theorems\<close>

text \<open>C39. The constant-time padding check decides the padding of RFC 5246: on a fragment of less than
  2 GiB it reports 255 exactly when the last byte names a padding length that fits and that many bytes
  and one more at the end all have its value; it then says to remove exactly these, and one byte
  otherwise.\<close>

theorem tls_padding_exact:
  assumes "length p < 2 ^ 31"
  shows "extractTLS12Padding p =
    (if p = [] then (0, 0)
     else if unat (last p) < length p \<and> drop (length p - (unat (last p) + 1)) p = replicate (unat (last p) + 1) (last p)
     then (unat (last p) + 1, 255) else (1, 0))"
proof (cases "p = []")
  case True
  then show ?thesis by (simp add: extractTLS12Padding_def)
next
  case False
  let ?k = "unat (last p) + 1"
  have "list_all (\<lambda>b. b = last p) (drop (length p - ?k) p) \<longleftrightarrow> drop (length p - ?k) p = replicate ?k (last p)"
    if "unat (last p) < length p"
  proof -
    have len: "length (drop (length p - ?k) p) = ?k" using that by simp
    show ?thesis using replicate_length_same [of "drop (length p - ?k) p" "last p"] unfolding len list_all_iff by auto
  qed
  then have "padding_valid p \<longleftrightarrow> unat (last p) < length p \<and> drop (length p - ?k) p = replicate ?k (last p)"
    using False unfolding padding_valid_def by blast
  then show ?thesis using extract_padding [OF False assms] False by (simp add: padding_length_def)
qed

text \<open>C38. Round trip of a record: for contexts that hold the same keys, suite, mode and sequence number,
  a record of at most 16384 bytes is written without error, it carries a well-formed header, the
  reader returns exactly the bytes written, and both sequence numbers advance by one.\<close>

theorem cbc_record_roundtrip:
  assumes v: "validateRead rx = Inr ()" and peers: "peers tx rx" and sq: "readSeq rx \<noteq> - 1"
    and len: "length m \<le> 16384" and rng: "16 \<le> length rng"
  shows "\<exists>payload. EncryptRecord tx rng ct m = (tx\<lparr>writeSeq := writeSeq tx + 1\<rparr>, Inr (record_header ct payload @ payload)) \<and>
    DecryptRecord rx (record_header ct payload) payload = (rx\<lparr>readSeq := readSeq rx + 1\<rparr>, Inr m)"
proof -
  have "cbcMode rx = MACThenEncrypt \<or> cbcMode rx = EncryptThenMAC" using v by (rule validate_readE)
  then obtain payload where "encrypt_body tx rng ct m = Inr (record_header ct payload @ payload)"
    "decrypt_body rx (record_header ct payload) payload = Inr m"
    using mte_roundtrip [OF v peers _ sq len rng] etm_roundtrip [OF v peers _ sq len rng] by metis
  then show ?thesis by (auto simp: EncryptRecord_def DecryptRecord_def)
qed

text \<open>C22. Only authentic records are read. A valid reading context either accepts a record and
  advances its sequence number, and then the header is well formed, the plaintext has at most
  16384 bytes, the padding is valid, and the record carries the MAC of this plaintext (or of its
  ciphertext, in the other mode) under the reader's key, its own sequence number and the content type
  of the header. Or it refuses it and stays unchanged, with one and the same error for
  every malformed or unauthentic record, unless its sequence numbers are exhausted. It never panics.\<close>

theorem cbc_reads_only_authentic:
  assumes v: "validateRead rx = Inr ()" and d: "DecryptRecord rx header payload = (rx', r)"
  shows "case r of
      Inr m \<Rightarrow> rx' = rx\<lparr>readSeq := readSeq rx + 1\<rparr> \<and> readSeq rx \<noteq> - 1 \<and> header = record_header (header ! 0) payload \<and>
        length m \<le> 16384 \<and> authentic rx (header ! 0) payload m
    | Inl e \<Rightarrow> rx' = rx \<and> e = (if readSeq rx = - 1 then SequenceNumberOverflow else BadRecordMAC)"
proof -
  have mode: "cbcMode rx = MACThenEncrypt \<or> cbcMode rx = EncryptThenMAC" using v by (rule validate_readE)
  consider "readSeq rx = - 1" | "readSeq rx \<noteq> - 1" "\<not> validTLS12CBCHeader header payload"
    | "readSeq rx \<noteq> - 1" "validTLS12CBCHeader header payload" by blast
  then show ?thesis
  proof cases
    case 3
    have "decrypt_body rx header payload = Inl BadRecordMAC \<or>
      (\<exists>m. decrypt_body rx header payload = Inr m \<and> length m \<le> 16384 \<and> authentic rx (header ! 0) payload m)"
      using mode decrypt_mte [OF v _ 3] decrypt_etm [OF v _ 3] by blast
    then show ?thesis
    proof (elim disjE exE conjE)
      fix m assume m: "decrypt_body rx header payload = Inr m" "length m \<le> 16384" "authentic rx (header ! 0) payload m"
      then have "rx' = rx\<lparr>readSeq := readSeq rx + 1\<rparr>" "r = Inr m" using d by (simp_all add: DecryptRecord_def)
      then show ?thesis using m(2,3) 3(1) valid_header(1) [OF 3(2)] by simp
    next
      assume "decrypt_body rx header payload = Inl BadRecordMAC"
      then have "rx' = rx" "r = Inl BadRecordMAC" using d by (simp_all add: DecryptRecord_def)
      then show ?thesis using 3(1) by simp
    qed
  qed (use d in \<open>auto simp: DecryptRecord_def decrypt_body_def\<close>)
qed


definition sample_cbc :: "TLS12CBCRecordMode \<Rightarrow> TLS12CBCContext" where
  "sample_cbc mode =
     \<lparr>writeKey = replicate 16 1, writeMACKey = replicate 20 2, writeIV = replicate 16 3,
      readKey = replicate 16 1, readMACKey = replicate 20 2, readIV = replicate 16 3,
      writeSeq = 1, readSeq = 1, cbcSuite = TLS_RSA_WITH_AES_128_CBC_SHA, cbcMode = mode\<rparr>"

lemma sample_suite:
  "GetCipherSuiteInfo 0x002f = Some (tls12CBCSuiteInfo 0x002f ''TLS_RSA_WITH_AES_128_CBC_SHA'' 16 20 ''SHA1'' KeyExchangeRSA AuthenticationRSA)"
  by (simp add: GetCipherSuiteInfo_def)

lemma sample_cbc_valid: "mode \<noteq> ModeUnspecified \<Longrightarrow> validateRead (sample_cbc mode) = Inr ()"
  by (cases mode) (simp_all add: validateRead_def sample_cbc_def sample_suite tls12CBCSuiteInfo_def)

theorem tls_padding_exact_witness:
  "extractTLS12Padding [9, 2, 2, 2] = (3, 255) \<and> extractTLS12Padding [9, 1, 2, 2] = (1, 0)"
proof -
  have len: "length [9, 2, 2, 2 :: u8] < 2 ^ 31" "length [9, 1, 2, 2 :: u8] < 2 ^ 31" by simp_all
  show ?thesis unfolding tls_padding_exact [OF len(1)] tls_padding_exact [OF len(2)] by code_simp
qed

theorem cbc_record_roundtrip_witness:
  "\<exists>payload. EncryptRecord (sample_cbc EncryptThenMAC) (replicate 16 5) 23 (ascii ''hello'') =
       (sample_cbc EncryptThenMAC\<lparr>writeSeq := 2\<rparr>, Inr (record_header 23 payload @ payload)) \<and>
     DecryptRecord (sample_cbc EncryptThenMAC) (record_header 23 payload) payload =
       (sample_cbc EncryptThenMAC\<lparr>readSeq := 2\<rparr>, Inr (ascii ''hello''))"
proof -
  have "peers (sample_cbc EncryptThenMAC) (sample_cbc EncryptThenMAC)" "readSeq (sample_cbc EncryptThenMAC) \<noteq> - 1"
    "length (ascii ''hello'') \<le> 16384" "16 \<le> length (replicate 16 (5 :: u8))"
    by (simp_all add: peers_def sample_cbc_def)
  from cbc_record_roundtrip [OF sample_cbc_valid this, of 23] show ?thesis by (simp add: sample_cbc_def)
qed

theorem cbc_reads_only_authentic_witness:
  "\<exists>payload m. DecryptRecord (sample_cbc MACThenEncrypt) (record_header 23 payload) payload =
       (sample_cbc MACThenEncrypt\<lparr>readSeq := 2\<rparr>, Inr m) \<and> authentic (sample_cbc MACThenEncrypt) 23 payload m"
proof -
  let ?c = "sample_cbc MACThenEncrypt"
  have v: "validateRead ?c = Inr ()" by (rule sample_cbc_valid) simp
  have p: "peers ?c ?c" "cbcMode ?c = MACThenEncrypt" "readSeq ?c \<noteq> - 1" "length (ascii ''hello'') \<le> 16384"
    "16 \<le> length (replicate 16 (5 :: u8))"
    by (simp_all add: peers_def sample_cbc_def)
  obtain payload where "decrypt_body ?c (record_header 23 payload) payload = Inr (ascii ''hello'')"
    by (rule mte_roundtrip [OF v p])
  then have d: "DecryptRecord ?c (record_header 23 payload) payload = (?c\<lparr>readSeq := 2\<rparr>, Inr (ascii ''hello''))"
    by (simp add: DecryptRecord_def) (simp add: sample_cbc_def)
  have "record_header 23 payload ! 0 = 23" by (simp add: record_header_def)
  with cbc_reads_only_authentic [OF v d] d show ?thesis by auto
qed


end
