(* ===== verification/Spec2Isabelle.thy ===== *)
theory Spec2Isabelle
  imports Mpc_Pipeline Mpc_Wire Tee_K_Safety Cbc_Properties
begin

text \<open>
  \<^bold>\<open>The program.\<close> In Reclaim's TEE protocol two enclaves, TEE_K and TEE_T, run a TLS
  session for a client so that neither sees key and data at once, and evaluate an oblivious
  pseudorandom function on parts of the response by two-party computation. The package \<open>mpc\<close> is that
  computation: garbled circuits over labels, oblivious transfers (OTs) made in bulk by the KOS
  extension from 128 Chou-Orlandi base transfers, pools of precomputed OTs on both sides, and the
  byte formats of all messages. \<open>tee_k/ot_precompute.go\<close> (sender) and \<open>tee_t/ot_precompute.go\<close>
  (receiver) run the precomputation over one control connection that may be lost, replaced and
  resumed at any time, while consumers take transfers from the pools. \<open>minitls\<close> is the TLS client; its
  TLS 1.2 CBC record layer is also what TEE_T uses to authenticate a response.

  \<^bold>\<open>Conventions.\<close> A struct is a record, a nil pointer is None, a fallible function returns
  \<open>error + value\<close> with a constructor for each error return; a panic is an error too (\<open>Panic\<close>,
  \<open>TlsPanic\<close>). A method that changes its receiver returns the new state. Fixed-width integers
  are words, Go's \<open>int\<close> is \<open>int\<close> with \<open>is_go_int\<close> for its range. A random reader is the list of the bytes
  it yields. Where pointers are compared, objects are numbers into explicit stores. A method under
  a mutex is one atomic operation; a handler that gives up its lock in between is split into
  sections, and the handler is their composition. Clearing a slice and dropping it is modelled as
  the empty list, an array that is cleared as zeros.

  \<^bold>\<open>Theories.\<close>
  \<^item> \<open>Prelude\<close>: results, folds with errors, slices, byte codecs, and the locales \<open>xor_group\<close> and
    \<open>xor_linear\<close>, interpreted on labels in \<open>Labels\<close> and on the field in \<open>Gf128\<close>.
    \<open>Crypto_Std\<close>, \<open>Crypto_Cbc\<close>: AES, CBC, SHA-1, SHA-256, SHA-384 and HMAC of Go's standard library as
    executable definitions.
  \<^item> \<open>Labels\<close> (\<open>mpc/label.go\<close>, \<open>index.go\<close>), \<open>Circuit_Engine\<close>, \<open>Garbling\<close> (\<open>circuit.go\<close>,
    \<open>fixed_aes*.go\<close>), \<open>Oprf_Online\<close> (\<open>oprf.go\<close>), \<open>Online_Properties\<close>: the engine, half-gates
    garbling and evaluation, and the four-message online phase. Evaluation gives the labels
    of the circuit's output, both parties end with its bytes, output verification is exact,
    sessions are single-use.
  \<^item> \<open>Ot_Pools\<close>, \<open>Receiver_Pool\<close>, \<open>Pool_Properties\<close> (\<open>pool.go\<close>): both pools with every method. The
    sender pool refines a queue (locale \<open>ot_queue\<close>, interpreted on it); the receiver pool is a map of
    unused indices. Transfers are handed out once and in order, consumption is exact, stale
    extension claims have no power.
  \<^item> \<open>Bit_Transpose\<close> (\<open>transpose.go\<close>), \<open>Gf128\<close> (\<open>gf128_*\<close>), \<open>Kos_Extension\<close>, \<open>Kos_Correct\<close>
    (\<open>ot_extension.go\<close>), \<open>Base_Ot\<close> (\<open>base_ot.go\<close>): the optimised routines equal their specifications; an
    honest batch gives matching transfers; which proofs the consistency check accepts; wiping.
  \<^item> \<open>Mpc_Wire\<close> (\<open>wire.go\<close>, \<open>serialize.go\<close>), \<open>Precompute_Wire\<close> (\<open>precompute_wire.go\<close>,
    \<open>ot_extension_serialize.go\<close>): every format has exactly one encoding, which its decoder inverts
    (locale \<open>record_codec\<close>, interpreted on labels and masks).
  \<^item> \<open>Mpc_Pipeline\<close> and this theory: histories of precomputations and evaluations on two
    pools, and an evaluation after any of them.
  \<^item> \<open>Tee_T_Receiver\<close> (\<open>tee_t/ot_precompute.go\<close> and the control connection of
    \<open>connection_manager.go\<close>): the receiver service. \<open>Tee_T_Sections\<close>, \<open>Tee_T_Concurrent\<close> define the
    step relation over the sections of all handlers and consumers and its reachable
    configurations; \<open>Tee_T_Replay\<close> and \<open>Tee_T_Erasure\<close> are its invariants and \<open>Tee_T_Safety\<close> what
    follows: no double delivery, one batch in progress, secrets erased, waiters woken.
  \<^item> \<open>Tee_K_Sender\<close> (\<open>tee_k/ot_precompute.go\<close> with parts of \<open>connection_manager.go\<close>,
    \<open>session_manager.go\<close>, \<open>oprf_handler.go\<close>): the sender service; \<open>Tee_K_Steps\<close>, \<open>Tee_K_Safety\<close>:
    its step relation, its invariant, exact readiness, bounded exchanges, abandoned reservations.
  \<^item> \<open>Exchange_Frames\<close>, \<open>Exchange_Sender\<close>, \<open>Exchange_Receiver\<close>, \<open>Exchange\<close>, \<open>Exchange_Properties\<close>:
    the two services together. From the start of a batch by the sender to the commits on both
    sides every message is handled by the services' own handlers, and both end with matching
    pools in the same epoch. That the starting call then returns, after waiting for the commit,
    is outside the composition.
  \<^item> \<open>Tls12_Keys\<close> (\<open>minitls/prf12.go\<close> and the suite table of \<open>types.go\<close>), \<open>Cbc_Record\<close>
    (\<open>cbc12.go\<close>), \<open>Cbc_Padding\<close>, \<open>Cbc_Properties\<close>: the derived keys, the constant-time padding check
    against RFC 5246, the round trip of a record, and that only authentic records are read.

  \<^bold>\<open>Third-party code.\<close> The circuit compiler and the Chou-Orlandi library are arguments. What
  is used of them are \<open>wf_compiled\<close> (gates refer to earlier wires, the sizes are the declared
  ones) and \<open>co_correct\<close> (a transfer delivers the chosen message); \<open>sample_circuit\<close> and \<open>clear_api\<close> show
  that both can hold. Other hypotheses are lengths of randomness, a non-zero correlation, and bounds on
  pool sizes.

  \<^bold>\<open>Bounds and loops.\<close> Pools of at most \<open>2 ^ 61\<close> or \<open>2 ^ 62\<close> entries are assumed where index
  arithmetic needs it; a batch has at most 100000 transfers. Loops are structural recursions or
  folds; the PRF loop has a termination proof, and there is no fuel.

  \<^bold>\<open>Not modelled.\<close> Memory below the level of Go values: scratch-buffer pools, backing arrays of
  dropped slices (except \<open>appendWithWipedGrowth\<close>), the AES-NI assembly and constant execution
  time. Network I/O, attestation, cloud and logging code, the WebSocket handlers of a
  session, TLS handshakes, AEAD records and certificates, the client's orchestration, HTTP
  parsing in \<open>providers\<close>, the router, \<open>tokenhive\<close>, the language bindings and generated protocol
  buffers: they are I/O around the modelled protocol or call packages that are not part of the
  repository. Timers appear only as the possibility that a wait ends.
\<close>

section \<open>An evaluation over pooled transfers\<close>

text \<open>
  Both parties take one range of transfers from their pools and run the online phase on it.
\<close>

definition pooled_run ::
  "mpc_error + engine \<Rightarrow> bytes \<Rightarrow> bytes \<Rightarrow> bytes \<Rightarrow> SenderPool \<Rightarrow> ReceiverPool \<Rightarrow>
    mpc_error + SenderPool \<times> ReceiverPool \<times> bytes \<times> bytes" where
  "pooled_run eng rng gin ein sp rp =
     (case sender_reserve sp (int InputBits) of
        (_, Inl e) \<Rightarrow> Inl e
      | (sp', Inr (start, sots)) \<Rightarrow>
          (case receiver_consume rp start (int InputBits) of
             (_, Inl e) \<Rightarrow> Inl e
           | (rp', Inr rots) \<Rightarrow>
               bindE (honest_run eng rng gin ein sots rots start) (\<lambda>(a, b). Inr (sp', rp', a, b))))"

lemma sample_filled_pools:
  "\<exists>sp rp. mpc_reach clear_api sp rp \<and> length (remaining sp) = 640"
proof -
  have sid: "length sample_sid = 32" by (simp add: sample_sid_def)
  have z: "sender_total_count NewSenderPool = 0"
    using pools_match_total(2) [OF pools_match_new] NewSenderPool_inv(2) by (simp add: NewSenderPool_def)
  have ready: "precompute_ready clear_api sample_rng_seeds sample_rng_delta (replicate 112 1) (replicate 112 2)
      sample_epoch sample_sid (sender_total_count NewSenderPool) 640"
    unfolding z using sample_base_ready [OF sid] sample_ready by (simp add: precompute_ready_def batch_ready_def)
  obtain sots rots where b: "precompute_batch clear_api sample_rng_seeds sample_rng_delta (replicate 112 1)
      (replicate 112 2) sample_epoch sample_sid (sender_total_count NewSenderPool) 640 = Inr (sots, rots)"
    "length sots = nat 640" "consecutive (sender_total_count NewSenderPool) (map sIndex sots)"
    "consecutive (sender_total_count NewSenderPool) (map rIndex rots)" "list_all2 ot_match sots rots"
    by (rule precompute_batch_run [OF clear_api_correct ready])
  have len: "length sots = 640" "length rots = 640" using b(2) list_all2_lengthD [OF b(5)] by simp_all
  have e: "length (sEntries NewSenderPool) = 0" "length (rEntries NewReceiverPool) = 0"
    by (simp_all add: NewSenderPool_def NewReceiverPool_def)
  have fits: "length (sEntries NewSenderPool) + length sots \<le> 2 ^ 62"
    "length (rEntries NewReceiverPool) + length rots \<le> 2 ^ 62" unfolding e len by simp_all
  obtain sp rp where p: "sender_add NewSenderPool sots = (sp, Inr ())" "receiver_add NewReceiverPool rots = (rp, Inr ())"
    "remaining sp = remaining NewSenderPool @ sots"
    by (rule pools_match_add [OF pools_match_new b(5,3,4) fits])
  have "ValidatePrecomputeCount 640 = Inr ()"
    by (simp add: ValidatePrecomputeCount_def MaxPrecomputeOTs_def OTPoolInitialSize_def)
  from mpc_reach.fill [OF mpc_reach.new_pools this ready b(1) _ _ p(1,2)] have "mpc_reach clear_api sp rp"
    unfolding e by simp
  then show ?thesis using p(3) NewSenderPool_inv(2) len by auto
qed

text \<open>C1. End to end: after any history of completed precomputations and evaluations, two
  pools with 640 transfers left carry out one more evaluation of a compiled circuit; it
  succeeds, both parties end with the bytes the circuit computes from their inputs, and
  exactly 640 transfers are gone. The base-transfer library enters through its contract.\<close>

theorem pooled_evaluation_correct:
  assumes co: "co_correct co" and reach: "mpc_reach co sp rp" and enough: "InputBits \<le> length (remaining sp)"
    and eng: "newEngine (Some c) = Inr e" and wf: "wf_compiled c"
    and len: "length gin = 80" "length ein = 80" and rng: "24 + (16 + 2 * InputBits * 16) \<le> length rng"
  shows "\<exists>sp' rp'. pooled_run (newEngine (Some c)) rng gin ein sp rp =
      Inr (sp', rp', bitsToBytes (mark_output c (bytesToBits gin @ bytesToBits ein)) 16,
           bitsToBytes (mark_output c (bytesToBits gin @ bytesToBits ein)) 16) \<and>
    mpc_reach co sp' rp' \<and> length (remaining sp') + InputBits = length (remaining sp)"
proof -
  obtain sp' rp' rots where r: "sender_reserve sp (int InputBits) = (sp', Inr (sNext sp, take InputBits (remaining sp)))"
    "receiver_consume rp (sNext sp) (int InputBits) = (rp', Inr rots)"
    "list_all2 ot_match (take InputBits (remaining sp)) rots" "remaining sp' = drop InputBits (remaining sp)"
    "consecutive (sNext sp) (map sIndex (take InputBits (remaining sp)))" "consecutive (sNext sp) (map rIndex rots)"
    by (rule pools_match_reserve [OF mpc_reach_match [OF co reach] _ enough]) simp_all
  have "length rots = InputBits" using list_all2_lengthD [OF r(3)] enough by simp
  then have ots: "ots_agree (sNext sp) (take InputBits (remaining sp)) rots"
    using r(3,5,6) enough unfolding ots_agree_def by simp
  have "mpc_reach co sp' rp'" by (rule mpc_reach.evaluation [OF reach r(1,2)])
  moreover have "length (remaining sp') + InputBits = length (remaining sp)" using r(4) enough by simp
  ultimately show ?thesis
    using r(1,2) honest_run_correct [OF newEngine_wf [OF eng wf] ots len rng]
    by (simp add: pooled_run_def eng newEngine_meaning(2) [OF eng])
qed

theorem pooled_evaluation_correct_witness:
  "\<exists>sp rp e sp' rp' a. mpc_reach clear_api sp rp \<and> newEngine (Some sample_circuit) = Inr e \<and>
     pooled_run (newEngine (Some sample_circuit)) (replicate 20520 3) (replicate 80 5) (replicate 80 6) sp rp =
       Inr (sp', rp', a, a) \<and> remaining sp' = []"
proof -
  obtain sp rp where p: "mpc_reach clear_api sp rp" "length (remaining sp) = 640" using sample_filled_pools by blast
  then have enough: "InputBits \<le> length (remaining sp)" by simp
  obtain e where e: "newEngine (Some sample_circuit) = Inr e" using sample_engine by blast
  have l: "length (replicate 80 (5 :: u8)) = 80" "length (replicate 80 (6 :: u8)) = 80"
    "24 + (16 + 2 * InputBits * 16) \<le> length (replicate 20520 (3 :: u8))" by simp_all
  from pooled_evaluation_correct [OF clear_api_correct p(1) enough e sample_circuit_wf l] p(2)
  obtain sp' rp' a where "pooled_run (newEngine (Some sample_circuit)) (replicate 20520 3) (replicate 80 5)
      (replicate 80 6) sp rp = Inr (sp', rp', a, a)" "remaining sp' = []" by auto
  then show ?thesis using p(1) e by blast
qed

text \<open>C25. Pools filled and used together never drift apart: after any such history the
  resume check accepts them.\<close>

theorem reachable_pools_agree:
  assumes co: "co_correct co" and reach: "mpc_reach co sp rp"
  shows "ValidatePoolAgreement (Some sp) (Some rp) = Inr ()"
  by (rule pools_match_agreement [OF mpc_reach_match [OF co reach]])

theorem reachable_pools_agree_witness:
  "\<exists>sp rp. mpc_reach clear_api sp rp \<and> remaining sp \<noteq> [] \<and> ValidatePoolAgreement (Some sp) (Some rp) = Inr ()"
proof -
  obtain sp rp where p: "mpc_reach clear_api sp rp" "length (remaining sp) = 640" using sample_filled_pools by blast
  then have "remaining sp \<noteq> []" by auto
  with p reachable_pools_agree [OF clear_api_correct p(1)] show ?thesis by blast
qed

end
